(* ===== verification/Prelude.thy ===== *)
theory Prelude
  imports Main "HOL-Library.Sublist" "HOL-Library.Signed_Division" "HOL-Library.Word"
    "HOL-Library.Monad_Syntax"
begin

text \<open>
  The vocabulary the components share: the last \<open>n\<close> elements of a list (what every log
  query of the daemon returns), the transition-system interface with which the state machines
  of the development prove their invariants, and the collection \<open>total_simps\<close> of the facts
  that say an operation of the program does not panic.

  A Go \<open>int\<close> is an \<open>int\<close> here except where the width of the machine integer matters, where it
  is a \<open>64 word\<close>. A Go panic is the value \<open>None\<close>.
\<close>

named_theorems total_simps \<open>facts that an operation returns and does not panic\<close>
named_theorems inv_intros \<open>facts that an operation keeps an invariant\<close>

section \<open>Go operations that panic\<close>

text \<open>
  Go's \<open>%\<close> truncates towards zero and panics on a zero divisor; reading or writing a slice out
  of range panics.
\<close>

definition go_mod :: "int \<Rightarrow> int \<Rightarrow> int option" where
  "go_mod a b = (if b = 0 then None else Some (a smod b))"

definition go_index :: "'a list \<Rightarrow> int \<Rightarrow> 'a option" where
  "go_index xs i = (if 0 \<le> i \<and> i < int (length xs) then Some (xs ! nat i) else None)"

definition go_update :: "'a list \<Rightarrow> int \<Rightarrow> 'a \<Rightarrow> 'a list option" where
  "go_update xs i x = (if 0 \<le> i \<and> i < int (length xs) then Some (xs[nat i := x]) else None)"

lemma go_mod_nonneg [total_simps]: "0 \<le> a \<Longrightarrow> 0 < b \<Longrightarrow> go_mod a b = Some (a mod b)"
  by (cases "a = 0") (simp_all add: go_mod_def signed_modulo_int_def)

lemma go_index_Some [total_simps]: "0 \<le> i \<Longrightarrow> i < int (length xs) \<Longrightarrow> go_index xs i = Some (xs ! nat i)"
  by (simp add: go_index_def)

lemma go_update_Some [total_simps]: "0 \<le> i \<Longrightarrow> i < int (length xs) \<Longrightarrow> go_update xs i x = Some (xs[nat i := x])"
  by (simp add: go_update_def)

text \<open>Arithmetic on \<open>int64\<close> wraps around.\<close>

definition int64 :: "int \<Rightarrow> int" where
  "int64 x = sint (word_of_int x :: 64 word)"

lemma int64_id [simp]: "- (2 ^ 63) \<le> x \<Longrightarrow> x < 2 ^ 63 \<Longrightarrow> int64 x = x"
  unfolding int64_def signed_of_int by (simp add: signed_take_bit_int_eq_self)

section \<open>The last elements of a list\<close>

definition lastn :: "nat \<Rightarrow> 'a list \<Rightarrow> 'a list" where
  "lastn n xs = drop (length xs - n) xs"

lemma length_lastn [simp]: "length (lastn n xs) = min n (length xs)"
  by (simp add: lastn_def)

lemma lastn_all [simp]: "length xs \<le> n \<Longrightarrow> lastn n xs = xs"
  by (simp add: lastn_def)

lemma lastn_0 [simp]: "lastn 0 xs = []"
  by (simp add: lastn_def)

lemma lastn_Nil [simp]: "lastn n [] = []"
  by (simp add: lastn_def)

lemma lastn_snoc: "lastn (Suc n) (xs @ [x]) = lastn n xs @ [x]"
  by (simp add: lastn_def)

lemma lastn_append: "length ys \<le> n \<Longrightarrow> lastn n (xs @ ys) = lastn (n - length ys) xs @ ys"
  by (simp add: lastn_def)

lemma lastn_map: "map f (lastn n xs) = lastn n (map f xs)"
  by (simp add: lastn_def drop_map)

lemma lastn_lastn [simp]: "lastn m (lastn n xs) = lastn (min m n) xs"
proof (cases "length xs \<le> n")
  case True
  then show ?thesis
    by (cases "m \<le> n") (simp_all add: min_def)
next
  case False
  then show ?thesis
    by (auto simp: lastn_def min_def)
qed

lemma lastn_absorb: "lastn n (lastn n xs @ ys) = lastn n (xs @ ys)"
proof (cases "length ys \<le> n")
  case True
  then show ?thesis by (simp add: lastn_append)
next
  case False
  then show ?thesis by (simp add: lastn_def)
qed

lemma suffix_lastn: "suffix (lastn n xs) xs"
  by (simp add: lastn_def suffix_drop)

lemma set_lastn_subset: "set (lastn n xs) \<subseteq> set xs"
  by (simp add: lastn_def set_drop_subset)

section \<open>Transition systems\<close>

text \<open>
  A state machine of the development is an initial predicate and a partial step function: a
  label names the scheduler's and the environment's choice, and \<open>None\<close> is a step that cannot
  be taken. An invariant that the initial states have and every step keeps holds after every
  run. The interface is interpreted by each state machine of the program.
\<close>

fun run_steps :: "('l \<Rightarrow> 's \<Rightarrow> 's option) \<Rightarrow> 'l list \<Rightarrow> 's \<Rightarrow> 's option" where
  "run_steps f [] s = Some s"
| "run_steps f (l # ls) s =
     (case f l s of None \<Rightarrow> None | Some s' \<Rightarrow> run_steps f ls s')"

lemma run_steps_append:
  "run_steps f (ls @ ms) s =
     (case run_steps f ls s of None \<Rightarrow> None | Some s' \<Rightarrow> run_steps f ms s')"
  by (induction ls arbitrary: s) (auto split: option.splits)

locale transition_system =
  fixes init :: "'s \<Rightarrow> bool"
    and step :: "'l \<Rightarrow> 's \<Rightarrow> 's option"
    and inv :: "'s \<Rightarrow> bool"
  assumes init_inv: "init s \<Longrightarrow> inv s"
    and step_inv: "step l s = Some s' \<Longrightarrow> inv s \<Longrightarrow> inv s'"
begin

lemma run_inv: "run_steps step ls s = Some s' \<Longrightarrow> inv s \<Longrightarrow> inv s'"
proof (induction ls arbitrary: s)
  case Nil
  then show ?case by simp
next
  case (Cons l ls)
  then show ?case
    by (auto split: option.splits dest: step_inv)
qed

lemma reach_inv: "init s \<Longrightarrow> run_steps step ls s = Some s' \<Longrightarrow> inv s'"
  by (blast intro: run_inv init_inv)

end

end
