(* ===== verification/Go_Strings.thy ===== *)
theory Go_Strings
  imports Prelude
begin

text \<open>
  The part of Go's standard library that the program applies to strings, written out on byte
  strings (a Go string is a sequence of bytes, here a \<open>string\<close>): \<open>strings.HasPrefix\<close>,
  \<open>HasSuffix\<close>, \<open>TrimPrefix\<close>, \<open>TrimSuffix\<close>, \<open>Contains\<close>, \<open>IndexByte\<close>, \<open>LastIndex\<close>, \<open>TrimSpace\<close>,
  \<open>TrimRight\<close>, \<open>Fields\<close>, \<open>ToLower\<close>, the line scanner of \<open>bufio\<close>, \<open>strconv.Itoa\<close>, \<open>Atoi\<close> and
  \<open>ParseUint\<close>. \<open>ToLower\<close> is the ASCII table: a string with letters beyond ASCII is not lowered.
\<close>

section \<open>Prefixes, suffixes and searching\<close>

definition has_prefix :: "string \<Rightarrow> string \<Rightarrow> bool" where
  "has_prefix s p = (take (length p) s = p)"

definition trim_prefix :: "string \<Rightarrow> string \<Rightarrow> string" where
  "trim_prefix s p = (if has_prefix s p then drop (length p) s else s)"

definition has_suffix :: "string \<Rightarrow> string \<Rightarrow> bool" where
  "has_suffix s p = has_prefix (rev s) (rev p)"

definition trim_suffix :: "string \<Rightarrow> string \<Rightarrow> string" where
  "trim_suffix s p = (if has_suffix s p then take (length s - length p) s else s)"

fun str_contains :: "string \<Rightarrow> string \<Rightarrow> bool" where
  "str_contains [] p = (p = [])"
| "str_contains (c # s) p = (has_prefix (c # s) p \<or> str_contains s p)"

text \<open>\<open>IndexByte\<close> and \<open>LastIndex\<close> of a one-byte string return an index or -1; here \<open>None\<close> is -1.\<close>

fun index_byte :: "string \<Rightarrow> char \<Rightarrow> nat option" where
  "index_byte [] c = None"
| "index_byte (x # s) c = (if x = c then Some 0 else map_option Suc (index_byte s c))"

fun last_index :: "string \<Rightarrow> char \<Rightarrow> nat option" where
  "last_index [] c = None"
| "last_index (x # s) c =
     (case last_index s c of Some i \<Rightarrow> Some (Suc i) | None \<Rightarrow> if x = c then Some 0 else None)"

lemma has_prefix_iff: "has_prefix s p \<longleftrightarrow> (\<exists>t. s = p @ t)"
  by (metis append_eq_conv_conj append_take_drop_id has_prefix_def)

lemma has_prefix_append [simp]: "has_prefix (p @ t) p"
  by (simp add: has_prefix_def)

lemma trim_prefix_append [simp]: "trim_prefix (p @ t) p = t"
  by (simp add: trim_prefix_def)

lemma has_suffix_iff: "has_suffix s p \<longleftrightarrow> (\<exists>t. s = t @ p)"
proof
  assume "has_suffix s p"
  then obtain t where "rev s = rev p @ t" by (auto simp: has_suffix_def has_prefix_iff)
  then have "s = rev t @ p" by (metis rev_append rev_rev_ident)
  then show "\<exists>t. s = t @ p" by blast
qed (auto simp: has_suffix_def)

lemma trim_suffix_append [simp]: "trim_suffix (t @ p) p = t"
  by (simp add: trim_suffix_def has_suffix_def)

lemma str_contains_iff: "str_contains s p \<longleftrightarrow> (\<exists>a b. s = a @ p @ b)"
proof (induction s)
  case Nil
  then show ?case by simp
next
  case (Cons c s)
  have "(\<exists>a b. c # s = a @ p @ b) \<longleftrightarrow> (\<exists>b. c # s = p @ b) \<or> (\<exists>a b. s = a @ p @ b)"
    by (auto simp: Cons_eq_append_conv)
  then show ?case using Cons.IH by (simp add: has_prefix_iff)
qed

lemma index_byte_None: "index_byte s c = None \<longleftrightarrow> c \<notin> set s"
  by (induction s) auto

lemma index_byte_append: "c \<notin> set a \<Longrightarrow> index_byte (a @ c # b) c = Some (length a)"
  by (induction a) auto

lemma index_byte_Some:
  "index_byte s c = Some i \<Longrightarrow> i < length s \<and> s ! i = c \<and> c \<notin> set (take i s)"
  by (induction s arbitrary: i) (auto split: if_splits)

lemma last_index_None: "last_index s c = None \<longleftrightarrow> c \<notin> set s"
  by (induction s) (auto split: option.splits)

lemma last_index_append: "c \<notin> set b \<Longrightarrow> last_index (a @ c # b) c = Some (length a)"
proof (induction a)
  case Nil
  then show ?case using last_index_None [of b c] by simp
next
  case (Cons x a)
  then show ?case by simp
qed

section \<open>White space\<close>

text \<open>
  \<open>unicode.IsSpace\<close> on UTF-8: the ASCII spaces, U+0085, U+00A0 and the other Unicode spaces, as
  byte sequences. \<open>space_len s\<close> is the length of the space that starts \<open>s\<close>, 0 if none does; no
  space sequence is a prefix of another, and none starts inside another character.
\<close>

definition ascii_spaces :: "char list" where
  "ascii_spaces = [CHR 0x09, CHR 0x0A, CHR 0x0B, CHR 0x0C, CHR 0x0D, CHR 0x20]"

definition wide_spaces :: "string list" where
  "wide_spaces =
     [[CHR 0xC2, CHR 0x85], [CHR 0xC2, CHR 0xA0], [CHR 0xE1, CHR 0x9A, CHR 0x80]]
     @ map (\<lambda>c. [CHR 0xE2, CHR 0x80, c])
         [CHR 0x80, CHR 0x81, CHR 0x82, CHR 0x83, CHR 0x84, CHR 0x85, CHR 0x86, CHR 0x87,
          CHR 0x88, CHR 0x89, CHR 0x8A, CHR 0xA8, CHR 0xA9, CHR 0xAF]
     @ [[CHR 0xE2, CHR 0x81, CHR 0x9F], [CHR 0xE3, CHR 0x80, CHR 0x80]]"

definition spaces :: "string list" where
  "spaces = map (\<lambda>c. [c]) ascii_spaces @ wide_spaces"

definition space_len :: "string \<Rightarrow> nat" where
  "space_len s = (case find (has_prefix s) spaces of None \<Rightarrow> 0 | Some p \<Rightarrow> length p)"

definition space_len_end :: "string \<Rightarrow> nat" where
  "space_len_end s = (case find (has_suffix s) spaces of None \<Rightarrow> 0 | Some p \<Rightarrow> length p)"

function trim_left_space :: "string \<Rightarrow> string" where
  "trim_left_space s =
     (if s = [] \<or> space_len s = 0 then s else trim_left_space (drop (space_len s) s))"
  by pat_completeness auto
termination
  by (relation "measure length") auto

function trim_right_space :: "string \<Rightarrow> string" where
  "trim_right_space s =
     (if s = [] \<or> space_len_end s = 0 then s
      else trim_right_space (take (length s - space_len_end s) s))"
  by pat_completeness auto
termination
  by (relation "measure length") auto

declare trim_left_space.simps [simp del] trim_right_space.simps [simp del]

definition trim_space :: "string \<Rightarrow> string" where
  "trim_space s = trim_right_space (trim_left_space s)"

text \<open>A byte that neither starts nor ends a space.\<close>

definition no_space_byte :: "char \<Rightarrow> bool" where
  "no_space_byte c \<longleftrightarrow> (\<forall>p \<in> set spaces. hd p \<noteq> c \<and> last p \<noteq> c)"

lemma spaces_nonempty: "p \<in> set spaces \<Longrightarrow> p \<noteq> []"
  by (auto simp: spaces_def wide_spaces_def ascii_spaces_def)

lemma no_space_byte_code [code]:
  "no_space_byte c \<longleftrightarrow> list_all (\<lambda>p. hd p \<noteq> c \<and> last p \<noteq> c) spaces"
  by (simp add: no_space_byte_def list_all_iff)

lemma space_len_no_space:
  assumes "no_space_byte c"
  shows "space_len (c # s) = 0"
proof -
  have "\<not> has_prefix (c # s) p" if "p \<in> set spaces" for p
    using assms that spaces_nonempty [OF that] by (cases p) (auto simp: no_space_byte_def has_prefix_def)
  then have "find (has_prefix (c # s)) spaces = None"
    by (simp add: find_None_iff)
  then show ?thesis by (simp add: space_len_def)
qed

lemma space_len_end_no_space:
  assumes "no_space_byte c"
  shows "space_len_end (s @ [c]) = 0"
proof -
  have "\<not> has_suffix (s @ [c]) p" if "p \<in> set spaces" for p
  proof
    assume "has_suffix (s @ [c]) p"
    then obtain t where "s @ [c] = t @ p" by (auto simp: has_suffix_iff)
    then have "last p = c" using spaces_nonempty [OF that] by (metis last_appendR last_snoc)
    then show False using assms that by (auto simp: no_space_byte_def)
  qed
  then have "find (has_suffix (s @ [c])) spaces = None"
    by (simp add: find_None_iff)
  then show ?thesis by (simp add: space_len_end_def)
qed

lemma trim_space_id:
  assumes "s \<noteq> []" and "no_space_byte (hd s)" and "no_space_byte (last s)"
  shows "trim_space s = s"
proof -
  have "space_len s = 0" using space_len_no_space [OF assms(2), of "tl s"] assms(1) by simp
  moreover have "space_len_end s = 0"
    using space_len_end_no_space [OF assms(3), of "butlast s"] assms(1) by simp
  ultimately show ?thesis
    by (simp add: trim_space_def trim_left_space.simps trim_right_space.simps)
qed

lemma trim_space_Nil [simp]: "trim_space [] = []"
  by (simp add: trim_space_def trim_left_space.simps trim_right_space.simps)

lemma trim_left_suffix: "\<exists>a. s = a @ trim_left_space s"
proof (induction s rule: trim_left_space.induct)
  case (1 s)
  show ?case
  proof (cases "s = [] \<or> space_len s = 0")
    case True
    then show ?thesis by (simp add: trim_left_space.simps)
  next
    case False
    with "1.IH" obtain a where "drop (space_len s) s = a @ trim_left_space s"
      by (auto simp: trim_left_space.simps [of s])
    then have "s = (take (space_len s) s @ a) @ trim_left_space s"
      by (metis append.assoc append_take_drop_id)
    then show ?thesis by blast
  qed
qed

lemma trim_right_prefix: "\<exists>b. s = trim_right_space s @ b"
proof (induction s rule: trim_right_space.induct)
  case (1 s)
  show ?case
  proof (cases "s = [] \<or> space_len_end s = 0")
    case True
    then show ?thesis by (simp add: trim_right_space.simps)
  next
    case False
    with "1.IH" obtain b where "take (length s - space_len_end s) s = trim_right_space s @ b"
      by (auto simp: trim_right_space.simps [of s])
    then have "s = trim_right_space s @ (b @ drop (length s - space_len_end s) s)"
      by (metis append.assoc append_take_drop_id)
    then show ?thesis by blast
  qed
qed

lemma trim_space_infix: "\<exists>a b. s = a @ trim_space s @ b"
  by (metis trim_left_suffix trim_right_prefix trim_space_def)

lemma set_trim_space: "set (trim_space s) \<subseteq> set s"
  using trim_space_infix [of s] by (metis Un_upper1 Un_upper2 order_trans set_append)

section \<open>Fields\<close>

definition flush :: "string \<Rightarrow> string list" where
  "flush cur = (if cur = [] then [] else [rev cur])"

function fields_go :: "string \<Rightarrow> string \<Rightarrow> string list" where
  "fields_go cur [] = flush cur"
| "fields_go cur (c # s) =
     (if space_len (c # s) = 0 then fields_go (c # cur) s
      else flush cur @ fields_go [] (drop (space_len (c # s)) (c # s)))"
  by pat_completeness auto
termination
  by (relation "measure (\<lambda>(cur, s). length s)") auto

definition fields :: "string \<Rightarrow> string list" where
  "fields s = fields_go [] s"

text \<open>A word is a non-empty sequence of bytes that neither start nor end a space.\<close>

definition word_bytes :: "string \<Rightarrow> bool" where
  "word_bytes w \<longleftrightarrow> w \<noteq> [] \<and> list_all no_space_byte w"

lemma fields_go_word:
  "list_all no_space_byte w \<Longrightarrow> fields_go cur (w @ s) = fields_go (rev w @ cur) s"
  by (induction w arbitrary: cur) (auto simp: space_len_no_space)

lemma space_len_blank: "space_len (CHR 0x20 # s) = 1"
proof -
  have "find (has_prefix (CHR 0x20 # s)) spaces = Some [CHR 0x20]"
    by (simp add: spaces_def ascii_spaces_def has_prefix_def)
  then show ?thesis by (simp add: space_len_def)
qed

lemma fields_go_blank: "fields_go cur (CHR 0x20 # s) = flush cur @ fields_go [] s"
  by (simp add: space_len_blank)

fun join_with :: "string \<Rightarrow> string list \<Rightarrow> string" where
  "join_with sep [] = []"
| "join_with sep [w] = w"
| "join_with sep (w # v # ws) = w @ sep @ join_with sep (v # ws)"

lemma fields_join: "list_all word_bytes ws \<Longrightarrow> fields (join_with [CHR 0x20] ws) = ws"
  unfolding fields_def
proof (induction "[CHR 0x20]" ws rule: join_with.induct)
  case 1
  then show ?case by (simp add: flush_def)
next
  case (2 w)
  then show ?case using fields_go_word [of w "[]" "[]"] by (simp add: word_bytes_def flush_def)
next
  case (3 w v ws)
  then show ?case
    by (simp add: fields_go_word word_bytes_def fields_go_blank flush_def del: fields_go.simps(2))
qed

section \<open>The line scanner\<close>

text \<open>
  \<open>bufio.Scanner\<close> with \<open>ScanLines\<close> and a largest token of \<open>max\<close> bytes: a line ends at a newline
  or at the end of the input and loses one trailing carriage return. A line of \<open>max\<close> bytes or
  more fills the buffer before its newline is seen: the scanner stops there with
  \<open>ErrTooLong\<close>, the second component, and reads no further line.
\<close>

definition drop_cr :: "string \<Rightarrow> string" where
  "drop_cr s = (if s \<noteq> [] \<and> last s = CHR 0x0D then butlast s else s)"

definition line_of :: "string \<Rightarrow> string" where
  "line_of s = takeWhile (\<lambda>c. c \<noteq> CHR 0x0A) s"

definition after_line :: "string \<Rightarrow> string" where
  "after_line s = dropWhile (\<lambda>c. c \<noteq> CHR 0x0A) s"

lemma length_after_line: "after_line s = c # t \<Longrightarrow> length t < length s"
  unfolding after_line_def by (metis length_Cons length_dropWhile_le less_le_trans lessI)

function scan_lines :: "nat \<Rightarrow> string \<Rightarrow> string list \<times> bool" where
  "scan_lines mx s =
     (if s = [] then ([], False)
      else if mx \<le> length (line_of s) then ([], True)
      else (case after_line s of
              [] \<Rightarrow> ([drop_cr (line_of s)], False)
            | c # t \<Rightarrow> map_prod (Cons (drop_cr (line_of s))) id (scan_lines mx t)))"
  by pat_completeness auto
termination
  by (relation "measure (\<lambda>(mx, s). length s)") (auto dest: length_after_line)

declare scan_lines.simps [simp del]

lemma scan_lines_Nil [simp]: "scan_lines mx [] = ([], False)"
  by (simp add: scan_lines.simps)

lemma line_of_newline [simp]:
  "CHR 0x0A \<notin> set l \<Longrightarrow> line_of (l @ CHR 0x0A # t) = l"
  "CHR 0x0A \<notin> set l \<Longrightarrow> after_line (l @ CHR 0x0A # t) = CHR 0x0A # t"
  by (induction l) (auto simp: line_of_def after_line_def)

lemma scan_lines_line:
  assumes "CHR 0x0A \<notin> set l" and "length l < mx"
  shows "scan_lines mx (l @ CHR 0x0A # t) =
    (drop_cr l # fst (scan_lines mx t), snd (scan_lines mx t))"
  using assms by (subst scan_lines.simps) (simp add: prod_eq_iff)

lemma scan_lines_too_long:
  assumes "CHR 0x0A \<notin> set l" and "mx \<le> length l" and "0 < mx"
  shows "scan_lines mx (l @ t) = ([], True)"
proof -
  have "length l \<le> length (line_of (l @ t))"
    using assms(1) by (induction l) (auto simp: line_of_def)
  then show ?thesis using assms by (subst scan_lines.simps) auto
qed

lemma scan_lines_text:
  assumes "\<And>l. l \<in> set ls \<Longrightarrow> CHR 0x0A \<notin> set l \<and> length l < mx"
  shows "scan_lines mx (concat (map (\<lambda>l. l @ [CHR 0x0A]) ls) @ t) =
    (map drop_cr ls @ fst (scan_lines mx t), snd (scan_lines mx t))"
  using assms by (induction ls) (auto simp: scan_lines_line)

lemma drop_cr_line_no_newline: "CHR 0x0A \<notin> set (drop_cr (line_of s))"
  by (auto simp: drop_cr_def line_of_def dest!: in_set_butlastD set_takeWhileD)

lemma scan_lines_no_newline: "l \<in> set (fst (scan_lines mx s)) \<Longrightarrow> CHR 0x0A \<notin> set l"
proof (induction mx s rule: scan_lines.induct)
  case (1 mx s)
  then show ?case
    using drop_cr_line_no_newline [of s]
    by (auto simp: scan_lines.simps [of mx s] split: if_splits list.splits)
qed

section \<open>Trimming and lower case\<close>

definition trim_right_char :: "char \<Rightarrow> string \<Rightarrow> string" where
  "trim_right_char c s = rev (dropWhile (\<lambda>x. x = c) (rev s))"

definition lower_char :: "char \<Rightarrow> char" where
  "lower_char c = (if 65 \<le> (of_char c :: nat) \<and> (of_char c :: nat) \<le> 90 then char_of ((of_char c :: nat) + 32) else c)"

definition to_lower :: "string \<Rightarrow> string" where
  "to_lower s = map lower_char s"

lemma lower_char_idem [simp]: "lower_char (lower_char c) = lower_char c"
  by (auto simp: lower_char_def)

lemma to_lower_idem [simp]: "to_lower (to_lower s) = to_lower s"
  by (simp add: to_lower_def)

section \<open>Decimal numerals\<close>

definition digit_char :: "nat \<Rightarrow> char" where
  "digit_char d = char_of (48 + d)"

definition digit_val :: "char \<Rightarrow> nat option" where
  "digit_val c = (let v = (of_char c :: nat) in if 48 \<le> v \<and> v \<le> 57 then Some (v - 48) else None)"

fun nat_dec :: "nat \<Rightarrow> string" where
  "nat_dec n = (if n < 10 then [digit_char n] else nat_dec (n div 10) @ [digit_char (n mod 10)])"

declare nat_dec.simps [simp del]

definition int_dec :: "int \<Rightarrow> string" where
  "int_dec i = (if i < 0 then CHR ''-'' # nat_dec (nat (- i)) else nat_dec (nat i))"

fun dec_val :: "nat \<Rightarrow> string \<Rightarrow> nat option" where
  "dec_val a [] = Some a"
| "dec_val a (c # s) = (case digit_val c of None \<Rightarrow> None | Some d \<Rightarrow> dec_val (10 * a + d) s)"

definition parse_digits :: "string \<Rightarrow> nat option" where
  "parse_digits s = (if s = [] then None else dec_val 0 s)"

text \<open>\<open>strconv.Atoi\<close> on a 64-bit platform, \<open>strconv.ParseUint (s, 10, 64)\<close>; \<open>None\<close> is the error.\<close>

definition atoi :: "string \<Rightarrow> int option" where
  "atoi s = (case s of [] \<Rightarrow> None
     | c # t \<Rightarrow> let neg = (c = CHR ''-''); ds = (if neg \<or> c = CHR ''+'' then t else s) in
        (case parse_digits ds of None \<Rightarrow> None
         | Some v \<Rightarrow> let i = (if neg then - int v else int v) in
             if - (2 ^ 63) \<le> i \<and> i < 2 ^ 63 then Some i else None))"

definition parse_uint :: "string \<Rightarrow> 64 word option" where
  "parse_uint s = (case parse_digits s of None \<Rightarrow> None
     | Some v \<Rightarrow> if v < 2 ^ 64 then Some (of_nat v) else None)"

lemma digit_val_char [simp]: "d < 10 \<Longrightarrow> digit_val (digit_char d) = Some d"
  by (simp add: digit_val_def digit_char_def)

lemma dec_val_append: "dec_val a (s @ t) = (case dec_val a s of None \<Rightarrow> None | Some v \<Rightarrow> dec_val v t)"
  by (induction s arbitrary: a) (auto split: option.splits)

lemma nat_dec_nonempty [simp]: "nat_dec n \<noteq> []"
  by (subst nat_dec.simps) simp

lemma dec_val_nat_dec [simp]: "dec_val 0 (nat_dec n) = Some n"
proof (induction n rule: nat_dec.induct)
  case (1 n)
  show ?case
  proof (cases "n < 10")
    case True
    then show ?thesis by (simp add: nat_dec.simps)
  next
    case False
    then show ?thesis using "1.IH" by (simp add: nat_dec.simps [of n] dec_val_append)
  qed
qed

lemma parse_digits_nat_dec [simp]: "parse_digits (nat_dec n) = Some n"
  by (simp add: parse_digits_def)

lemma nat_dec_inj: "nat_dec m = nat_dec n \<Longrightarrow> m = n"
  by (metis dec_val_nat_dec option.inject)

lemma set_nat_dec: "set (nat_dec n) \<subseteq> digit_char ` {..<10}"
proof (induction n rule: nat_dec.induct)
  case (1 n)
  then show ?case by (subst nat_dec.simps) auto
qed

lemma digit_char_inj: "d < 10 \<Longrightarrow> e < 10 \<Longrightarrow> digit_char d = digit_char e \<longleftrightarrow> d = e"
  by (metis digit_val_char option.inject)

lemma hd_nat_dec_digit: "\<exists>d < 10. hd (nat_dec n) = digit_char d"
  using set_nat_dec [of n] hd_in_set [OF nat_dec_nonempty [of n]] by fastforce

lemma digit_char_not_sign: "d < 10 \<Longrightarrow> digit_char d \<noteq> CHR ''-''" "d < 10 \<Longrightarrow> digit_char d \<noteq> CHR ''+''"
proof -
  have "digit_val CHR ''-'' = None" "digit_val CHR ''+'' = None" by (simp_all add: digit_val_def)
  then show "d < 10 \<Longrightarrow> digit_char d \<noteq> CHR ''-''" "d < 10 \<Longrightarrow> digit_char d \<noteq> CHR ''+''"
    by (metis digit_val_char option.distinct(1))+
qed

lemma atoi_int_dec:
  assumes "- (2 ^ 63) \<le> i" and "i < 2 ^ 63"
  shows "atoi (int_dec i) = Some i"
proof (cases "i < 0")
  case True
  then show ?thesis using assms by (simp add: atoi_def int_dec_def Let_def)
next
  case False
  obtain c t where ct: "nat_dec (nat i) = c # t" by (cases "nat_dec (nat i)") simp_all
  obtain d where "d < 10" "c = digit_char d" using hd_nat_dec_digit [of "nat i"] ct by auto
  then have "c \<noteq> CHR ''-''" "c \<noteq> CHR ''+''" by (simp_all add: digit_char_not_sign)
  moreover have "parse_digits (c # t) = Some (nat i)" by (simp flip: ct)
  ultimately show ?thesis using False assms ct by (simp add: atoi_def int_dec_def Let_def)
qed

lemma parse_uint_nat_dec: "n < 2 ^ 64 \<Longrightarrow> parse_uint (nat_dec n) = Some (of_nat n)"
  by (simp add: parse_uint_def)

end
