(* ===== verification/Ring_Buffer.thy ===== *)
theory Ring_Buffer
  imports Go_Strings
begin

text \<open>
  The ring buffer of log lines (\<open>internal/logger/logger.go\<close>, \<open>logEntry\<close>, \<open>ringBuffer\<close>,
  \<open>newRingBuffer\<close>, \<open>add\<close>, \<open>tail\<close>, \<open>tailFiltered\<close>) with every slice access and every remainder
  as a panic that can happen. What it promises is the interface \<open>bounded_log\<close>: the buffer holds
  the last \<open>cap\<close> entries written to it. The logger rests on the interface only.

  A \<open>time.Time\<close> is the number of nanoseconds since Go's zero time, so \<open>IsZero\<close> is \<open>= 0\<close>.
\<close>

section \<open>Model\<close>

record logEntry =
  le_line :: string
  le_ts :: int

record ringBuffer =
  rb_data :: "logEntry list"
  rb_head :: int
  rb_size :: int
  rb_cap :: int

definition newRingBuffer :: "int \<Rightarrow> ringBuffer option" where
  "newRingBuffer capacity =
     (if capacity < 0 then None
      else Some \<lparr>rb_data = replicate (nat capacity) \<lparr>le_line = '''', le_ts = 0\<rparr>,
                 rb_head = 0, rb_size = 0, rb_cap = capacity\<rparr>)"

definition rb_add :: "ringBuffer \<Rightarrow> logEntry \<Rightarrow> ringBuffer option" where
  "rb_add r e = do {
     d \<leftarrow> go_update (rb_data r) (rb_head r) e;
     h \<leftarrow> go_mod (rb_head r + 1) (rb_cap r);
     Some (r\<lparr>rb_data := d, rb_head := h,
             rb_size := (if rb_size r < rb_cap r then rb_size r + 1 else rb_size r)\<rparr>)
   }"

fun tail_loop :: "ringBuffer \<Rightarrow> int \<Rightarrow> nat list \<Rightarrow> logEntry list option" where
  "tail_loop r start [] = Some []"
| "tail_loop r start (i # is) = do {
     k \<leftarrow> go_mod (start + int i) (rb_cap r);
     e \<leftarrow> go_index (rb_data r) k;
     es \<leftarrow> tail_loop r start is;
     Some (e # es)
   }"

definition rb_tail :: "ringBuffer \<Rightarrow> int \<Rightarrow> logEntry list option" where
  "rb_tail r n0 =
     (if rb_size r = 0 then Some []
      else let n = (if n0 \<le> 0 \<or> n0 > rb_size r then rb_size r else n0) in do {
        s0 \<leftarrow> go_mod (rb_head r - rb_size r + rb_cap r) (rb_cap r);
        start \<leftarrow> (if n < rb_size r then go_mod (rb_head r - n + rb_cap r) (rb_cap r) else Some s0);
        tail_loop r start [0..<nat n]
      })"

definition entry_matches :: "int \<Rightarrow> string \<Rightarrow> logEntry \<Rightarrow> bool" where
  "entry_matches since pat e =
     (\<not> (since \<noteq> 0 \<and> le_ts e < since) \<and> \<not> (pat \<noteq> [] \<and> \<not> str_contains (le_line e) pat))"

definition limit_last :: "int \<Rightarrow> 'a list \<Rightarrow> 'a list" where
  "limit_last n xs = (if n > 0 \<and> int (length xs) > n then drop (length xs - nat n) xs else xs)"

definition rb_tailFiltered :: "ringBuffer \<Rightarrow> int \<Rightarrow> int \<Rightarrow> string \<Rightarrow> string list option" where
  "rb_tailFiltered r n since pat = do {
     all_es \<leftarrow> rb_tail r 0;
     Some (map le_line (limit_last n (filter (entry_matches since pat) all_es)))
   }"

section \<open>The promise of a bounded log\<close>

locale bounded_log =
  fixes new :: "int \<Rightarrow> 'b option"
    and add :: "'b \<Rightarrow> 'e \<Rightarrow> 'b option"
    and tail :: "'b \<Rightarrow> int \<Rightarrow> 'e list option"
    and contents :: "'b \<Rightarrow> 'e list"
    and cap :: "'b \<Rightarrow> nat"
    and inv :: "'b \<Rightarrow> bool"
  assumes new_ok: "0 < c \<Longrightarrow> \<exists>b. new c = Some b \<and> inv b \<and> contents b = [] \<and> cap b = nat c"
    and add_ok: "inv b \<Longrightarrow> \<exists>b'. add b e = Some b' \<and> inv b' \<and> cap b' = cap b
                   \<and> contents b' = lastn (cap b) (contents b @ [e])"
    and tail_ok: "inv b \<Longrightarrow> tail b n = Some (if n \<le> 0 then contents b else lastn (nat n) (contents b))"
    and cap_pos: "inv b \<Longrightarrow> 0 < cap b"
    and bounded: "inv b \<Longrightarrow> length (contents b) \<le> cap b"
begin

lemma add_all:
  assumes "inv b"
  shows "\<exists>b'. run_steps (\<lambda>e b. add b e) es b = Some b' \<and> inv b' \<and> cap b' = cap b
           \<and> contents b' = lastn (cap b) (contents b @ es)"
  using assms
proof (induction es arbitrary: b)
  case Nil
  then show ?case using bounded by simp
next
  case (Cons e es)
  obtain b1 where b1: "add b e = Some b1" "inv b1" "cap b1 = cap b"
      "contents b1 = lastn (cap b) (contents b @ [e])"
    using add_ok [OF Cons.prems] by blast
  obtain b2 where b2: "run_steps (\<lambda>e b. add b e) es b1 = Some b2" "inv b2" "cap b2 = cap b1"
      "contents b2 = lastn (cap b1) (contents b1 @ es)"
    using Cons.IH [OF b1(2)] by blast
  have "lastn (cap b) (lastn (cap b) (contents b @ [e]) @ es) = lastn (cap b) ((contents b @ [e]) @ es)"
    by (rule lastn_absorb)
  with b1 b2 show ?case by simp
qed

lemma tail_after:
  assumes "0 < c"
  shows "\<exists>b b'. new c = Some b \<and> run_steps (\<lambda>e b. add b e) es b = Some b' \<and> inv b'
           \<and> tail b' n = Some (lastn (if n \<le> 0 then nat c else min (nat n) (nat c)) es)"
proof -
  obtain b where b: "new c = Some b" "inv b" "contents b = []" "cap b = nat c"
    using new_ok [OF assms] by blast
  obtain b' where b': "run_steps (\<lambda>e b. add b e) es b = Some b'" "inv b'"
      "contents b' = lastn (nat c) es"
    using add_all [OF b(2), of es] b by auto
  then have "tail b' n = Some (lastn (if n \<le> 0 then nat c else min (nat n) (nat c)) es)"
    using tail_ok [OF b'(2), of n] by simp
  with b b' show ?thesis by blast
qed

end

section \<open>The ring buffer keeps the promise\<close>

definition rb_inv :: "ringBuffer \<Rightarrow> bool" where
  "rb_inv r \<longleftrightarrow> 0 < rb_cap r \<and> int (length (rb_data r)) = rb_cap r
     \<and> 0 \<le> rb_head r \<and> rb_head r < rb_cap r \<and> 0 \<le> rb_size r \<and> rb_size r \<le> rb_cap r"

definition slot :: "ringBuffer \<Rightarrow> int \<Rightarrow> nat" where
  "slot r k = nat ((rb_head r + k) mod rb_cap r)"

text \<open>The entries, oldest first: the \<open>size\<close> slots before the next write position.\<close>

definition rb_entries :: "ringBuffer \<Rightarrow> logEntry list" where
  "rb_entries r = map (\<lambda>i. rb_data r ! slot r (int i - rb_size r)) [0..<nat (rb_size r)]"

lemma length_rb_entries [simp]: "length (rb_entries r) = nat (rb_size r)"
  by (simp add: rb_entries_def)

lemma slot_less: "rb_inv r \<Longrightarrow> slot r k < length (rb_data r)"
  by (auto simp: rb_inv_def slot_def nat_less_iff)

lemma slot_0: "rb_inv r \<Longrightarrow> slot r 0 = nat (rb_head r)"
  by (simp add: rb_inv_def slot_def)

lemma slot_neq_head:
  assumes "rb_inv r" and "- rb_cap r < k" and "k < 0"
  shows "slot r k \<noteq> nat (rb_head r)"
proof
  assume "slot r k = nat (rb_head r)"
  then have "(rb_head r + k) mod rb_cap r = rb_head r mod rb_cap r"
    using assms(1) by (simp add: slot_def rb_inv_def nat_eq_iff)
  then have "rb_cap r dvd k"
    by (simp add: mod_eq_dvd_iff)
  then have "rb_cap r dvd - k" by simp
  moreover have "0 < - k" and "- k < rb_cap r" using assms(2,3) by simp_all
  ultimately show False using zdvd_not_zless by blast
qed

lemma slot_shift: "slot r (k - rb_cap r) = slot r k"
  by (simp add: slot_def add.commute add_diff_eq)

lemma rb_add_eq:
  assumes "rb_inv r"
  shows "rb_add r e = Some (r\<lparr>rb_data := (rb_data r)[nat (rb_head r) := e],
     rb_head := (rb_head r + 1) mod rb_cap r,
     rb_size := (if rb_size r < rb_cap r then rb_size r + 1 else rb_size r)\<rparr>)"
  using assms by (simp add: rb_add_def rb_inv_def total_simps)

lemma rb_inv_add: "rb_inv r \<Longrightarrow> rb_add r e = Some r' \<Longrightarrow> rb_inv r'"
  by (auto simp: rb_add_eq) (auto simp: rb_inv_def)

lemma slot_add:
  assumes "rb_inv r" and "rb_add r e = Some r'"
  shows "slot r' k = slot r (k + 1)"
  using assms by (auto simp: rb_add_eq slot_def mod_simps ac_simps)

lemma rb_entries_add:
  assumes inv: "rb_inv r" and add: "rb_add r e = Some r'"
  shows "rb_entries r' = lastn (nat (rb_cap r)) (rb_entries r @ [e])"
proof (cases "rb_size r < rb_cap r")
  case True
  have d: "rb_data r' = (rb_data r)[nat (rb_head r) := e]" "rb_size r' = rb_size r + 1"
    using True inv add by (auto simp: rb_add_eq)
  have "rb_entries r' = rb_entries r @ [e]"
  proof (rule nth_equalityI)
    show "length (rb_entries r') = length (rb_entries r @ [e])"
      using inv d by (simp add: rb_inv_def nat_add_distrib)
  next
    fix i assume "i < length (rb_entries r')"
    then have i: "int i \<le> rb_size r" using inv d by (simp add: rb_inv_def)
    have s: "slot r' (int i - rb_size r') = slot r (int i - rb_size r)"
      using slot_add [OF inv add] d by simp
    show "rb_entries r' ! i = (rb_entries r @ [e]) ! i"
    proof (cases "int i = rb_size r")
      case True
      then have "slot r (int i - rb_size r) = nat (rb_head r)" using slot_0 [OF inv] by simp
      moreover have "nat (rb_head r) < length (rb_data r)" using slot_less [OF inv, of 0] slot_0 [OF inv] by simp
      ultimately show ?thesis using s d i inv True
        by (simp add: rb_entries_def nth_append rb_inv_def)
    next
      case False
      with i have lt: "int i < rb_size r" by simp
      then have "slot r (int i - rb_size r) \<noteq> nat (rb_head r)"
        using inv True by (intro slot_neq_head) (auto simp: rb_inv_def)
      then show ?thesis using s d lt inv
        by (simp add: rb_entries_def nth_append rb_inv_def)
    qed
  qed
  moreover have "length (rb_entries r @ [e]) \<le> nat (rb_cap r)" using True inv by (simp add: rb_inv_def) arith
  ultimately show ?thesis by simp
next
  case False
  then have full: "rb_size r = rb_cap r" using inv by (simp add: rb_inv_def)
  have d: "rb_data r' = (rb_data r)[nat (rb_head r) := e]" "rb_size r' = rb_cap r"
    using full inv add by (auto simp: rb_add_eq)
  have pos: "0 < rb_cap r" using inv by (simp add: rb_inv_def)
  have lst: "lastn (nat (rb_cap r)) (rb_entries r @ [e]) = drop 1 (rb_entries r) @ [e]"
    using full pos by (simp add: lastn_def)
  have "rb_entries r' = drop 1 (rb_entries r) @ [e]"
  proof (rule nth_equalityI)
    show "length (rb_entries r') = length (drop 1 (rb_entries r) @ [e])"
      using full d pos by simp
  next
    fix i assume "i < length (rb_entries r')"
    then have i: "int i < rb_cap r" using d by simp
    have s: "slot r' (int i - rb_size r') = slot r (int i + 1)"
      using slot_add [OF inv add] d slot_shift [of r "int i + 1"] by (simp add: algebra_simps)
    show "rb_entries r' ! i = (drop 1 (rb_entries r) @ [e]) ! i"
    proof (cases "int i + 1 = rb_cap r")
      case True
      then have "slot r (int i + 1) = nat (rb_head r)"
        using slot_shift [of r "rb_cap r"] slot_0 [OF inv] by simp
      moreover have "nat (rb_head r) < length (rb_data r)" using slot_less [OF inv, of 0] slot_0 [OF inv] by simp
      ultimately show ?thesis using s d i True full
        by (simp add: rb_entries_def nth_append)
    next
      case False
      with i have lt: "int i + 1 < rb_cap r" by simp
      have sh: "slot r (int i + 1) = slot r (int i + 1 - rb_cap r)" by (rule slot_shift [symmetric])
      have "slot r (int i + 1 - rb_cap r) \<noteq> nat (rb_head r)"
        using inv lt by (intro slot_neq_head) auto
      then show ?thesis using s d lt full sh
        by (simp add: rb_entries_def nth_append add.commute)
    qed
  qed
  with lst show ?thesis by simp
qed

lemma tail_loop_eq:
  assumes "rb_inv r" and "0 \<le> start"
  shows "tail_loop r start is = Some (map (\<lambda>i. rb_data r ! nat ((start + int i) mod rb_cap r)) is)"
proof (induction "is")
  case Nil
  then show ?case by simp
next
  case (Cons i "is")
  have "nat ((start + int i) mod rb_cap r) < length (rb_data r)"
    using assms by (auto simp: rb_inv_def nat_less_iff)
  then show ?case using assms Cons.IH by (simp add: rb_inv_def total_simps)
qed

lemma tail_slots:
  assumes "rb_inv r" and "0 < n" and "n \<le> rb_size r"
  shows "tail_loop r ((rb_head r - n + rb_cap r) mod rb_cap r) [0..<nat n] = Some (lastn (nat n) (rb_entries r))"
proof -
  let ?start = "(rb_head r - n + rb_cap r) mod rb_cap r"
  have pos: "0 \<le> ?start" using assms by (simp add: rb_inv_def)
  have "map (\<lambda>i. rb_data r ! nat ((?start + int i) mod rb_cap r)) [0..<nat n] = lastn (nat n) (rb_entries r)"
    (is "?l = ?r")
  proof (rule nth_equalityI)
    show "length ?l = length ?r" using assms by simp
  next
    fix i assume "i < length ?l"
    then have i: "int i < n" by simp
    have "(?start + int i) mod rb_cap r = (rb_head r - n + int i) mod rb_cap r"
      by (simp add: mod_simps)
    then have "?l ! i = rb_data r ! slot r (int i - n)"
      using i by (simp add: slot_def algebra_simps)
    moreover have "?r ! i = rb_data r ! slot r (int i - n)"
      using i assms by (simp add: lastn_def rb_entries_def of_nat_diff nat_diff_distrib algebra_simps)
    ultimately show "?l ! i = ?r ! i" by simp
  qed
  then show ?thesis using tail_loop_eq [OF assms(1) pos, of "[0..<nat n]"] by simp
qed

lemma rb_tail_eq:
  assumes "rb_inv r"
  shows "rb_tail r n = Some (if n \<le> 0 then rb_entries r else lastn (nat n) (rb_entries r))"
proof (cases "rb_size r = 0")
  case True
  then show ?thesis by (simp add: rb_tail_def rb_entries_def)
next
  case False
  define m where "m = (if n \<le> 0 \<or> n > rb_size r then rb_size r else n)"
  have m: "0 < m" "m \<le> rb_size r" using False assms by (auto simp: m_def rb_inv_def)
  have "rb_tail r n = tail_loop r ((rb_head r - m + rb_cap r) mod rb_cap r) [0..<nat m]"
    using False assms m by (auto simp: rb_tail_def rb_inv_def m_def Let_def total_simps)
  also have "\<dots> = Some (lastn (nat m) (rb_entries r))"
    by (rule tail_slots [OF assms m])
  finally show ?thesis by (auto simp: m_def)
qed

lemma newRingBuffer_ok:
  "0 < c \<Longrightarrow> \<exists>r. newRingBuffer c = Some r \<and> rb_inv r \<and> rb_entries r = [] \<and> rb_cap r = c"
  by (simp add: newRingBuffer_def rb_inv_def rb_entries_def)

interpretation rb: bounded_log newRingBuffer rb_add rb_tail rb_entries "\<lambda>r. nat (rb_cap r)" rb_inv
proof unfold_locales
  fix c :: int assume "0 < c"
  then show "\<exists>b. newRingBuffer c = Some b \<and> rb_inv b \<and> rb_entries b = [] \<and> nat (rb_cap b) = nat c"
    using newRingBuffer_ok by metis
next
  fix b e assume inv: "rb_inv b"
  then obtain b' where add: "rb_add b e = Some b'" by (simp add: rb_add_eq)
  then have "rb_cap b' = rb_cap b" using inv by (auto simp: rb_add_eq)
  then show "\<exists>b'. rb_add b e = Some b' \<and> rb_inv b' \<and> nat (rb_cap b') = nat (rb_cap b)
      \<and> rb_entries b' = lastn (nat (rb_cap b)) (rb_entries b @ [e])"
    using inv add rb_inv_add rb_entries_add by auto
next
  fix b n assume "rb_inv b"
  then show "rb_tail b n = Some (if n \<le> 0 then rb_entries b else lastn (nat n) (rb_entries b))"
    by (rule rb_tail_eq)
qed (auto simp: rb_inv_def)

lemma limit_last_eq: "limit_last n xs = (if n \<le> 0 then xs else lastn (nat n) xs)"
  by (auto simp: limit_last_def lastn_def not_less)

lemma rb_tailFiltered_eq:
  "rb_inv r \<Longrightarrow> rb_tailFiltered r n since pat =
     Some (map le_line (limit_last n (filter (entry_matches since pat) (rb_entries r))))"
  by (simp add: rb_tailFiltered_def rb_tail_eq)

section \<open>Properties\<close>

text \<open>C23. After any sequence of writes to a new buffer of positive capacity, no index or
  remainder of \<open>add\<close> and \<open>tail\<close> panics and \<open>tail n\<close> returns exactly the last \<open>n\<close> entries
  written (all that fit when \<open>n\<close> is not positive), oldest first, never more than the capacity.\<close>

theorem ring_tail_after_writes:
  assumes "0 < c"
  shows "\<exists>r0 r. newRingBuffer c = Some r0 \<and> run_steps (\<lambda>e r. rb_add r e) es r0 = Some r
           \<and> rb_tail r n = Some (lastn (if n \<le> 0 then nat c else min (nat n) (nat c)) es)"
  using rb.tail_after [OF assms, of es n] by blast

theorem ring_tail_after_writes_witness:
  "\<exists>r0 r. newRingBuffer 3 = Some r0
     \<and> run_steps (\<lambda>e r. rb_add r e)
         (map (\<lambda>s. \<lparr>le_line = s, le_ts = 7\<rparr>) [''one'', ''two'', ''three'', ''four'']) r0 = Some r
     \<and> rb_tail r 10 = Some (map (\<lambda>s. \<lparr>le_line = s, le_ts = 7\<rparr>) [''two'', ''three'', ''four''])"
  using ring_tail_after_writes [of 3 "map (\<lambda>s. \<lparr>le_line = s, le_ts = 7\<rparr>) [''one'', ''two'', ''three'', ''four'']" 10]
  by (simp add: lastn_def)

end
