(* ===== verification/Go_Paths.thy ===== *)
theory Go_Paths
  imports Go_Strings
begin

text \<open>
  Go's \<open>path/filepath\<close> on Unix, as far as the program uses it: \<open>Clean\<close>, \<open>Join\<close>, \<open>Dir\<close>, \<open>IsAbs\<close>,
  \<open>Abs\<close> (which asks the operating system for the working directory) and \<open>Ext\<close>. The lemmas say
  what a cleaned absolute path is: a slash and slash-separated components none of which is
  empty, \<open>.\<close> or \<open>..\<close>; and that a string prefix ending in a slash is a component prefix.
\<close>

section \<open>Components\<close>

abbreviation slash :: char where
  "slash \<equiv> CHR ''/''"

fun split_on :: "char \<Rightarrow> string \<Rightarrow> string list" where
  "split_on c [] = [[]]"
| "split_on c (x # s) =
     (if x = c then [] # split_on c s
      else (case split_on c s of [] \<Rightarrow> [[x]] | w # ws \<Rightarrow> (x # w) # ws))"

lemma split_on_nonempty [simp]: "split_on c s \<noteq> []"
  by (induction s) (auto split: list.splits)

lemma split_on_append: "split_on c (a @ c # b) = split_on c a @ split_on c b"
proof (induction a)
  case Nil
  then show ?case by simp
next
  case (Cons x a)
  then show ?case
    using split_on_nonempty [of c a] by (cases "split_on c a") auto
qed

lemma split_on_word [simp]: "c \<notin> set w \<Longrightarrow> split_on c w = [w]"
  by (induction w) auto

lemma split_on_parts: "w \<in> set (split_on c s) \<Longrightarrow> c \<notin> set w"
  by (induction s arbitrary: w) (auto split: if_splits list.splits)

lemma split_on_join:
  "ws \<noteq> [] \<Longrightarrow> (\<And>w. w \<in> set ws \<Longrightarrow> c \<notin> set w) \<Longrightarrow> split_on c (join_with [c] ws) = ws"
  by (induction "[c]" ws rule: join_with.induct) (auto simp: split_on_append)

lemma join_with_append:
  "as \<noteq> [] \<Longrightarrow> bs \<noteq> [] \<Longrightarrow> join_with sep (as @ bs) = join_with sep as @ sep @ join_with sep bs"
proof (induction sep as rule: join_with.induct)
  case (2 sep w)
  then show ?case by (cases bs) auto
qed auto

section \<open>The functions\<close>

definition is_abs :: "string \<Rightarrow> bool" where
  "is_abs p = has_prefix p [slash]"

text \<open>\<open>Clean\<close> drops empty and \<open>.\<close> components and lets \<open>..\<close> undo the component before it; at the
  root \<open>..\<close> is dropped, and a relative path keeps its leading ones. The stack is reversed.\<close>

fun clean_step :: "bool \<Rightarrow> string list \<Rightarrow> string \<Rightarrow> string list" where
  "clean_step rooted st c =
     (if c = [] \<or> c = ''.'' then st
      else if c = ''..'' then
        (case st of
           [] \<Rightarrow> (if rooted then [] else [c])
         | t # ts \<Rightarrow> (if t = ''..'' then c # st else ts))
      else c # st)"

definition clean_comps :: "string \<Rightarrow> string list" where
  "clean_comps p = rev (foldl (clean_step (is_abs p)) [] (split_on slash p))"

definition path_clean :: "string \<Rightarrow> string" where
  "path_clean p =
     (if is_abs p then slash # join_with [slash] (clean_comps p)
      else if clean_comps p = [] then ''.''
      else join_with [slash] (clean_comps p))"

definition path_join :: "string list \<Rightarrow> string" where
  "path_join es =
     (case dropWhile (\<lambda>e. e = []) es of [] \<Rightarrow> [] | e # es' \<Rightarrow> path_clean (join_with [slash] (e # es')))"

definition path_dir :: "string \<Rightarrow> string" where
  "path_dir p = path_clean (case last_index p slash of None \<Rightarrow> [] | Some i \<Rightarrow> take (Suc i) p)"

text \<open>\<open>cwd\<close> is what \<open>os.Getwd\<close> returns; \<open>None\<close> is its error.\<close>

definition path_abs :: "string option \<Rightarrow> string \<Rightarrow> string option" where
  "path_abs cwd p =
     (if is_abs p then Some (path_clean p)
      else (case cwd of None \<Rightarrow> None | Some d \<Rightarrow> Some (path_join [d, p])))"

definition path_ext :: "string \<Rightarrow> string" where
  "path_ext p =
     (case last_index p CHR ''.'' of None \<Rightarrow> []
      | Some i \<Rightarrow> if slash \<in> set (drop i p) then [] else drop i p)"

section \<open>Cleaned paths\<close>

definition norm_comp :: "string \<Rightarrow> bool" where
  "norm_comp c \<longleftrightarrow> c \<noteq> [] \<and> c \<noteq> ''.'' \<and> c \<noteq> ''..'' \<and> slash \<notin> set c"

text \<open>An absolute path in normal form, from its components.\<close>

definition render :: "string list \<Rightarrow> string" where
  "render cs = slash # join_with [slash] cs"

lemma is_abs_Cons [simp]: "is_abs (c # s) \<longleftrightarrow> c = slash"
  by (auto simp: is_abs_def has_prefix_def)

lemma is_abs_Nil [simp]: "\<not> is_abs []"
  by (simp add: is_abs_def has_prefix_def)

lemma is_abs_append [simp]: "p \<noteq> [] \<Longrightarrow> is_abs (p @ q) \<longleftrightarrow> is_abs p"
  by (cases p) auto

declare clean_step.simps [simp del]

lemma clean_step_norm:
  assumes "list_all norm_comp st" and "slash \<notin> set c"
  shows "list_all norm_comp (clean_step True st c)"
proof (cases "c = [] \<or> c = ''.'' \<or> c = ''..''")
  case True
  then show ?thesis using assms(1)
    by (cases st) (auto simp: clean_step.simps norm_comp_def)
next
  case False
  then have "norm_comp c" using assms(2) by (simp add: norm_comp_def)
  moreover have "clean_step True st c = c # st" using False by (simp add: clean_step.simps)
  ultimately show ?thesis using assms(1) by simp
qed

lemma clean_step_push: "norm_comp c \<Longrightarrow> clean_step r st c = c # st"
  by (simp add: clean_step.simps norm_comp_def)

lemma clean_step_skip [simp]: "clean_step r st [] = st"
  by (simp add: clean_step.simps)

lemma foldl_clean_norm:
  "list_all norm_comp st \<Longrightarrow> (\<And>c. c \<in> set cs \<Longrightarrow> slash \<notin> set c)
    \<Longrightarrow> list_all norm_comp (foldl (clean_step True) st cs)"
  by (induction cs arbitrary: st) (simp_all add: clean_step_norm)

lemma foldl_clean_id:
  "list_all norm_comp cs \<Longrightarrow> foldl (clean_step r) st cs = rev cs @ st"
  by (induction cs arbitrary: st) (simp_all add: clean_step_push)

lemma clean_comps_norm: "is_abs p \<Longrightarrow> list_all norm_comp (clean_comps p)"
  unfolding clean_comps_def list_all_rev
  by (auto intro: foldl_clean_norm dest: split_on_parts)

lemma path_clean_abs: "is_abs p \<Longrightarrow> path_clean p = render (clean_comps p)"
  by (simp add: path_clean_def render_def)

lemma path_clean_is_abs [simp]: "is_abs p \<Longrightarrow> is_abs (path_clean p)"
  by (simp add: path_clean_def)

lemma norm_comp_slash: "list_all norm_comp cs \<Longrightarrow> c \<in> set cs \<Longrightarrow> slash \<notin> set c"
  by (auto simp: list_all_iff norm_comp_def)

lemma clean_comps_render:
  assumes "list_all norm_comp cs"
  shows "clean_comps (render cs) = cs"
proof -
  have "split_on slash (render cs) = [] # split_on slash (join_with [slash] cs)"
    by (simp add: render_def)
  moreover have "foldl (clean_step True) [] (split_on slash (join_with [slash] cs)) = rev cs"
  proof (cases "cs = []")
    case True
    then show ?thesis by simp
  next
    case False
    then have "split_on slash (join_with [slash] cs) = cs"
      using assms norm_comp_slash by (intro split_on_join) blast+
    then show ?thesis using assms foldl_clean_id [of cs True "[]"] by simp
  qed
  ultimately show ?thesis by (simp add: clean_comps_def render_def)
qed

lemma path_clean_render: "list_all norm_comp cs \<Longrightarrow> path_clean (render cs) = render cs"
  by (subst path_clean_abs) (simp_all add: clean_comps_render, simp add: render_def)

lemma path_clean_idem: "is_abs p \<Longrightarrow> path_clean (path_clean p) = path_clean p"
  by (simp add: path_clean_abs path_clean_render clean_comps_norm)

lemma render_inject:
  "list_all norm_comp cs \<Longrightarrow> list_all norm_comp ds \<Longrightarrow> render cs = render ds \<longleftrightarrow> cs = ds"
  by (metis clean_comps_render)

text \<open>The string test of the program, the prefix \<open>dir + "/"\<close>, is the component test.\<close>

lemma has_prefix_render:
  assumes "list_all norm_comp cs" and "list_all norm_comp ds" and "ds \<noteq> []"
  shows "has_prefix (render cs) (render ds @ [slash]) \<longleftrightarrow> strict_prefix ds cs"
proof
  assume "has_prefix (render cs) (render ds @ [slash])"
  then obtain t where t: "join_with [slash] cs = join_with [slash] ds @ slash # t"
    by (auto simp: has_prefix_iff render_def)
  then have "cs \<noteq> []" by auto
  then have "cs = split_on slash (join_with [slash] cs)"
    using assms(1) norm_comp_slash by (intro split_on_join [symmetric]) blast+
  also have "\<dots> = split_on slash (join_with [slash] ds) @ split_on slash t"
    by (simp add: t split_on_append)
  also have "split_on slash (join_with [slash] ds) = ds"
    using assms norm_comp_slash by (intro split_on_join) blast+
  finally have "cs = ds @ split_on slash t" .
  then show "strict_prefix ds cs" using split_on_nonempty [of slash t] by (metis append_Nil2 prefix_def prefix_order.less_le same_append_eq)
next
  assume "strict_prefix ds cs"
  then obtain es where "cs = ds @ es" and "es \<noteq> []" by (auto elim: strict_prefixE')
  then have "join_with [slash] cs = join_with [slash] ds @ [slash] @ join_with [slash] es"
    using assms(3) by (simp add: join_with_append)
  then show "has_prefix (render cs) (render ds @ [slash])"
    by (auto simp: has_prefix_iff render_def)
qed

lemma path_join_abs:
  assumes "is_abs d"
  shows "path_join [d, p] = path_clean (d @ slash # p) \<and> is_abs (path_join [d, p])"
proof -
  have "d \<noteq> []" using assms by auto
  moreover have "is_abs (d @ slash # p)" using assms calculation by simp
  ultimately show ?thesis by (simp add: path_join_def)
qed

lemma path_abs_cleaned:
  assumes "path_abs cwd p = Some q" and "\<And>d. cwd = Some d \<Longrightarrow> is_abs d"
  shows "\<exists>cs. list_all norm_comp cs \<and> q = render cs"
proof -
  have "\<exists>r. is_abs r \<and> q = path_clean r"
  proof (cases "is_abs p")
    case True
    then show ?thesis using assms(1) by (auto simp: path_abs_def)
  next
    case False
    with assms obtain d where "cwd = Some d" "is_abs d" "q = path_join [d, p]"
      by (auto simp: path_abs_def split: option.splits)
    moreover have "is_abs (d @ slash # p)" using \<open>is_abs d\<close> by (cases d) auto
    ultimately show ?thesis using path_join_abs by blast
  qed
  then show ?thesis using clean_comps_norm path_clean_abs by blast
qed

end
