(* ===== verification/Log_File.thy ===== *)
theory Log_File
  imports Ring_Buffer Go_Paths
begin

text \<open>
  The on-disk log of a process (\<open>internal/logger/logger.go\<close>: the file fields of \<open>procLog\<close>,
  \<open>SetLogFile\<close>, the file part of \<open>append\<close>, \<open>rotate\<close>) over a small model of the file system: names
  that lead to inodes, inodes with their bytes. An open file is its inode, so a renamed file keeps
  its bytes. Whether \<open>MkdirAll\<close> and \<open>OpenFile\<close> fail is decided by arguments. The log files on
  disk are shown to be what an abstract log of a current text and at most \<open>k\<close> backups holds.
\<close>

section \<open>Files\<close>

record fs =
  fs_names :: "string \<Rightarrow> nat option"
  fs_data :: "nat \<Rightarrow> string"
  fs_next :: nat

definition file_text :: "fs \<Rightarrow> string \<Rightarrow> string option" where
  "file_text f name = map_option (fs_data f) (fs_names f name)"

definition fs_create :: "string \<Rightarrow> fs \<Rightarrow> nat \<times> fs" where
  "fs_create name f =
     (fs_next f, f\<lparr>fs_names := (fs_names f)(name \<mapsto> fs_next f), fs_data := (fs_data f)(fs_next f := []),
                   fs_next := Suc (fs_next f)\<rparr>)"

definition open_append :: "string \<Rightarrow> fs \<Rightarrow> nat \<times> fs" where
  "open_append name f = (case fs_names f name of Some i \<Rightarrow> (i, f) | None \<Rightarrow> fs_create name f)"

definition open_trunc :: "string \<Rightarrow> fs \<Rightarrow> nat \<times> fs" where
  "open_trunc name f =
     (case fs_names f name of Some i \<Rightarrow> (i, f\<lparr>fs_data := (fs_data f)(i := [])\<rparr>) | None \<Rightarrow> fs_create name f)"

text \<open>The program ignores the errors of \<open>Rename\<close> and \<open>Remove\<close>: a missing source changes nothing.\<close>

definition fs_rename :: "string \<Rightarrow> string \<Rightarrow> fs \<Rightarrow> fs" where
  "fs_rename a b f =
     (case fs_names f a of None \<Rightarrow> f
      | Some i \<Rightarrow> f\<lparr>fs_names := (fs_names f)(a := None, b := Some i)\<rparr>)"

definition fs_remove :: "string \<Rightarrow> fs \<Rightarrow> fs" where
  "fs_remove a f = f\<lparr>fs_names := (fs_names f)(a := None)\<rparr>"

definition fs_write :: "nat \<Rightarrow> string \<Rightarrow> fs \<Rightarrow> fs" where
  "fs_write i t f = f\<lparr>fs_data := (fs_data f)(i := fs_data f i @ t)\<rparr>"

section \<open>The log of a process\<close>

record procLog =
  pl_name :: string
  pl_buf :: ringBuffer
  pl_file :: "nat option"
  pl_logPath :: string
  pl_logSize :: int
  pl_logMaxBytes :: int
  pl_logMaxBackup :: int
  pl_subs :: "nat list"

record os =
  os_mkdir :: "string \<Rightarrow> string option"
  os_open :: "string \<Rightarrow> string option"

datatype log_error = MkdirLogDir string | OpenLogFile string string

definition SetLogFile :: "os \<Rightarrow> string \<Rightarrow> int \<Rightarrow> int \<Rightarrow> fs \<times> procLog \<Rightarrow> (fs \<times> procLog) \<times> log_error option" where
  "SetLogFile os path maxSizeMB maxBackups st =
     (case st of (f, pl0) \<Rightarrow>
      let pl = pl0\<lparr>pl_file := None\<rparr> in
      if path = [] then
        ((f, pl\<lparr>pl_logPath := [], pl_logSize := 0, pl_logMaxBytes := 0, pl_logMaxBackup := 0\<rparr>), None)
      else (case (if path_dir path \<noteq> [] then os_mkdir os (path_dir path) else None) of
          Some e \<Rightarrow> ((f, pl), Some (MkdirLogDir e))
        | None \<Rightarrow>
          (case os_open os path of
             Some e \<Rightarrow> ((f, pl), Some (OpenLogFile path e))
           | None \<Rightarrow>
               (let (i, f') = open_append path f in
                ((f', pl\<lparr>pl_file := Some i, pl_logSize := int (length (fs_data f' i)), pl_logPath := path,
                   pl_logMaxBytes := (if maxSizeMB > 0 then int64 (maxSizeMB * 1024 * 1024) else pl_logMaxBytes pl),
                   pl_logMaxBackup := maxBackups\<rparr>), None)))))"

definition backup_name :: "string \<Rightarrow> nat \<Rightarrow> string" where
  "backup_name path i = path @ CHR ''.'' # nat_dec i"

text \<open>The loop of \<open>rotate\<close>, from \<open>i\<close> down to 1.\<close>

fun shift_backups :: "string \<Rightarrow> nat \<Rightarrow> fs \<Rightarrow> fs" where
  "shift_backups path 0 f = f"
| "shift_backups path (Suc i) f =
     shift_backups path i (fs_rename (backup_name path (Suc i)) (backup_name path (Suc i + 1)) f)"

definition rotate :: "os \<Rightarrow> fs \<times> procLog \<Rightarrow> fs \<times> procLog" where
  "rotate os st =
     (case st of (f, pl) \<Rightarrow>
      if pl_file pl = None \<or> pl_logPath pl = [] then (f, pl)
      else
        (let path = pl_logPath pl; pl1 = pl\<lparr>pl_file := None\<rparr>;
             f1 = (if pl_logMaxBackup pl > 0
                   then fs_rename path (path @ ''.1'') (shift_backups path (nat (pl_logMaxBackup pl - 1)) f)
                   else fs_remove path f)
         in case os_open os path of
              Some e \<Rightarrow> (f1, pl1)
            | None \<Rightarrow> (let (i, f2) = open_trunc path f1 in (f2, pl1\<lparr>pl_file := Some i, pl_logSize := 0\<rparr>))))"

text \<open>The section of \<open>append\<close> under \<open>fileMu\<close>; \<open>stamp\<close> is the formatted time.\<close>

definition log_line :: "string \<Rightarrow> string \<Rightarrow> string" where
  "log_line stamp line = stamp @ '' '' @ line @ [CHR 0x0A]"

definition append_file :: "os \<Rightarrow> string \<Rightarrow> string \<Rightarrow> fs \<times> procLog \<Rightarrow> fs \<times> procLog" where
  "append_file os stamp line st =
     (case st of (f, pl) \<Rightarrow>
      (case pl_file pl of
         None \<Rightarrow> (f, pl)
       | Some i \<Rightarrow>
          (let t = log_line stamp line; f1 = fs_write i t f in
           if length t > 0 \<and> pl_logMaxBytes pl > 0 then
             (let pl1 = pl\<lparr>pl_logSize := pl_logSize pl + int (length t)\<rparr> in
              if pl_logSize pl1 \<ge> pl_logMaxBytes pl1 then rotate os (f1, pl1) else (f1, pl1))
           else (f1, pl))))"

section \<open>The abstract log\<close>

text \<open>The current text and the backups, newest first.\<close>

type_synonym alog = "string \<times> string list"

definition alog_append :: "int \<Rightarrow> nat \<Rightarrow> string \<Rightarrow> alog \<Rightarrow> alog" where
  "alog_append mx k t a =
     (case a of (cur, bs) \<Rightarrow>
      if int (length (cur @ t)) \<ge> mx then ([], take k ((cur @ t) # bs)) else (cur @ t, bs))"

definition alog_files :: "alog \<Rightarrow> string list" where
  "alog_files a = fst a # snd a"

definition alog_text :: "alog \<Rightarrow> string" where
  "alog_text a = concat (rev (alog_files a))"

lemma alog_append_suffix:
  assumes "suffix (alog_text a) w"
  shows "suffix (alog_text (alog_append mx k t a)) (w @ t)"
proof -
  obtain cur bs where a: "a = (cur, bs)" by (cases a)
  obtain p where p: "w = p @ alog_text a" using assms by (auto simp: suffix_def)
  have full: "w @ t = p @ concat (rev bs) @ cur @ t" by (simp add: p a alog_text_def alog_files_def)
  show ?thesis
  proof (cases "int (length (cur @ t)) \<ge> mx")
    case True
    have "concat (rev ((cur @ t) # bs)) = concat (rev (drop k ((cur @ t) # bs))) @ concat (rev (take k ((cur @ t) # bs)))"
      by (metis append_take_drop_id concat_append rev_append)
    then have "w @ t = (p @ concat (rev (drop k ((cur @ t) # bs)))) @ concat (rev (take k ((cur @ t) # bs)))"
      using full by simp
    then show ?thesis using True unfolding a alog_append_def alog_text_def alog_files_def
      by (simp del: append_assoc) (metis suffixI)
  next
    case False
    then show ?thesis using full by (auto simp: a alog_append_def alog_text_def alog_files_def suffix_def)
  qed
qed

lemma alog_append_bounds:
  assumes "0 < mx" and "int (length (fst a)) < mx" and "length (snd a) \<le> k"
    and "\<forall>b \<in> set (snd a). int (length b) < mx + m" and "int (length t) \<le> m"
  shows "int (length (fst (alog_append mx k t a))) < mx \<and> length (snd (alog_append mx k t a)) \<le> k
    \<and> (\<forall>b \<in> set (snd (alog_append mx k t a)). int (length b) < mx + m)"
proof -
  obtain cur bs where a: "a = (cur, bs)" by (cases a)
  have "int (length (cur @ t)) < mx + m" using assms(2,5) by (simp add: a)
  then have "\<forall>b \<in> set (take k ((cur @ t) # bs)). int (length b) < mx + m"
    using assms(4) set_take_subset [of k "(cur @ t) # bs"] by (auto simp: a)
  then show ?thesis using assms by (auto simp: a alog_append_def)
qed

section \<open>The files are the abstract log\<close>

definition log_name :: "string \<Rightarrow> nat \<Rightarrow> string" where
  "log_name path i = (if i = 0 then path else backup_name path i)"

lemma log_name_inject [simp]: "log_name path i = log_name path j \<longleftrightarrow> i = j"
  by (auto simp: log_name_def backup_name_def dest: nat_dec_inj)

lemma backup_1: "path @ ''.1'' = log_name path 1"
  by (simp add: log_name_def backup_name_def nat_dec.simps digit_char_def char_of_def bit_0)

definition fs_ok :: "fs \<Rightarrow> bool" where
  "fs_ok f \<longleftrightarrow> (\<forall>a i. fs_names f a = Some i \<longrightarrow> i < fs_next f \<and> (\<forall>b. fs_names f b = Some i \<longrightarrow> b = a))"

definition holds :: "fs \<Rightarrow> string \<Rightarrow> nat \<Rightarrow> string list \<Rightarrow> bool" where
  "holds f path k ts \<longleftrightarrow> length ts \<le> Suc k
     \<and> (\<forall>i \<le> k. file_text f (log_name path i) = (if i < length ts then Some (ts ! i) else None))"

lemma file_text_rename:
  assumes "fs_ok f" and "a \<noteq> b"
  shows "file_text (fs_rename a b f) n =
    (if fs_names f a = None then file_text f n
     else if n = b then file_text f a else if n = a then None else file_text f n)"
  by (auto simp: fs_rename_def file_text_def split: option.splits)

lemma fs_ok_rename: "fs_ok f \<Longrightarrow> a \<noteq> b \<Longrightarrow> fs_ok (fs_rename a b f)"
  unfolding fs_ok_def fs_rename_def by (auto split: option.splits if_splits)

lemma names_text: "fs_names f a = None \<longleftrightarrow> file_text f a = None"
  by (simp add: file_text_def)

lemma shift_backups_text:
  assumes "fs_ok f" and "\<And>j. 1 \<le> j \<Longrightarrow> j \<le> i \<Longrightarrow> file_text f (log_name path j) = None \<Longrightarrow> file_text f (log_name path (Suc j)) = None"
  shows "fs_ok (shift_backups path i f) \<and> (\<forall>j. file_text (shift_backups path i f) (log_name path j) =
    (if 2 \<le> j \<and> j \<le> Suc i then file_text f (log_name path (j - 1))
     else if j = 1 \<and> 1 \<le> i then None else file_text f (log_name path j)))"
  using assms
proof (induction i arbitrary: f)
  case 0
  then show ?case by auto
next
  case (Suc i)
  let ?a = "log_name path (Suc i)" and ?b = "log_name path (Suc (Suc i))"
  define f1 where "f1 = fs_rename ?a ?b f"
  have ab: "?a \<noteq> ?b" by simp
  have ok: "fs_ok f1" unfolding f1_def by (rule fs_ok_rename [OF Suc.prems(1) ab])
  have T1: "file_text f1 (log_name path j) =
      (if j = Suc (Suc i) then file_text f ?a else if j = Suc i then None else file_text f (log_name path j))" for j
    using file_text_rename [OF Suc.prems(1) ab, of "log_name path j"] Suc.prems(2) [of "Suc i"]
    unfolding f1_def names_text by (cases "file_text f ?a") auto
  have step: "shift_backups path (Suc i) f = shift_backups path i f1"
    by (simp add: f1_def log_name_def)
  have "fs_ok (shift_backups path i f1) \<and> (\<forall>j. file_text (shift_backups path i f1) (log_name path j) =
    (if 2 \<le> j \<and> j \<le> Suc i then file_text f1 (log_name path (j - 1))
     else if j = 1 \<and> 1 \<le> i then None else file_text f1 (log_name path j)))"
  proof (rule Suc.IH [OF ok])
    fix j assume "1 \<le> j" "j \<le> i" "file_text f1 (log_name path j) = None"
    then show "file_text f1 (log_name path (Suc j)) = None" using Suc.prems(2) [of j] by (auto simp: T1)
  qed
  then show ?case unfolding step by (auto simp: T1)
qed

lemma open_trunc_new:
  assumes "fs_names f a = None" and "fs_ok f"
  shows "open_trunc a f = (fs_next f, snd (fs_create a f)) \<and> fs_ok (snd (fs_create a f))
    \<and> fs_names (snd (fs_create a f)) a = Some (fs_next f)
    \<and> (\<forall>n. file_text (snd (fs_create a f)) n = (if n = a then Some [] else file_text f n))"
proof -
  have "i < fs_next f" if "fs_names f n = Some i" for n i using assms(2) that by (auto simp: fs_ok_def)
  then have ne: "fs_names f n \<noteq> Some (fs_next f)" for n by blast
  then have "file_text (snd (fs_create a f)) n = (if n = a then Some [] else file_text f n)" for n
    by (cases "fs_names f n") (auto simp: fs_create_def file_text_def)
  moreover have "fs_ok (snd (fs_create a f))"
    using assms(2) ne by (auto simp: fs_ok_def fs_create_def less_Suc_eq)
  ultimately show ?thesis using assms(1) by (simp add: open_trunc_def fs_create_def)
qed

text \<open>The files of a log before a rotation and after it, when the new file can be opened.\<close>

definition rotated :: "string \<Rightarrow> nat \<Rightarrow> fs \<Rightarrow> fs" where
  "rotated path k f =
     (if k > 0 then fs_rename path (log_name path 1) (shift_backups path (k - 1) f) else fs_remove path f)"

lemma rotated_holds:
  assumes "fs_ok f" and "holds f path k ts" and "ts \<noteq> []"
  shows "fs_ok (rotated path k f) \<and> fs_names (rotated path k f) path = None
    \<and> (\<forall>i \<le> k. 0 < i \<longrightarrow> file_text (rotated path k f) (log_name path i) = (if i \<le> length ts then Some (ts ! (i - 1)) else None))"
proof (cases "k = 0")
  case True
  then have "rotated path k f = fs_remove path f" by (simp add: rotated_def)
  then show ?thesis using assms(1) True by (auto simp: fs_remove_def fs_ok_def)
next
  case False
  define g where "g = shift_backups path (k - 1) f"
  have T: "file_text f (log_name path i) = (if i < length ts then Some (ts ! i) else None)" if "i \<le> k" for i
    using assms(2) that by (simp add: holds_def)
  have "fs_ok g \<and> (\<forall>j. file_text g (log_name path j) =
    (if 2 \<le> j \<and> j \<le> Suc (k - 1) then file_text f (log_name path (j - 1))
     else if j = 1 \<and> 1 \<le> k - 1 then None else file_text f (log_name path j)))"
    unfolding g_def by (rule shift_backups_text [OF assms(1)]) (use T in \<open>auto split: if_splits\<close>)
  then have ok: "fs_ok g" and G: "file_text g (log_name path j) =
    (if 2 \<le> j \<and> j \<le> k then file_text f (log_name path (j - 1))
     else if j = 1 \<and> 2 \<le> k then None else file_text f (log_name path j))" for j
    using False by (auto simp: Suc_le_eq)
  have ab: "log_name path 0 \<noteq> log_name path 1" by simp
  have r: "rotated path k f = fs_rename (log_name path 0) (log_name path 1) g"
    using False by (simp add: rotated_def g_def log_name_def)
  have "file_text g (log_name path 0) = Some (ts ! 0)" using G [of 0] T [of 0] assms(3) by simp
  then have some: "fs_names g (log_name path 0) \<noteq> None" unfolding names_text by simp
  have R: "file_text (rotated path k f) n = (if n = log_name path 1 then file_text g (log_name path 0)
     else if n = log_name path 0 then None else file_text g n)" for n
    unfolding r using file_text_rename [OF ok ab, of n] some by simp
  have "fs_names (rotated path k f) path = None"
    unfolding names_text using R [of path] ab by (simp add: log_name_def)
  moreover have "file_text (rotated path k f) (log_name path i) = (if i \<le> length ts then Some (ts ! (i - 1)) else None)"
    if "i \<le> k" "0 < i" for i
  proof (cases "i = 1")
    case True
    then show ?thesis using R [of "log_name path 1"] G [of 0] T [of 0] assms(3) by (cases ts) auto
  next
    case False
    then have "file_text (rotated path k f) (log_name path i) = file_text f (log_name path (i - 1))"
      using R [of "log_name path i"] G [of i] that by simp
    also have "\<dots> = (if i \<le> length ts then Some (ts ! (i - 1)) else None)"
      using T [of "i - 1"] that by auto
    finally show ?thesis .
  qed
  ultimately show ?thesis using fs_ok_rename [OF ok ab] r by simp
qed

text \<open>The connection between a process's log file and the abstract log.\<close>

definition log_conn :: "string \<Rightarrow> nat \<Rightarrow> int \<Rightarrow> fs \<times> procLog \<Rightarrow> alog \<Rightarrow> bool" where
  "log_conn path k mx st a \<longleftrightarrow> (case st of (f, pl) \<Rightarrow>
     fs_ok f \<and> path \<noteq> [] \<and> pl_logPath pl = path \<and> pl_file pl \<noteq> None \<and> pl_file pl = fs_names f path
     \<and> pl_logSize pl = int (length (fst a)) \<and> pl_logMaxBytes pl = mx \<and> 0 < mx \<and> nat (pl_logMaxBackup pl) = k
     \<and> holds f path k (alog_files a))"

lemma rotate_conn:
  assumes "log_conn path k mx (f, pl) (cur, bs)" and "os_open os path = None"
  shows "log_conn path k mx (rotate os (f, pl)) ([], take k (cur # bs))"
proof -
  have c: "fs_ok f" "path \<noteq> []" "pl_logPath pl = path" "pl_file pl \<noteq> None" "pl_logMaxBytes pl = mx" "0 < mx"
    "nat (pl_logMaxBackup pl) = k" "holds f path k (cur # bs)"
    using assms(1) by (auto simp: log_conn_def alog_files_def)
  let ?g = "rotated path k f"
  have g: "fs_ok ?g" "fs_names ?g path = None"
    "\<And>i. i \<le> k \<Longrightarrow> 0 < i \<Longrightarrow> file_text ?g (log_name path i) = (if i \<le> length (cur # bs) then Some ((cur # bs) ! (i - 1)) else None)"
    using rotated_holds [OF c(1,8)] by auto
  have g_eq: "?g = (if pl_logMaxBackup pl > 0
      then fs_rename path (path @ ''.1'') (shift_backups path (nat (pl_logMaxBackup pl - 1)) f) else fs_remove path f)"
    using c(7) backup_1 [of path] by (auto simp: rotated_def nat_diff_distrib)
  have "rotate os (f, pl) = (let (i, f2) = open_trunc path ?g in
      (f2, pl\<lparr>pl_file := None, pl_file := Some i, pl_logSize := 0\<rparr>))"
    using c(2,3) c(4) assms(2) unfolding rotate_def by (simp add: Let_def g_eq case_prod_beta del: not_None_eq)
  also have "\<dots> = (snd (fs_create path ?g), pl\<lparr>pl_file := Some (fs_next ?g), pl_logSize := 0\<rparr>)"
    using open_trunc_new [OF g(2,1)] by simp
  finally have rot: "rotate os (f, pl) = (snd (fs_create path ?g), pl\<lparr>pl_file := Some (fs_next ?g), pl_logSize := 0\<rparr>)" .
  have new: "fs_ok (snd (fs_create path ?g))" "fs_names (snd (fs_create path ?g)) path = Some (fs_next ?g)"
    "\<And>n. file_text (snd (fs_create path ?g)) n = (if n = path then Some [] else file_text ?g n)"
    using open_trunc_new [OF g(2,1)] by blast+
  have "holds (snd (fs_create path ?g)) path k (alog_files ([], take k (cur # bs)))"
    unfolding holds_def
  proof (intro conjI allI impI)
    show "length (alog_files ([], take k (cur # bs))) \<le> Suc k" by (simp add: alog_files_def)
    fix i assume i: "i \<le> k"
    show "file_text (snd (fs_create path ?g)) (log_name path i) =
      (if i < length (alog_files ([], take k (cur # bs))) then Some (alog_files ([], take k (cur # bs)) ! i) else None)"
    proof (cases i)
      case 0
      then show ?thesis using new(3) [of path] by (simp add: log_name_def alog_files_def)
    next
      case (Suc j)
      then have "log_name path i \<noteq> path" using log_name_inject [of path i 0] by (simp add: log_name_def)
      then have "file_text (snd (fs_create path ?g)) (log_name path i) = file_text ?g (log_name path i)"
        using new(3) by simp
      also have "\<dots> = (if i \<le> length (cur # bs) then Some ((cur # bs) ! j) else None)"
        using g(3) [OF i] Suc by simp
      finally show ?thesis using Suc i by (auto simp: alog_files_def)
    qed
  qed
  then show ?thesis using c new unfolding rot log_conn_def by simp
qed

lemma append_file_conn:
  assumes "log_conn path k mx st a" and "os_open os path = None"
  shows "log_conn path k mx (append_file os stamp line st) (alog_append mx k (log_line stamp line) a)"
proof -
  obtain f pl where st: "st = (f, pl)" by (cases st)
  obtain cur bs where a: "a = (cur, bs)" by (cases a)
  let ?t = "log_line stamp line"
  have t: "0 < length ?t" by (simp add: log_line_def)
  have c: "fs_ok f" "path \<noteq> []" "pl_logPath pl = path" "pl_file pl = fs_names f path" "pl_logSize pl = int (length cur)"
    "pl_logMaxBytes pl = mx" "0 < mx" "nat (pl_logMaxBackup pl) = k" "holds f path k (cur # bs)" "pl_file pl \<noteq> None"
    using assms(1) by (auto simp: log_conn_def alog_files_def st a)
  then obtain i where i: "pl_file pl = Some i" "fs_names f path = Some i" by auto
  define f1 where "f1 = fs_write i ?t f"
  define pl1 where "pl1 = pl\<lparr>pl_logSize := pl_logSize pl + int (length ?t)\<rparr>"
  have names: "fs_names f1 = fs_names f" "fs_next f1 = fs_next f" by (simp_all add: f1_def fs_write_def)
  have curr: "fs_data f i = cur" using c(9) i(2) by (auto simp: holds_def file_text_def log_name_def dest!: spec [of _ 0])
  have ftext: "file_text f1 n = (if n = path then Some (cur @ ?t) else file_text f n)" for n
    using c(1) i(2) curr by (cases "fs_names f n") (auto simp: f1_def fs_write_def file_text_def fs_ok_def)
  have "file_text f1 (log_name path j) = (if j < length ((cur @ ?t) # bs) then Some (((cur @ ?t) # bs) ! j) else None)"
    if "j \<le> k" for j
    using c(9) that log_name_inject [of path j 0]
    by (cases j) (auto simp: ftext holds_def log_name_def)
  then have "holds f1 path k ((cur @ ?t) # bs)" using c(9) by (simp add: holds_def)
  then have conn: "log_conn path k mx (f1, pl1) (cur @ ?t, bs)"
    using c i by (simp add: log_conn_def alog_files_def names pl1_def fs_ok_def)
  have step: "append_file os stamp line st = (if pl_logSize pl1 \<ge> mx then rotate os (f1, pl1) else (f1, pl1))"
    using i(1) t c(6,7) by (simp add: append_file_def st f1_def pl1_def Let_def)
  have size: "pl_logSize pl1 = int (length (cur @ ?t))" by (simp add: pl1_def c(5))
  show ?thesis
  proof (cases "pl_logSize pl1 \<ge> mx")
    case True
    then show ?thesis using rotate_conn [OF conn assms(2)] size by (simp add: step a alog_append_def)
  next
    case False
    then show ?thesis using conn size by (simp add: step a alog_append_def)
  qed
qed

section \<open>Properties\<close>

fun append_all :: "os \<Rightarrow> (string \<times> string) list \<Rightarrow> fs \<times> procLog \<Rightarrow> fs \<times> procLog" where
  "append_all os [] st = st"
| "append_all os ((stamp, line) # ls) st = append_all os ls (append_file os stamp line st)"

definition written :: "(string \<times> string) list \<Rightarrow> string" where
  "written ls = concat (map (\<lambda>(stamp, line). log_line stamp line) ls)"

lemma append_all_conn:
  assumes "os_open os path = None" and "\<And>s l. (s, l) \<in> set ls \<Longrightarrow> int (length (log_line s l)) \<le> m"
  shows "log_conn path k mx st a \<Longrightarrow> int (length (fst a)) < mx \<Longrightarrow> length (snd a) \<le> k \<Longrightarrow>
     \<forall>b \<in> set (snd a). int (length b) < mx + m \<Longrightarrow> suffix (alog_text a) w \<Longrightarrow>
     \<exists>a'. log_conn path k mx (append_all os ls st) a' \<and> int (length (fst a')) < mx
       \<and> (\<forall>b \<in> set (snd a'). int (length b) < mx + m) \<and> suffix (alog_text a') (w @ written ls)"
  using assms(2)
proof (induction ls arbitrary: st a w)
  case Nil
  then show ?case by (intro exI [of _ a]) (simp add: written_def)
next
  case (Cons p ls)
  obtain s l where p: "p = (s, l)" by (cases p)
  let ?a = "alog_append mx k (log_line s l) a"
  have "int (length (log_line s l)) \<le> m" using Cons.prems(6) p by simp
  moreover have "0 < mx" using Cons.prems(1) by (auto simp: log_conn_def)
  ultimately have b: "int (length (fst ?a)) < mx \<and> length (snd ?a) \<le> k \<and> (\<forall>b \<in> set (snd ?a). int (length b) < mx + m)"
    using Cons.prems(2-4) by (intro alog_append_bounds)
  have "\<exists>a'. log_conn path k mx (append_all os ls (append_file os s l st)) a' \<and> int (length (fst a')) < mx
       \<and> (\<forall>b \<in> set (snd a'). int (length b) < mx + m) \<and> suffix (alog_text a') ((w @ log_line s l) @ written ls)"
    using Cons.IH [OF append_file_conn [OF Cons.prems(1) assms(1), of s l] _ _ _ alog_append_suffix [OF Cons.prems(5)]] b Cons.prems(6)
    by simp
  then show ?case by (simp add: p written_def)
qed


definition no_files :: fs where
  "no_files = \<lparr>fs_names = (\<lambda>_. None), fs_data = (\<lambda>_. []), fs_next = 0\<rparr>"

definition good_os :: os where
  "good_os = \<lparr>os_mkdir = (\<lambda>_. None), os_open = (\<lambda>_. None)\<rparr>"

definition new_log :: procLog where
  "new_log = \<lparr>pl_name = ''a'', pl_buf = \<lparr>rb_data = [], rb_head = 0, rb_size = 0, rb_cap = 0\<rparr>, pl_file = None,
     pl_logPath = [], pl_logSize = 0, pl_logMaxBytes = 0, pl_logMaxBackup = 0, pl_subs = []\<rparr>"


text \<open>Setting the log file again with a size of 0, documented to disable rotation, keeps the
  old limit.\<close>

theorem size_zero_keeps_old_limit:
  "pl_logMaxBytes (snd (fst (SetLogFile good_os ''/l/a'' 0 0 (fst (SetLogFile good_os ''/l/a'' 5 2 (no_files, new_log)))))) = 5242880"
  by (simp add: SetLogFile_def good_os_def no_files_def new_log_def open_append_def fs_create_def Let_def)

end
