(* ===== verification/Logger.thy ===== *)
theory Logger
  imports Log_File
begin

text \<open>
  The log registry (\<open>internal/logger/logger.go\<close>: \<open>Logger\<close>, \<open>ensure\<close>, \<open>Write\<close>, \<open>append\<close>, \<open>scan\<close>,
  \<open>Attach\<close>, \<open>Tail\<close>, \<open>TailFiltered\<close>, \<open>Names\<close>, \<open>Subscribe\<close>, \<open>Unsubscribe\<close> and their global
  variants, \<open>Detach\<close>). A \<open>procLog\<close> lives at an address, because readers keep their pointer to it
  after \<open>Detach\<close>; a channel is its buffer and its capacity, and a send that finds it full is
  dropped. Each operation is one step: the locks of different log lines are not interleaved.
\<close>

section \<open>Model\<close>

record LogEvent =
  ev_Name :: string
  ev_Line :: string

record chan =
  ch_buf :: "LogEvent list"
  ch_cap :: nat

record Logger =
  lg_procs :: "(string \<times> nat) list"
  lg_heap :: "nat \<Rightarrow> procLog"
  lg_next :: nat
  lg_capacity :: int
  lg_allSubs :: "nat list"
  lg_chans :: "nat \<Rightarrow> chan"
  lg_nextChan :: nat
  lg_fs :: fs

definition DefaultCapacity :: int where
  "DefaultCapacity = 1000"

definition logger_New :: "fs \<Rightarrow> int \<Rightarrow> Logger" where
  "logger_New f capacity =
     \<lparr>lg_procs = [], lg_heap = (\<lambda>_. new_log), lg_next = 0,
      lg_capacity = (if capacity \<le> 0 then DefaultCapacity else capacity),
      lg_allSubs = [], lg_chans = (\<lambda>_. \<lparr>ch_buf = [], ch_cap = 0\<rparr>), lg_nextChan = 0, lg_fs = f\<rparr>"

definition find_log :: "Logger \<Rightarrow> string \<Rightarrow> nat option" where
  "find_log lg name = map_of (lg_procs lg) name"

definition fresh_log :: "string \<Rightarrow> ringBuffer \<Rightarrow> procLog" where
  "fresh_log name rb = \<lparr>pl_name = name, pl_buf = rb, pl_file = None, pl_logPath = [], pl_logSize = 0,
     pl_logMaxBytes = 0, pl_logMaxBackup = 0, pl_subs = []\<rparr>"

definition set_log :: "nat \<Rightarrow> procLog \<Rightarrow> Logger \<Rightarrow> Logger" where
  "set_log a pl lg = lg\<lparr>lg_heap := (lg_heap lg)(a := pl)\<rparr>"

definition ensure :: "string \<Rightarrow> Logger \<Rightarrow> (Logger \<times> nat) option" where
  "ensure name lg =
     (case find_log lg name of
        Some a \<Rightarrow> Some (lg, a)
      | None \<Rightarrow> do {
          rb \<leftarrow> newRingBuffer (lg_capacity lg);
          Some (lg\<lparr>lg_heap := (lg_heap lg)(lg_next lg := fresh_log name rb),
                   lg_procs := (name, lg_next lg) # lg_procs lg, lg_next := Suc (lg_next lg)\<rparr>, lg_next lg)
        })"

definition logger_SetLogFile ::
  "os \<Rightarrow> string \<Rightarrow> string \<Rightarrow> int \<Rightarrow> int \<Rightarrow> Logger \<Rightarrow> (Logger \<times> log_error option) option"
where
  "logger_SetLogFile os name path mb backups lg = do {
     (lg1, a) \<leftarrow> ensure name lg;
     Some (case SetLogFile os path mb backups (lg_fs lg1, lg_heap lg1 a) of
             ((f, pl), err) \<Rightarrow> (set_log a pl (lg1\<lparr>lg_fs := f\<rparr>), err))
   }"

text \<open>The non-blocking send, and the fan-out over a list of subscribers.\<close>

definition try_send :: "LogEvent \<Rightarrow> chan \<Rightarrow> chan" where
  "try_send ev c = (if length (ch_buf c) < ch_cap c then c\<lparr>ch_buf := ch_buf c @ [ev]\<rparr> else c)"

fun fan_out :: "LogEvent \<Rightarrow> nat list \<Rightarrow> (nat \<Rightarrow> chan) \<Rightarrow> nat \<Rightarrow> chan" where
  "fan_out ev [] cs = cs"
| "fan_out ev (i # is) cs = fan_out ev is (cs(i := try_send ev (cs i)))"

definition pl_append :: "os \<Rightarrow> string \<times> int \<Rightarrow> nat \<Rightarrow> string \<Rightarrow> Logger \<Rightarrow> Logger option" where
  "pl_append os now a line lg = do {
     buf \<leftarrow> rb_add (pl_buf (lg_heap lg a)) \<lparr>le_line = line, le_ts = snd now\<rparr>;
     Some (case append_file os (fst now) line (lg_fs lg, (lg_heap lg a)\<lparr>pl_buf := buf\<rparr>) of
       (f, pl) \<Rightarrow>
         let ev = \<lparr>ev_Name = pl_name pl, ev_Line = line\<rparr> in
         set_log a pl (lg\<lparr>lg_fs := f, lg_chans := fan_out ev (lg_allSubs lg) (fan_out ev (pl_subs pl) (lg_chans lg))\<rparr>))
   }"

definition Write :: "os \<Rightarrow> string \<times> int \<Rightarrow> string \<Rightarrow> string \<Rightarrow> Logger \<Rightarrow> Logger option" where
  "Write os now name line lg = do { (lg1, a) \<leftarrow> ensure name lg; pl_append os now a line lg1 }"

definition Tail :: "Logger \<Rightarrow> string \<Rightarrow> int \<Rightarrow> string list option" where
  "Tail lg name n =
     (case find_log lg name of None \<Rightarrow> Some []
      | Some a \<Rightarrow> do { es \<leftarrow> rb_tail (pl_buf (lg_heap lg a)) n; Some (map le_line es) })"

definition TailFiltered :: "Logger \<Rightarrow> string \<Rightarrow> int \<Rightarrow> int \<Rightarrow> string \<Rightarrow> string list option" where
  "TailFiltered lg name n since pat =
     (case find_log lg name of None \<Rightarrow> Some []
      | Some a \<Rightarrow> rb_tailFiltered (pl_buf (lg_heap lg a)) n since pat)"

definition Names :: "Logger \<Rightarrow> string list" where
  "Names lg = map fst (lg_procs lg)"

definition new_chan :: "nat \<Rightarrow> Logger \<Rightarrow> Logger \<times> nat" where
  "new_chan cap lg =
     (lg\<lparr>lg_chans := (lg_chans lg)(lg_nextChan lg := \<lparr>ch_buf = [], ch_cap = cap\<rparr>), lg_nextChan := Suc (lg_nextChan lg)\<rparr>,
      lg_nextChan lg)"

definition Subscribe :: "string \<Rightarrow> Logger \<Rightarrow> (Logger \<times> nat) option" where
  "Subscribe name lg = do {
     (lg1, a) \<leftarrow> ensure name lg;
     Some (case new_chan 256 lg1 of (lg2, ch) \<Rightarrow>
             (set_log a ((lg_heap lg2 a)\<lparr>pl_subs := pl_subs (lg_heap lg2 a) @ [ch]\<rparr>) lg2, ch))
   }"

definition SubscribeAll :: "Logger \<Rightarrow> Logger \<times> nat" where
  "SubscribeAll lg =
     (case new_chan 512 lg of (lg1, ch) \<Rightarrow> (lg1\<lparr>lg_allSubs := lg_allSubs lg1 @ [ch]\<rparr>, ch))"

definition Unsubscribe :: "string \<Rightarrow> nat \<Rightarrow> Logger \<Rightarrow> Logger" where
  "Unsubscribe name ch lg =
     (case find_log lg name of None \<Rightarrow> lg
      | Some a \<Rightarrow> set_log a ((lg_heap lg a)\<lparr>pl_subs := remove1 ch (pl_subs (lg_heap lg a))\<rparr>) lg)"

definition UnsubscribeAll :: "nat \<Rightarrow> Logger \<Rightarrow> Logger" where
  "UnsubscribeAll ch lg = lg\<lparr>lg_allSubs := remove1 ch (lg_allSubs lg)\<rparr>"

definition Detach :: "string \<Rightarrow> Logger \<Rightarrow> Logger" where
  "Detach name lg =
     (case find_log lg name of None \<Rightarrow> lg
      | Some a \<Rightarrow> set_log a ((lg_heap lg a)\<lparr>pl_file := None\<rparr>)
                    (lg\<lparr>lg_procs := filter (\<lambda>(m, b). m \<noteq> name) (lg_procs lg)\<rparr>))"

text \<open>
  A reader: the scanner's limit is 1 MiB, and the goroutine returns when the scanner stops.
  \<open>capture\<close> is the lines it appends; \<open>scan_into\<close> appends them to the log it was given, with a
  clock reading for each.
\<close>

definition capture :: "string \<Rightarrow> string \<Rightarrow> string list" where
  "capture pre input = map (\<lambda>l. if pre \<noteq> [] then pre @ l else l) (fst (scan_lines 1048576 input))"

fun scan_into :: "os \<Rightarrow> (nat \<Rightarrow> string \<times> int) \<Rightarrow> nat \<Rightarrow> string list \<Rightarrow> Logger \<Rightarrow> Logger option" where
  "scan_into os clk a [] lg = Some lg"
| "scan_into os clk a (l # ls) lg = do { lg1 \<leftarrow> pl_append os (clk 0) a l lg; scan_into os (clk \<circ> Suc) a ls lg1 }"

text \<open>The two readers of \<open>Attach\<close> run side by side; the schedule says whose line comes next.\<close>

fun interleave :: "bool list \<Rightarrow> 'a list \<Rightarrow> 'a list \<Rightarrow> 'a list" where
  "interleave (True # bs) (x # xs) ys = x # interleave bs xs ys"
| "interleave (False # bs) xs (y # ys) = y # interleave bs xs ys"
| "interleave bs xs ys = xs @ ys"

definition Attach ::
  "os \<Rightarrow> (nat \<Rightarrow> string \<times> int) \<Rightarrow> bool list \<Rightarrow> string \<Rightarrow> string \<Rightarrow> string \<Rightarrow> Logger \<Rightarrow> Logger option"
where
  "Attach os clk sched name stdout stderr lg = do {
     (lg1, a) \<leftarrow> ensure name lg;
     scan_into os clk a (interleave sched (capture [] stdout) (capture ''[stderr] '' stderr)) lg1
   }"

section \<open>What a log registry promises\<close>

text \<open>
  The interface the remote commands rest on: a write appends a line to the log of one name, and
  the tail returns the last lines, of which at most \<open>cap\<close> are kept.
\<close>

locale line_log =
  fixes put :: "'k \<Rightarrow> string \<Rightarrow> string \<Rightarrow> 'l \<Rightarrow> 'l option"
    and get :: "'l \<Rightarrow> string \<Rightarrow> int \<Rightarrow> string list option"
    and lines :: "'l \<Rightarrow> string \<Rightarrow> string list"
    and cap :: "'l \<Rightarrow> nat"
    and ok :: "'l \<Rightarrow> bool"
  assumes put_ok: "ok l \<Longrightarrow> \<exists>l'. put k name line l = Some l' \<and> ok l' \<and> cap l' = cap l
      \<and> (\<forall>m. lines l' m = (if m = name then lastn (cap l) (lines l m @ [line]) else lines l m))"
    and get_ok: "ok l \<Longrightarrow> get l name n = Some (if n \<le> 0 then lines l name else lastn (nat n) (lines l name))"
    and lines_bounded: "ok l \<Longrightarrow> length (lines l name) \<le> cap l"
begin

lemma puts_lines:
  "ok l \<Longrightarrow> \<exists>l'. run_steps (\<lambda>(k, name, line). put k name line) ws l = Some l' \<and> ok l' \<and> cap l' = cap l
     \<and> (\<forall>m. lines l' m = lastn (cap l) (lines l m @ map (\<lambda>w. snd (snd w)) (filter (\<lambda>w. fst (snd w) = m) ws)))"
proof (induction ws arbitrary: l)
  case Nil
  then show ?case using lines_bounded by simp
next
  case (Cons w ws)
  obtain k name line where w: "w = (k, name, line)" by (metis prod.exhaust)
  obtain l1 where l1: "put k name line l = Some l1" "ok l1" "cap l1 = cap l"
      "\<And>m. lines l1 m = (if m = name then lastn (cap l) (lines l m @ [line]) else lines l m)"
    using put_ok [OF Cons.prems, of k name line] by auto
  obtain l2 where l2: "run_steps (\<lambda>(k, name, line). put k name line) ws l1 = Some l2" "ok l2" "cap l2 = cap l1"
      "\<And>m. lines l2 m = lastn (cap l1) (lines l1 m @ map (\<lambda>w. snd (snd w)) (filter (\<lambda>w. fst (snd w) = m) ws))"
    using Cons.IH [OF l1(2)] by blast
  have "lines l2 m = lastn (cap l) (lines l m @ map (\<lambda>w. snd (snd w)) (filter (\<lambda>w. fst (snd w) = m) (w # ws)))" for m
  proof (cases "m = name")
    case True
    have "lastn (cap l) (lastn (cap l) (lines l m @ [line]) @ xs) = lastn (cap l) ((lines l m @ [line]) @ xs)" for xs
      by (rule lastn_absorb)
    then show ?thesis using l1(3,4) l2(4) True by (simp add: w)
  qed (use l1(3,4) l2(4) in \<open>simp add: w\<close>)
  then show ?case using l1 l2 by (simp add: w)
qed

end

definition lg_ok :: "Logger \<Rightarrow> bool" where
  "lg_ok lg \<longleftrightarrow> 0 < lg_capacity lg
     \<and> (\<forall>n a. find_log lg n = Some a \<longrightarrow> a < lg_next lg \<and> pl_name (lg_heap lg a) = n
          \<and> rb_inv (pl_buf (lg_heap lg a)) \<and> rb_cap (pl_buf (lg_heap lg a)) = lg_capacity lg)"

definition lines_of :: "Logger \<Rightarrow> string \<Rightarrow> string list" where
  "lines_of lg name =
     (case find_log lg name of None \<Rightarrow> [] | Some a \<Rightarrow> map le_line (rb_entries (pl_buf (lg_heap lg a))))"

lemma rotate_frame: "rotate os (f, pl) = (f', pl') \<Longrightarrow>
    pl_buf pl' = pl_buf pl \<and> pl_name pl' = pl_name pl \<and> pl_subs pl' = pl_subs pl"
  by (auto simp: rotate_def Let_def split: if_splits option.splits prod.splits)

lemma append_file_frame: "append_file os stamp line (f, pl) = (f', pl') \<Longrightarrow>
    pl_buf pl' = pl_buf pl \<and> pl_name pl' = pl_name pl \<and> pl_subs pl' = pl_subs pl"
  by (auto simp: append_file_def Let_def split: if_splits option.splits dest!: rotate_frame)

lemma ensure_ok:
  assumes "lg_ok lg"
  shows "\<exists>lg1 a. ensure name lg = Some (lg1, a) \<and> lg_ok lg1 \<and> find_log lg1 name = Some a
    \<and> lg_capacity lg1 = lg_capacity lg \<and> lines_of lg1 = lines_of lg
    \<and> lg_chans lg1 = lg_chans lg \<and> lg_allSubs lg1 = lg_allSubs lg \<and> lg_nextChan lg1 = lg_nextChan lg
    \<and> (\<forall>m b. m \<noteq> name \<longrightarrow> find_log lg1 m = Some b \<longrightarrow> find_log lg m = Some b \<and> lg_heap lg1 b = lg_heap lg b)
    \<and> (case find_log lg name of Some b \<Rightarrow> lg1 = lg \<and> a = b | None \<Rightarrow> a = lg_next lg \<and> pl_subs (lg_heap lg1 a) = [])"
proof (cases "find_log lg name")
  case (Some a)
  then show ?thesis using assms by (simp add: ensure_def)
next
  case None
  obtain rb where rb: "newRingBuffer (lg_capacity lg) = Some rb" "rb_inv rb" "rb_entries rb = []" "rb_cap rb = lg_capacity lg"
    using newRingBuffer_ok assms by (metis lg_ok_def)
  define lg1 where "lg1 = lg\<lparr>lg_heap := (lg_heap lg)(lg_next lg := fresh_log name rb),
                   lg_procs := (name, lg_next lg) # lg_procs lg, lg_next := Suc (lg_next lg)\<rparr>"
  have e: "ensure name lg = Some (lg1, lg_next lg)" using None rb by (simp add: ensure_def lg1_def)
  have f: "find_log lg1 m = (if m = name then Some (lg_next lg) else find_log lg m)" for m
    by (simp add: find_log_def lg1_def)
  have h: "lg_heap lg1 b = (if b = lg_next lg then fresh_log name rb else lg_heap lg b)" for b
    by (simp add: lg1_def)
  have same: "lg_next lg1 = Suc (lg_next lg)" "lg_capacity lg1 = lg_capacity lg" "lg_chans lg1 = lg_chans lg"
    "lg_allSubs lg1 = lg_allSubs lg" "lg_nextChan lg1 = lg_nextChan lg"
    by (simp_all add: lg1_def)
  have fl: "pl_name (fresh_log name rb) = name" "pl_buf (fresh_log name rb) = rb" "pl_subs (fresh_log name rb) = []"
    by (simp_all add: fresh_log_def)
  have old: "find_log lg m = Some b \<Longrightarrow> b \<noteq> lg_next lg" for m b using assms by (auto simp: lg_ok_def)
  have "lg_ok lg1" unfolding lg_ok_def
  proof (intro conjI allI impI)
    fix n a assume "find_log lg1 n = Some a"
    then show "a < lg_next lg1" "pl_name (lg_heap lg1 a) = n" "rb_inv (pl_buf (lg_heap lg1 a))"
      "rb_cap (pl_buf (lg_heap lg1 a)) = lg_capacity lg1"
      using assms old [of n a] rb by (auto simp: f h fl same lg_ok_def less_Suc_eq split: if_splits)
  qed (use assms in \<open>simp add: same lg_ok_def\<close>)
  moreover have "lines_of lg1 m = lines_of lg m" for m
    using None rb old by (cases "m = name"; cases "find_log lg m") (auto simp: lines_of_def f h fl)
  then have "lines_of lg1 = lines_of lg" by (rule ext)
  ultimately show ?thesis using e f h fl same old None by auto
qed

lemma pl_append_ok:
  assumes "lg_ok lg" and "find_log lg name = Some a"
  shows "\<exists>lg'. pl_append os now a line lg = Some lg' \<and> lg_ok lg' \<and> lg_capacity lg' = lg_capacity lg
    \<and> (\<forall>m. lines_of lg' m = (if m = name then lastn (nat (lg_capacity lg)) (lines_of lg m @ [line]) else lines_of lg m))
    \<and> lg_chans lg' = fan_out \<lparr>ev_Name = name, ev_Line = line\<rparr> (lg_allSubs lg)
        (fan_out \<lparr>ev_Name = name, ev_Line = line\<rparr> (pl_subs (lg_heap lg a)) (lg_chans lg))
    \<and> lg_allSubs lg' = lg_allSubs lg \<and> lg_procs lg' = lg_procs lg \<and> lg_nextChan lg' = lg_nextChan lg
    \<and> (\<forall>b. pl_subs (lg_heap lg' b) = pl_subs (lg_heap lg b))"
proof -
  let ?pl = "lg_heap lg a"
  have pl: "rb_inv (pl_buf ?pl)" "rb_cap (pl_buf ?pl) = lg_capacity lg" "pl_name ?pl = name"
    using assms by (auto simp: lg_ok_def)
  obtain buf where buf: "rb_add (pl_buf ?pl) \<lparr>le_line = line, le_ts = snd now\<rparr> = Some buf" "rb_inv buf"
      "nat (rb_cap buf) = nat (rb_cap (pl_buf ?pl))"
      "rb_entries buf = lastn (nat (rb_cap (pl_buf ?pl))) (rb_entries (pl_buf ?pl) @ [\<lparr>le_line = line, le_ts = snd now\<rparr>])"
    using rb.add_ok [OF pl(1)] by blast
  have "0 < rb_cap buf" "0 < lg_capacity lg" using buf(2) pl(1,2) by (simp_all add: rb_inv_def)
  then have cap: "rb_cap buf = lg_capacity lg" using buf(3) pl(2) by simp
  obtain f' pl' where ap: "append_file os (fst now) line (lg_fs lg, ?pl\<lparr>pl_buf := buf\<rparr>) = (f', pl')" by fastforce
  have pl': "pl_buf pl' = buf" "pl_name pl' = name" "pl_subs pl' = pl_subs ?pl"
    using append_file_frame [OF ap] pl by simp_all
  let ?ev = "\<lparr>ev_Name = name, ev_Line = line\<rparr>"
  define lg' where "lg' = set_log a pl' (lg\<lparr>lg_fs := f', lg_chans := fan_out ?ev (lg_allSubs lg) (fan_out ?ev (pl_subs ?pl) (lg_chans lg))\<rparr>)"
  have e: "pl_append os now a line lg = Some lg'" using buf ap pl' by (simp add: pl_append_def Let_def lg'_def)
  have f: "find_log lg' m = find_log lg m" for m by (simp add: find_log_def set_log_def lg'_def)
  have h: "lg_heap lg' b = (if b = a then pl' else lg_heap lg b)" for b by (simp add: lg'_def set_log_def)
  have same: "lg_capacity lg' = lg_capacity lg" "lg_next lg' = lg_next lg" "lg_allSubs lg' = lg_allSubs lg" "lg_procs lg' = lg_procs lg"
    "lg_nextChan lg' = lg_nextChan lg"
    "lg_chans lg' = fan_out ?ev (lg_allSubs lg) (fan_out ?ev (pl_subs ?pl) (lg_chans lg))"
    by (simp_all add: lg'_def set_log_def)
  have other: "find_log lg m = Some a \<longleftrightarrow> m = name" for m using assms by (auto simp: lg_ok_def)
  have "lg_ok lg'" unfolding lg_ok_def
  proof (intro conjI allI impI)
    fix n b assume "find_log lg' n = Some b"
    then show "b < lg_next lg'" "pl_name (lg_heap lg' b) = n" "rb_inv (pl_buf (lg_heap lg' b))"
      "rb_cap (pl_buf (lg_heap lg' b)) = lg_capacity lg'"
      using assms(1) other [of n] pl' buf(2) cap by (auto simp: f h same lg_ok_def split: if_splits)
  qed (use assms in \<open>simp add: same lg_ok_def\<close>)
  moreover have "lines_of lg' m = (if m = name then lastn (nat (lg_capacity lg)) (lines_of lg m @ [line]) else lines_of lg m)" for m
    using other [of m] assms(2) pl' buf(4) pl(2)
    by (cases "find_log lg m") (auto simp: lines_of_def f h lastn_map)
  ultimately show ?thesis using e pl' same by (auto simp: h)
qed

lemma Write_ok:
  assumes "lg_ok lg"
  shows "\<exists>lg'. Write os now name line lg = Some lg' \<and> lg_ok lg' \<and> lg_capacity lg' = lg_capacity lg
    \<and> (\<forall>m. lines_of lg' m = (if m = name then lastn (nat (lg_capacity lg)) (lines_of lg m @ [line]) else lines_of lg m))"
proof -
  obtain lg1 a where e: "ensure name lg = Some (lg1, a)" "lg_ok lg1" "find_log lg1 name = Some a"
      "lg_capacity lg1 = lg_capacity lg" "lines_of lg1 = lines_of lg"
    using ensure_ok [OF assms, of name] by blast
  then show ?thesis using pl_append_ok [OF e(2,3), of os now line] by (auto simp: Write_def)
qed

interpretation logs: line_log "Write os" Tail lines_of "\<lambda>lg. nat (lg_capacity lg)" lg_ok
proof unfold_locales
  fix lg k name line assume "lg_ok lg"
  then show "\<exists>l'. Write os k name line lg = Some l' \<and> lg_ok l' \<and> nat (lg_capacity l') = nat (lg_capacity lg)
      \<and> (\<forall>m. lines_of l' m = (if m = name then lastn (nat (lg_capacity lg)) (lines_of lg m @ [line]) else lines_of lg m))"
    using Write_ok by metis
next
  fix lg name n assume "lg_ok lg"
  then show "Tail lg name n = Some (if n \<le> 0 then lines_of lg name else lastn (nat n) (lines_of lg name))"
    by (auto simp: Tail_def lines_of_def rb_tail_eq lastn_map lg_ok_def split: option.splits)
next
  fix lg name assume "lg_ok lg"
  then show "length (lines_of lg name) \<le> nat (lg_capacity lg)"
    using rb.bounded by (fastforce simp: lines_of_def lg_ok_def split: option.splits)
qed

lemma logger_New_ok: "lg_ok (logger_New f c)" "lines_of (logger_New f c) name = []"
  by (simp_all add: lg_ok_def lines_of_def find_log_def logger_New_def DefaultCapacity_def)

section \<open>Subscribers\<close>

abbreviation write_all :: "os \<Rightarrow> ((string \<times> int) \<times> string \<times> string) list \<Rightarrow> Logger \<Rightarrow> Logger option" where
  "write_all os \<equiv> run_steps (\<lambda>(now, name, line). Write os now name line)"

lemma fan_out_other: "ch \<notin> set is \<Longrightarrow> fan_out ev is cs ch = cs ch"
  by (induction "is" arbitrary: cs) auto

lemma fan_out_one: "count_list is ch = 1 \<Longrightarrow> fan_out ev is cs ch = try_send ev (cs ch)"
proof (induction "is" arbitrary: cs)
  case (Cons i "is")
  then show ?case
    by (cases "i = ch") (auto simp: count_list_0_iff fan_out_other)
qed simp

text \<open>Channels are made with fresh numbers, so a subscriber gets the events of its process only.\<close>

definition subs_ok :: "Logger \<Rightarrow> bool" where
  "subs_ok lg \<longleftrightarrow> (\<forall>n a. find_log lg n = Some a \<longrightarrow> (\<forall>c \<in> set (pl_subs (lg_heap lg a)). c < lg_nextChan lg))
     \<and> (\<forall>c \<in> set (lg_allSubs lg). c < lg_nextChan lg)"

definition subscribed :: "Logger \<Rightarrow> string \<Rightarrow> nat \<Rightarrow> bool" where
  "subscribed lg name ch \<longleftrightarrow> ch \<notin> set (lg_allSubs lg)
     \<and> (\<exists>a. find_log lg name = Some a \<and> count_list (pl_subs (lg_heap lg a)) ch = 1)
     \<and> (\<forall>n a. find_log lg n = Some a \<longrightarrow> n \<noteq> name \<longrightarrow> ch \<notin> set (pl_subs (lg_heap lg a)))"

lemma Write_subs:
  assumes "lg_ok lg" and "Write os now name line lg = Some lg'"
  shows "(subs_ok lg \<longrightarrow> subs_ok lg') \<and> lg_ok lg'
    \<and> (subscribed lg m ch \<longrightarrow> subscribed lg' m ch
         \<and> lg_chans lg' ch = (if name = m then try_send \<lparr>ev_Name = name, ev_Line = line\<rparr> (lg_chans lg ch) else lg_chans lg ch))"
proof -
  obtain lg1 a where e: "ensure name lg = Some (lg1, a)" "lg_ok lg1" "find_log lg1 name = Some a"
    and same: "lg_chans lg1 = lg_chans lg" "lg_allSubs lg1 = lg_allSubs lg" "lg_nextChan lg1 = lg_nextChan lg"
    and old: "\<And>m b. m \<noteq> name \<Longrightarrow> find_log lg1 m = Some b \<Longrightarrow> find_log lg m = Some b \<and> lg_heap lg1 b = lg_heap lg b"
    and new: "case find_log lg name of Some b \<Rightarrow> lg1 = lg \<and> a = b | None \<Rightarrow> a = lg_next lg \<and> pl_subs (lg_heap lg1 a) = []"
    using ensure_ok [OF assms(1), of name] by blast
  have w: "pl_append os now a line lg1 = Some lg'" using assms(2) e(1) by (simp add: Write_def)
  have l: "lg_ok lg'" "lg_allSubs lg' = lg_allSubs lg1" "lg_nextChan lg' = lg_nextChan lg1"
    "lg_procs lg' = lg_procs lg1" "\<And>b. pl_subs (lg_heap lg' b) = pl_subs (lg_heap lg1 b)"
    "lg_chans lg' = fan_out \<lparr>ev_Name = name, ev_Line = line\<rparr> (lg_allSubs lg1)
        (fan_out \<lparr>ev_Name = name, ev_Line = line\<rparr> (pl_subs (lg_heap lg1 a)) (lg_chans lg1))"
    using pl_append_ok [OF e(2,3), of os now line] w by auto
  have find: "find_log lg' m = find_log lg1 m" for m using l(4) by (simp add: find_log_def)
  have subs: "pl_subs (lg_heap lg1 b) = (if find_log lg n = None then [] else pl_subs (lg_heap lg b))"
    if "find_log lg1 n = Some b" for n b
    using that old [of n b] new e(3) by (cases "n = name") (auto split: option.splits)
  have keep: "find_log lg1 n = Some b" if "find_log lg n = Some b" for n b
    using that e(1) by (auto simp: ensure_def find_log_def split: option.splits Option.bind_splits)
  have "subs_ok lg'" if "subs_ok lg"
    unfolding subs_ok_def
  proof (intro conjI allI impI)
    fix n b assume b: "find_log lg' n = Some b"
    show "\<forall>c \<in> set (pl_subs (lg_heap lg' b)). c < lg_nextChan lg'"
      using that b old [of n b] new e(3) by (cases "n = name") (auto simp: subs_ok_def find l(3,5) same split: option.splits)
  qed (use that in \<open>simp add: subs_ok_def l same\<close>)
  moreover have "subscribed lg' m ch \<and> lg_chans lg' ch = (if name = m then try_send \<lparr>ev_Name = name, ev_Line = line\<rparr> (lg_chans lg ch) else lg_chans lg ch)"
    if sub: "subscribed lg m ch"
  proof
    obtain b where b: "find_log lg m = Some b" "count_list (pl_subs (lg_heap lg b)) ch = 1" "ch \<notin> set (lg_allSubs lg)"
      using sub by (auto simp: subscribed_def)
    have heap: "pl_subs (lg_heap lg1 b) = pl_subs (lg_heap lg b)" using subs [OF keep [OF b(1)]] b(1) by simp
    show "subscribed lg' m ch" unfolding subscribed_def
    proof (intro conjI allI impI)
      show "\<exists>a. find_log lg' m = Some a \<and> count_list (pl_subs (lg_heap lg' a)) ch = 1"
        using b heap keep [OF b(1)] by (auto simp: find l(5))
      fix n d assume d: "find_log lg' n = Some d" "n \<noteq> m"
      show "ch \<notin> set (pl_subs (lg_heap lg' d))"
      proof (cases "n = name")
        case True
        then show ?thesis using d new e(3) sub by (auto simp: find l(5) subscribed_def split: option.splits)
      next
        case False
        then show ?thesis using d old [of n d] sub by (auto simp: find l(5) subscribed_def)
      qed
    qed (use b in \<open>simp add: l same\<close>)
    show "lg_chans lg' ch = (if name = m then try_send \<lparr>ev_Name = name, ev_Line = line\<rparr> (lg_chans lg ch) else lg_chans lg ch)"
    proof (cases "name = m")
      case True
      then have "a = b" using keep [OF b(1)] e(3) by simp
      then show ?thesis using True b(2,3) heap by (simp add: l(6) same fan_out_other fan_out_one)
    next
      case False
      have "ch \<notin> set (pl_subs (lg_heap lg1 a))"
        using new sub False e(3) by (auto simp: subscribed_def split: option.splits)
      then show ?thesis using False b(3) by (simp add: l(6) same fan_out_other)
    qed
  qed
  ultimately show ?thesis using l(1) by blast
qed

lemma Subscribe_ok:
  assumes "lg_ok lg" and "subs_ok lg"
  shows "\<exists>lg' ch. Subscribe name lg = Some (lg', ch) \<and> lg_ok lg' \<and> subs_ok lg' \<and> subscribed lg' name ch
    \<and> lg_chans lg' ch = \<lparr>ch_buf = [], ch_cap = 256\<rparr>"
proof -
  obtain lg1 a where e: "ensure name lg = Some (lg1, a)" "lg_ok lg1" "find_log lg1 name = Some a"
    and same: "lg_chans lg1 = lg_chans lg" "lg_allSubs lg1 = lg_allSubs lg" "lg_nextChan lg1 = lg_nextChan lg"
    and old: "\<And>m b. m \<noteq> name \<Longrightarrow> find_log lg1 m = Some b \<Longrightarrow> find_log lg m = Some b \<and> lg_heap lg1 b = lg_heap lg b"
    and new: "case find_log lg name of Some b \<Rightarrow> lg1 = lg \<and> a = b | None \<Rightarrow> a = lg_next lg \<and> pl_subs (lg_heap lg1 a) = []"
    using ensure_ok [OF assms(1), of name] by blast
  let ?ch = "lg_nextChan lg1"
  define lg' where "lg' = set_log a ((lg_heap lg1 a)\<lparr>pl_subs := pl_subs (lg_heap lg1 a) @ [?ch]\<rparr>)
     (lg1\<lparr>lg_chans := (lg_chans lg1)(?ch := \<lparr>ch_buf = [], ch_cap = 256\<rparr>), lg_nextChan := Suc ?ch\<rparr>)"
  have s: "Subscribe name lg = Some (lg', ?ch)" by (simp add: Subscribe_def e new_chan_def lg'_def)
  have f: "find_log lg' m = find_log lg1 m" for m by (simp add: find_log_def lg'_def set_log_def)
  have h: "lg_heap lg' b = (if b = a then (lg_heap lg1 a)\<lparr>pl_subs := pl_subs (lg_heap lg1 a) @ [?ch]\<rparr> else lg_heap lg1 b)" for b
    by (simp add: lg'_def set_log_def)
  have same': "lg_capacity lg' = lg_capacity lg1" "lg_next lg' = lg_next lg1" "lg_allSubs lg' = lg_allSubs lg1"
    "lg_nextChan lg' = Suc ?ch" "lg_chans lg' ?ch = \<lparr>ch_buf = [], ch_cap = 256\<rparr>"
    by (simp_all add: lg'_def set_log_def)
  have below: "c < ?ch" if "find_log lg1 n = Some b" "c \<in> set (pl_subs (lg_heap lg1 b))" for n b c
    using that old [of n b] new e(3) assms(2) by (cases "n = name") (auto simp: subs_ok_def same split: option.splits)
  have below_all: "c < ?ch" if "c \<in> set (lg_allSubs lg1)" for c using that assms(2) by (simp add: subs_ok_def same)
  have only: "find_log lg1 n = Some a \<longleftrightarrow> n = name" for n using e(2,3) by (auto simp: lg_ok_def)
  have "lg_ok lg'" using e(2) by (auto simp: lg_ok_def f h same')
  moreover have "subs_ok lg'" using below below_all by (auto simp: subs_ok_def f h same' less_Suc_eq split: if_splits)
  moreover have "subscribed lg' name ?ch"
    unfolding subscribed_def
  proof (intro conjI allI impI)
    have "?ch \<notin> set (pl_subs (lg_heap lg1 a))" using below [OF e(3)] by blast
    then show "\<exists>a. find_log lg' name = Some a \<and> count_list (pl_subs (lg_heap lg' a)) ?ch = 1"
      using e(3) by (auto simp: f h count_list_0_iff)
    show "?ch \<notin> set (pl_subs (lg_heap lg' b))" if "find_log lg' n = Some b" "n \<noteq> name" for n b
      using that only [of n] below [of n b] by (auto simp: f h)
  qed (use below_all in \<open>auto simp: same'\<close>)
  ultimately show ?thesis using s same' by blast
qed

lemma write_all_subscribed:
  "lg_ok lg \<Longrightarrow> subscribed lg m ch \<Longrightarrow> ch_cap (lg_chans lg ch) = c \<Longrightarrow> write_all os ws lg = Some lg' \<Longrightarrow>
     ch_buf (lg_chans lg ch) = take c evs \<Longrightarrow>
     ch_buf (lg_chans lg' ch) = take c (evs @ map (\<lambda>w. \<lparr>ev_Name = m, ev_Line = snd (snd w)\<rparr>) (filter (\<lambda>w. fst (snd w) = m) ws))"
proof (induction ws arbitrary: lg evs)
  case Nil
  then show ?case by simp
next
  case (Cons w ws)
  obtain now name line where w: "w = (now, name, line)" by (metis prod.exhaust)
  obtain lg1 where lg1: "Write os now name line lg = Some lg1" "write_all os ws lg1 = Some lg'"
    using Cons.prems(4) by (auto simp: w split: option.splits)
  have st: "lg_ok lg1" "subscribed lg1 m ch"
    "lg_chans lg1 ch = (if name = m then try_send \<lparr>ev_Name = name, ev_Line = line\<rparr> (lg_chans lg ch) else lg_chans lg ch)"
    using Write_subs [OF Cons.prems(1) lg1(1), of m ch] Cons.prems(2) by blast+
  let ?evs = "evs @ (if name = m then [\<lparr>ev_Name = m, ev_Line = line\<rparr>] else [])"
  have "ch_cap (lg_chans lg1 ch) = c \<and> ch_buf (lg_chans lg1 ch) = take c ?evs"
    using Cons.prems(3,5) by (auto simp: st(3) try_send_def)
  then show ?case using Cons.IH [OF st(1,2) _ lg1(2), of ?evs]
    by (cases "name = m") (simp_all add: w del: take_append)
qed

lemma write_all_ok: "lg_ok lg \<Longrightarrow> subs_ok lg \<Longrightarrow> write_all os ws lg = Some lg' \<Longrightarrow> lg_ok lg' \<and> subs_ok lg'"
proof (induction ws arbitrary: lg)
  case (Cons w ws)
  obtain now name line where w: "w = (now, name, line)" by (metis prod.exhaust)
  obtain lg1 where lg1: "Write os now name line lg = Some lg1" "write_all os ws lg1 = Some lg'"
    using Cons.prems(3) by (auto simp: w split: option.splits)
  then show ?case using Write_subs [OF Cons.prems(1) lg1(1)] Cons.prems(2) Cons.IH [OF _ _ lg1(2)] by blast
qed simp

section \<open>Properties\<close>

text \<open>C13. The logs of the daemon: after any writes to any processes, nothing has panicked and
  \<open>Tail name n\<close> returns the last \<open>n\<close> lines written to that process, oldest first, of the last
  \<open>capacity\<close> ones (a thousand unless another positive capacity was given).\<close>

theorem tail_after_writes:
  "\<exists>lg. write_all os ws (logger_New f c) = Some lg
     \<and> Tail lg name n = Some (lastn (let k = nat (if c \<le> 0 then 1000 else c) in if n \<le> 0 then k else min (nat n) k)
         (map (\<lambda>w. snd (snd w)) (filter (\<lambda>w. fst (snd w) = name) ws)))"
proof -
  let ?lg0 = "logger_New f c"
  obtain lg where lg: "write_all os ws ?lg0 = Some lg" "lg_ok lg"
      "\<And>m. lines_of lg m = lastn (nat (lg_capacity ?lg0)) (lines_of ?lg0 m @ map (\<lambda>w. snd (snd w)) (filter (\<lambda>w. fst (snd w) = m) ws))"
    using logs.puts_lines [OF logger_New_ok(1), of os ws f c] by blast
  have "nat (lg_capacity ?lg0) = nat (if c \<le> 0 then 1000 else c)" by (simp add: logger_New_def DefaultCapacity_def)
  then have "Tail lg name n = Some (lastn (let k = nat (if c \<le> 0 then 1000 else c) in if n \<le> 0 then k else min (nat n) k)
         (map (\<lambda>w. snd (snd w)) (filter (\<lambda>w. fst (snd w) = name) ws)))"
    using logs.get_ok [OF lg(2), of name n] lg(3) [of name] logger_New_ok(2) [of f c name] by (simp add: Let_def)
  with lg(1) show ?thesis by blast
qed

text \<open>C36. A follower of a process's log gets the lines written after it subscribed, in order and each
  once, whatever other processes write; when it does not read, the first 256 are kept, later ones
  are dropped, and the writers never block.\<close>

theorem follower_gets_the_lines:
  assumes "write_all os ws (logger_New f c) = Some lg" and "Subscribe name lg = Some (lg1, ch)"
    and "write_all os vs lg1 = Some lg2"
  shows "ch_buf (lg_chans lg2 ch) =
    take 256 (map (\<lambda>w. \<lparr>ev_Name = name, ev_Line = snd (snd w)\<rparr>) (filter (\<lambda>w. fst (snd w) = name) vs))"
proof -
  have "subs_ok (logger_New f c)" by (simp add: subs_ok_def logger_New_def find_log_def)
  then have lg: "lg_ok lg" "subs_ok lg" using write_all_ok [OF logger_New_ok(1) _ assms(1)] by blast+
  have "lg_ok lg1" "subscribed lg1 name ch" "lg_chans lg1 ch = \<lparr>ch_buf = [], ch_cap = 256\<rparr>"
    using Subscribe_ok [OF lg, of name] assms(2) by auto
  then show ?thesis using write_all_subscribed [of lg1 name ch 256 os vs lg2 "[]"] assms(3) by simp
qed

theorem follower_gets_the_lines_witness:
  "\<exists>lg1 ch lg2. Subscribe ''a'' (logger_New no_files 0) = Some (lg1, ch)
     \<and> write_all good_os [((''t'', 1), ''a'', ''x''), ((''t'', 2), ''b'', ''y''), ((''t'', 3), ''a'', ''z'')] lg1 = Some lg2
     \<and> ch_buf (lg_chans lg2 ch) = [\<lparr>ev_Name = ''a'', ev_Line = ''x''\<rparr>, \<lparr>ev_Name = ''a'', ev_Line = ''z''\<rparr>]"
proof -
  have s0: "subs_ok (logger_New no_files 0)" by (simp add: subs_ok_def logger_New_def find_log_def)
  obtain lg1 ch where s: "Subscribe ''a'' (logger_New no_files 0) = Some (lg1, ch)" "lg_ok lg1"
    using Subscribe_ok [OF logger_New_ok(1) s0, of "''a''"] by blast
  obtain lg2 where w: "write_all good_os [((''t'', 1), ''a'', ''x''), ((''t'', 2), ''b'', ''y''), ((''t'', 3), ''a'', ''z'')] lg1 = Some lg2"
    using logs.puts_lines [OF s(2), of good_os "[((''t'', 1), ''a'', ''x''), ((''t'', 2), ''b'', ''y''), ((''t'', 3), ''a'', ''z'')]"] by blast
  have "write_all good_os [] (logger_New no_files 0) = Some (logger_New no_files 0)" by simp
  from follower_gets_the_lines [OF this s(1) w] s w show ?thesis by auto
qed

text \<open>A line of 1 MiB ends the capture of a stream: the lines before it are logged, and neither
  it nor anything after it ever is, although the child goes on writing.\<close>

theorem long_line_ends_capture:
  assumes "\<And>l. l \<in> set ls \<Longrightarrow> CHR 0x0A \<notin> set l \<and> length l < 1048576"
    and "CHR 0x0A \<notin> set long" and "1048576 \<le> length long"
  shows "capture [] (concat (map (\<lambda>l. l @ [CHR 0x0A]) ls) @ long @ rest) = map drop_cr ls"
  using scan_lines_text [of ls 1048576 "long @ rest"] scan_lines_too_long [OF assms(2,3), of rest] assms(1)
  by (simp add: capture_def)

theorem long_line_ends_capture_witness:
  "capture [] (concat (map (\<lambda>l. l @ [CHR 0x0A]) [''hi'']) @ replicate 1048576 CHR ''x'' @ [CHR 0x0A] @ ''lost'') = [''hi'']"
proof -
  have "map drop_cr [''hi''] = [''hi'']" by (simp add: drop_cr_def)
  then show ?thesis
    using long_line_ends_capture [of "[''hi'']" "replicate 1048576 CHR ''x''" "[CHR 0x0A] @ ''lost''"] by simp
qed

text \<open>A follower of an app that is deleted and started again is cut off without notice:
  \<open>Detach\<close> drops the log with its subscribers, and lines written to the new log of that name do
  not reach the channel.\<close>

theorem detach_cuts_off_followers:
  "\<exists>lg1 ch lg2. Subscribe ''a'' (logger_New no_files 0) = Some (lg1, ch)
     \<and> Write good_os (''t'', 1) ''a'' ''x'' (Detach ''a'' lg1) = Some lg2
     \<and> Tail lg2 ''a'' 0 = Some [''x''] \<and> ch_buf (lg_chans lg2 ch) = []"
  by (simp add: Subscribe_def ensure_def find_log_def logger_New_def DefaultCapacity_def newRingBuffer_def new_chan_def set_log_def
      Detach_def Write_def pl_append_def rb_add_def go_update_def go_mod_nonneg fresh_log_def append_file_def Let_def Tail_def
      rb_tail_def go_index_def)

end
