(* ===== verification/Log_Registry.thy ===== *)
theory Log_Registry
  imports Logger
begin

text \<open>
  The log registry as a state machine: every operation of \<open>Logger\<close> (\<open>internal/logger/logger.go\<close>) in
  any order, the lines the reader goroutines of \<open>Attach\<close> append (also to a log that was detached
  meanwhile), and the receivers of the channels. Its invariant says that the registry is well
  formed; a panic of any operation would be \<open>None\<close>.
\<close>

section \<open>The machine\<close>

datatype reg_ev =
    LWrite os "string \<times> int" string string | LSetLogFile os string string int int
  | LSubscribe string | LSubscribeAll | LUnsubscribe string nat | LUnsubscribeAll nat
  | LDetach string | LAttach string | LLine os "string \<times> int" nat string | LReceive nat

fun reg_step :: "reg_ev \<Rightarrow> Logger \<Rightarrow> Logger option" where
  "reg_step (LWrite os now name line) lg = Write os now name line lg"
| "reg_step (LSetLogFile os name path mb backups) lg = map_option fst (logger_SetLogFile os name path mb backups lg)"
| "reg_step (LSubscribe name) lg = map_option fst (Subscribe name lg)"
| "reg_step LSubscribeAll lg = Some (fst (SubscribeAll lg))"
| "reg_step (LUnsubscribe name ch) lg = Some (Unsubscribe name ch lg)"
| "reg_step (LUnsubscribeAll ch) lg = Some (UnsubscribeAll ch lg)"
| "reg_step (LDetach name) lg = Some (Detach name lg)"
| "reg_step (LAttach name) lg = map_option fst (ensure name lg)"
| "reg_step (LLine os now a line) lg = (if a < lg_next lg then pl_append os now a line lg else Some lg)"
| "reg_step (LReceive ch) lg = Some (lg\<lparr>lg_chans := (lg_chans lg)(ch := (lg_chans lg ch)\<lparr>ch_buf := tl (ch_buf (lg_chans lg ch))\<rparr>)\<rparr>)"

section \<open>The invariant\<close>

definition chan_ok :: "chan \<Rightarrow> bool" where
  "chan_ok c \<longleftrightarrow> length (ch_buf c) \<le> ch_cap c"

definition log_ok :: "int \<Rightarrow> procLog \<Rightarrow> bool" where
  "log_ok cap pl \<longleftrightarrow> rb_inv (pl_buf pl) \<and> rb_cap (pl_buf pl) = cap"

definition reg_ok :: "Logger \<Rightarrow> bool" where
  "reg_ok lg \<longleftrightarrow> 0 < lg_capacity lg \<and> distinct (map fst (lg_procs lg))
     \<and> (\<forall>(n, a) \<in> set (lg_procs lg). a < lg_next lg \<and> pl_name (lg_heap lg a) = n)
     \<and> (\<forall>a < lg_next lg. log_ok (lg_capacity lg) (lg_heap lg a))
     \<and> (\<forall>ch. chan_ok (lg_chans lg ch))"

lemma find_log_reg: "reg_ok lg \<Longrightarrow> find_log lg name = Some a \<Longrightarrow> a < lg_next lg \<and> pl_name (lg_heap lg a) = name"
  by (auto simp: reg_ok_def find_log_def dest!: map_of_SomeD)

lemma reg_ok_same:
  assumes "reg_ok lg" and "lg_procs lg' = lg_procs lg" and "lg_next lg' = lg_next lg" and "lg_capacity lg' = lg_capacity lg"
    and "\<And>a. pl_name (lg_heap lg' a) = pl_name (lg_heap lg a)" and "\<And>a. a < lg_next lg \<Longrightarrow> log_ok (lg_capacity lg) (lg_heap lg' a)"
    and "\<And>ch. chan_ok (lg_chans lg' ch)"
  shows "reg_ok lg'"
  using assms by (simp add: reg_ok_def)

lemma fan_out_ok: "(\<And>ch. chan_ok (cs ch)) \<Longrightarrow> chan_ok (fan_out ev is cs ch)"
  by (induction "is" arbitrary: cs) (auto simp: chan_ok_def try_send_def)

lemma ensure_reg:
  assumes "reg_ok lg"
  shows "\<exists>lg1 a. ensure name lg = Some (lg1, a) \<and> reg_ok lg1 \<and> a < lg_next lg1 \<and> lg_capacity lg1 = lg_capacity lg"
proof (cases "find_log lg name")
  case (Some a)
  then show ?thesis using assms find_log_reg [OF assms Some] by (simp add: ensure_def)
next
  case None
  have cap: "0 < lg_capacity lg" using assms by (simp add: reg_ok_def)
  then obtain rb where rb: "newRingBuffer (lg_capacity lg) = Some rb" "rb_inv rb" "rb_cap rb = lg_capacity lg"
    using newRingBuffer_ok by blast
  define lg1 where "lg1 = lg\<lparr>lg_heap := (lg_heap lg)(lg_next lg := fresh_log name rb),
                   lg_procs := (name, lg_next lg) # lg_procs lg, lg_next := Suc (lg_next lg)\<rparr>"
  have new: "name \<notin> fst ` set (lg_procs lg)" using None by (simp add: find_log_def map_of_eq_None_iff)
  have "reg_ok lg1"
    using assms new rb by (auto simp: reg_ok_def lg1_def fresh_log_def log_ok_def less_Suc_eq)
  moreover have "ensure name lg = Some (lg1, lg_next lg)" using None rb by (simp add: ensure_def lg1_def)
  ultimately show ?thesis by (auto simp: lg1_def)
qed

lemma append_reg:
  assumes "reg_ok lg" and "a < lg_next lg"
  shows "\<exists>lg'. pl_append os now a line lg = Some lg' \<and> reg_ok lg' \<and> lg_capacity lg' = lg_capacity lg"
proof -
  have inv: "rb_inv (pl_buf (lg_heap lg a))" "rb_cap (pl_buf (lg_heap lg a)) = lg_capacity lg"
    using assms by (auto simp: reg_ok_def log_ok_def)
  obtain buf where buf: "rb_add (pl_buf (lg_heap lg a)) \<lparr>le_line = line, le_ts = snd now\<rparr> = Some buf" "rb_inv buf" "rb_cap buf = lg_capacity lg"
    using rb_add_eq [OF inv(1)] rb_inv_add [OF inv(1)] inv(2) by simp
  obtain f pl where pl: "append_file os (fst now) line (lg_fs lg, (lg_heap lg a)\<lparr>pl_buf := buf\<rparr>) = (f, pl)" by fastforce
  then have frame: "pl_buf pl = buf" "pl_name pl = pl_name (lg_heap lg a)" using append_file_frame by fastforce+
  define lg' where "lg' = set_log a pl (lg\<lparr>lg_fs := f, lg_chans := fan_out \<lparr>ev_Name = pl_name pl, ev_Line = line\<rparr> (lg_allSubs lg)
      (fan_out \<lparr>ev_Name = pl_name pl, ev_Line = line\<rparr> (pl_subs pl) (lg_chans lg))\<rparr>)"
  have "reg_ok lg'"
  proof (rule reg_ok_same [OF assms(1)])
    show "log_ok (lg_capacity lg) (lg_heap lg' b)" if "b < lg_next lg" for b
      using assms(1) that buf frame by (simp add: lg'_def set_log_def log_ok_def reg_ok_def)
    show "chan_ok (lg_chans lg' ch)" for ch
      using assms(1) by (simp add: lg'_def set_log_def reg_ok_def fan_out_ok)
  qed (simp_all add: lg'_def set_log_def frame)
  moreover have "pl_append os now a line lg = Some lg'" by (simp add: pl_append_def buf pl lg'_def Let_def)
  ultimately show ?thesis by (auto simp: lg'_def set_log_def)
qed

text \<open>A change of one log that leaves its name and its buffer alone.\<close>

lemma set_log_reg:
  assumes "reg_ok lg" and "pl_name pl = pl_name (lg_heap lg a)" and "pl_buf pl = pl_buf (lg_heap lg a)"
  shows "reg_ok (set_log a pl lg)"
  by (rule reg_ok_same [OF assms(1)]) (use assms in \<open>simp_all add: set_log_def log_ok_def reg_ok_def\<close>)

lemma new_chan_reg: "reg_ok lg \<Longrightarrow> new_chan cap lg = (lg', ch) \<Longrightarrow> reg_ok lg' \<and> lg_heap lg' = lg_heap lg \<and> lg_capacity lg' = lg_capacity lg"
  by (auto simp: new_chan_def reg_ok_def chan_ok_def)

lemma SetLogFile_frame: "SetLogFile os path mb backups (f, pl) = ((f', pl'), err) \<Longrightarrow> pl_name pl' = pl_name pl \<and> pl_buf pl' = pl_buf pl"
  by (auto simp: SetLogFile_def Let_def split: if_splits option.splits prod.splits)

text \<open>Every operation returns, and keeps the invariant and the capacity.\<close>

lemma reg_step_ok:
  assumes "reg_ok lg"
  shows "\<exists>lg'. reg_step e lg = Some lg' \<and> reg_ok lg' \<and> lg_capacity lg' = lg_capacity lg"
proof (cases e)
  case (LWrite os now name line)
  obtain lg1 a where e: "ensure name lg = Some (lg1, a)" "reg_ok lg1" "a < lg_next lg1" "lg_capacity lg1 = lg_capacity lg"
    using ensure_reg [OF assms] by blast
  then show ?thesis using LWrite append_reg [OF e(2,3), of os now line] by (simp add: Write_def)
next
  case (LSetLogFile os name path mb backups)
  obtain lg1 a where e: "ensure name lg = Some (lg1, a)" "reg_ok lg1" "lg_capacity lg1 = lg_capacity lg"
    using ensure_reg [OF assms] by blast
  obtain f pl err where s: "SetLogFile os path mb backups (lg_fs lg1, lg_heap lg1 a) = ((f, pl), err)" by (metis prod.collapse)
  have "reg_ok (lg1\<lparr>lg_fs := f\<rparr>)" using e(2) by (simp add: reg_ok_def)
  then have "reg_ok (set_log a pl (lg1\<lparr>lg_fs := f\<rparr>))" using SetLogFile_frame [OF s] by (intro set_log_reg) simp_all
  then show ?thesis using LSetLogFile e s by (simp add: logger_SetLogFile_def set_log_def)
next
  case (LSubscribe name)
  obtain lg1 a where e: "ensure name lg = Some (lg1, a)" "reg_ok lg1" "lg_capacity lg1 = lg_capacity lg"
    using ensure_reg [OF assms] by blast
  obtain lg2 ch where c: "new_chan 256 lg1 = (lg2, ch)" by fastforce
  note ok = new_chan_reg [OF e(2) c]
  then have "reg_ok (set_log a ((lg_heap lg2 a)\<lparr>pl_subs := pl_subs (lg_heap lg2 a) @ [ch]\<rparr>) lg2)"
    by (intro set_log_reg) simp_all
  then show ?thesis using LSubscribe e c ok by (simp add: Subscribe_def set_log_def)
next
  case LSubscribeAll
  obtain lg2 ch where c: "new_chan 512 lg = (lg2, ch)" by fastforce
  note ok = new_chan_reg [OF assms c]
  have "reg_ok (lg2\<lparr>lg_allSubs := lg_allSubs lg2 @ [ch]\<rparr>)" using conjunct1 [OF ok] by (simp add: reg_ok_def)
  then show ?thesis using LSubscribeAll c ok by (simp add: SubscribeAll_def)
next
  case (LUnsubscribe name ch)
  then show ?thesis using assms set_log_reg [OF assms]
    by (auto simp: Unsubscribe_def set_log_def split: option.splits)
next
  case (LUnsubscribeAll ch)
  then show ?thesis using assms by (simp add: UnsubscribeAll_def reg_ok_def)
next
  case (LDetach name)
  show ?thesis
  proof (cases "find_log lg name")
    case None
    then show ?thesis using LDetach assms by (simp add: Detach_def)
  next
    case (Some a)
    let ?lg = "lg\<lparr>lg_procs := filter (\<lambda>(m, b). m \<noteq> name) (lg_procs lg)\<rparr>"
    have "reg_ok ?lg" using assms by (auto simp: reg_ok_def distinct_map_filter)
    then have "reg_ok (set_log a ((lg_heap lg a)\<lparr>pl_file := None\<rparr>) ?lg)" by (intro set_log_reg) simp_all
    then show ?thesis using LDetach Some by (simp add: Detach_def set_log_def)
  qed
next
  case (LAttach name)
  then show ?thesis using ensure_reg [OF assms, of name] by fastforce
next
  case (LLine os now a line)
  then show ?thesis using append_reg [OF assms, of a os now line] assms by simp
next
  case (LReceive ch)
  have "length (ch_buf (lg_chans lg ch)) - Suc 0 \<le> ch_cap (lg_chans lg ch)"
    using assms unfolding reg_ok_def chan_ok_def by (meson diff_le_self le_trans)
  then show ?thesis using LReceive assms by (simp add: reg_ok_def chan_ok_def)
qed

interpretation registry: transition_system "\<lambda>lg. \<exists>f c. lg = logger_New f c" reg_step reg_ok
proof unfold_locales
  show "reg_ok lg" if "\<exists>f c. lg = logger_New f c" for lg
    using that by (auto simp: logger_New_def reg_ok_def chan_ok_def DefaultCapacity_def)
  show "reg_ok lg'" if "reg_step e lg = Some lg'" "reg_ok lg" for e lg lg'
    using reg_step_ok [OF that(2), of e] that(1) by auto
qed

lemma reg_run_total:
  "reg_ok lg \<Longrightarrow> \<exists>lg'. run_steps reg_step es lg = Some lg' \<and> lg_capacity lg' = lg_capacity lg"
proof (induction es arbitrary: lg)
  case (Cons e es)
  then show ?case using reg_step_ok [OF Cons.prems, of e] by fastforce
qed simp

section \<open>Properties\<close>

text \<open>C39. The registry is total and bounded: whatever operations came before, in whatever order, none
  of them panics; the names of the logs are distinct; every tail, filtered or not, returns, with at
  most as many lines as the capacity (1000 when none was given), the filtered one with no more than the
  other; and no channel holds more events than it has room for.\<close>

theorem registry_total_and_bounded:
  "\<exists>lg. run_steps reg_step es (logger_New f c) = Some lg \<and> distinct (Names lg)
     \<and> (\<forall>ch. length (ch_buf (lg_chans lg ch)) \<le> ch_cap (lg_chans lg ch))
     \<and> (\<forall>name n since pat. \<exists>ls all_ls fs. Tail lg name n = Some ls \<and> Tail lg name 0 = Some all_ls
          \<and> TailFiltered lg name n since pat = Some fs
          \<and> length all_ls \<le> nat (if c \<le> 0 then 1000 else c) \<and> suffix ls all_ls \<and> subseq fs all_ls)"
proof -
  have ok0: "reg_ok (logger_New f c)" using registry.init_inv by blast
  then obtain lg where run: "run_steps reg_step es (logger_New f c) = Some lg" "lg_capacity lg = lg_capacity (logger_New f c)"
    using reg_run_total by blast
  have ok: "reg_ok lg" using registry.run_inv [OF run(1) ok0] .
  have cap: "lg_capacity lg = (if c \<le> 0 then 1000 else c)" using run(2) by (simp add: logger_New_def DefaultCapacity_def)
  have "\<exists>ls all_ls fs. Tail lg name n = Some ls \<and> Tail lg name 0 = Some all_ls \<and> TailFiltered lg name n since pat = Some fs
      \<and> length all_ls \<le> nat (lg_capacity lg) \<and> suffix ls all_ls \<and> subseq fs all_ls" for name n since pat
  proof (cases "find_log lg name")
    case (Some a)
    then have b: "rb_inv (pl_buf (lg_heap lg a))" "rb_cap (pl_buf (lg_heap lg a)) = lg_capacity lg"
      using ok find_log_reg [OF ok Some] by (auto simp: reg_ok_def log_ok_def)
    let ?es = "rb_entries (pl_buf (lg_heap lg a))"
    have "length ?es \<le> nat (lg_capacity lg)" using b by (simp add: rb_inv_def nat_mono)
    moreover have "suffix (map le_line (if n \<le> 0 then ?es else lastn (nat n) ?es)) (map le_line ?es)"
      by (simp add: map_mono_suffix suffix_lastn)
    moreover have "subseq (map le_line (limit_last n (filter (entry_matches since pat) ?es))) (map le_line ?es)"
    proof (rule subseq_map)
      have "suffix (limit_last n (filter (entry_matches since pat) ?es)) (filter (entry_matches since pat) ?es)"
        by (simp add: limit_last_eq suffix_lastn)
      then show "subseq (limit_last n (filter (entry_matches since pat) ?es)) ?es"
        using suffix_imp_subseq subseq_filter_left subseq_order.order_trans by blast
    qed
    ultimately show ?thesis using Some by (simp add: Tail_def TailFiltered_def rb_tail_eq [OF b(1)] rb_tailFiltered_eq [OF b(1)])
  qed (simp add: Tail_def TailFiltered_def)
  then show ?thesis using run(1) ok unfolding cap by (auto simp: reg_ok_def chan_ok_def Names_def)
qed

end
