(* ===== verification/Parse_Int.thy ===== *)
theory Parse_Int
  imports Go_Strings
begin

text \<open>
  Go's \<open>strconv.ParseInt(s, 0, 64)\<close>, with which the \<open>flag\<close> package reads the integer flags of
  \<open>cmd/gopm/main.go\<close>: a sign, a base prefix, underscores between digits, and the two errors.
\<close>

section \<open>Model\<close>

datatype num_error = NSyntax | NRange

definition digit0 :: "char \<Rightarrow> nat option" where
  "digit0 c =
     (let v = (of_char c :: nat) in
      if 48 \<le> v \<and> v \<le> 57 then Some (v - 48)
      else if 65 \<le> v \<and> v \<le> 90 then Some (v - 65 + 10)
      else if 97 \<le> v \<and> v \<le> 122 then Some (v - 97 + 10) else None)"

text \<open>The loop over the digits; it returns at the first digit that does not fit.\<close>

fun digits0 :: "nat \<Rightarrow> nat \<Rightarrow> string \<Rightarrow> num_error + nat" where
  "digits0 base n [] = Inr n"
| "digits0 base n (c # s) =
     (if c = CHR ''_'' then digits0 base n s
      else (case digit0 c of None \<Rightarrow> Inl NSyntax
        | Some d \<Rightarrow>
            if base \<le> d then Inl NSyntax
            else if 2 ^ 64 \<le> n * base + d then Inl NRange
            else digits0 base (n * base + d) s))"

definition base_prefix :: "string \<Rightarrow> nat \<times> string" where
  "base_prefix s =
     (case s of [] \<Rightarrow> (10, s)
      | z # t \<Rightarrow>
          if z \<noteq> CHR ''0'' then (10, s)
          else (case t of
              c # d # u \<Rightarrow>
                if c \<in> set ''bB'' then (2, d # u) else if c \<in> set ''oO'' then (8, d # u)
                else if c \<in> set ''xX'' then (16, d # u) else (8, t)
            | _ \<Rightarrow> (8, t)))"

text \<open>An underscore must stand between digits, or between the prefix and a digit.\<close>

datatype saw = SawBegin | SawDigit | SawUnderscore | SawOther

fun underscores :: "bool \<Rightarrow> saw \<Rightarrow> string \<Rightarrow> bool" where
  "underscores hex w [] = (w \<noteq> SawUnderscore)"
| "underscores hex w (c # s) =
     (if c \<in> set ''0123456789'' \<or> hex \<and> c \<in> set ''abcdefABCDEF'' then underscores hex SawDigit s
      else if c = CHR ''_'' then w = SawDigit \<and> underscores hex SawUnderscore s
      else w \<noteq> SawUnderscore \<and> underscores hex SawOther s)"

definition underscoreOK :: "string \<Rightarrow> bool" where
  "underscoreOK s =
     (case s of z # c # t \<Rightarrow>
        if z = CHR ''0'' \<and> c \<in> set ''bBoOxX'' then underscores (c \<in> set ''xX'') SawDigit t else underscores False SawBegin s
      | _ \<Rightarrow> underscores False SawBegin s)"

definition parse_uint0 :: "string \<Rightarrow> num_error + nat" where
  "parse_uint0 s =
     (if s = [] then Inl NSyntax
      else (case base_prefix s of (base, t) \<Rightarrow>
        (case digits0 base 0 t of Inl e \<Rightarrow> Inl e
         | Inr n \<Rightarrow> if CHR ''_'' \<in> set t \<and> \<not> underscoreOK s then Inl NSyntax else Inr n)))"

definition parse_int0 :: "string \<Rightarrow> num_error + int" where
  "parse_int0 s =
     (case s of [] \<Rightarrow> Inl NSyntax
      | c # t \<Rightarrow>
          (let neg = (c = CHR ''-'') in
           case parse_uint0 (if neg \<or> c = CHR ''+'' then t else s) of
             Inl e \<Rightarrow> Inl e
           | Inr n \<Rightarrow>
               if \<not> neg \<and> 2 ^ 63 \<le> n \<or> neg \<and> 2 ^ 63 < n then Inl NRange
               else Inr (if neg then - int n else int n)))"

section \<open>Decimal numbers are read back\<close>

lemma digit0_char [simp]: "d < 10 \<Longrightarrow> digit0 (digit_char d) = Some d"
  by (simp add: digit0_def digit_char_def)

lemma digit0_special [simp]: "digit0 CHR ''0'' = Some 0" "digit0 CHR ''_'' = None"
  by (simp_all add: digit0_def)

lemma digit_char_0: "digit_char 0 = CHR ''0''"
  by code_simp

lemma digit_char_not_underscore: "d < 10 \<Longrightarrow> digit_char d \<noteq> CHR ''_''"
  by (metis digit0_char digit0_special(2) option.distinct(1))

lemma digits0_append:
  "digits0 base n (s @ t) = (case digits0 base n s of Inl e \<Rightarrow> Inl e | Inr m \<Rightarrow> digits0 base m t)"
  by (induction base n s rule: digits0.induct) (auto split: option.splits)

lemma digits0_nat_dec: "n < 2 ^ 64 \<Longrightarrow> digits0 10 0 (nat_dec n) = Inr n"
proof (induction n rule: nat_dec.induct)
  case (1 n)
  show ?case
  proof (cases "n < 10")
    case True
    then show ?thesis by (simp add: nat_dec.simps [of n] digit_char_not_underscore)
  next
    case False
    then have "digits0 10 0 (nat_dec (n div 10)) = Inr (n div 10)" using 1 by simp
    moreover have "n div 10 * 10 + n mod 10 = n" by simp
    ultimately show ?thesis using False 1(2)
      by (simp add: nat_dec.simps [of n] digits0_append digit_char_not_underscore)
  qed
qed

lemma hd_nat_dec_0: "0 < n \<Longrightarrow> hd (nat_dec n) \<noteq> CHR ''0''"
proof (induction n rule: nat_dec.induct)
  case (1 n)
  have zero: "digit_char d \<noteq> CHR ''0''" if "0 < d" "d < 10" for d
    by (metis digit0_char digit0_special(1) less_irrefl option.inject that)
  show ?case
  proof (cases "n < 10")
    case True
    then show ?thesis using 1(2) zero by (simp add: nat_dec.simps [of n])
  next
    case False
    then show ?thesis using 1 by (simp add: nat_dec.simps [of n])
  qed
qed

lemma nat_dec_no_underscore: "CHR ''_'' \<notin> set (nat_dec n)"
  using set_nat_dec [of n] digit_char_not_underscore by fastforce

lemma parse_uint0_nat_dec: "n < 2 ^ 64 \<Longrightarrow> parse_uint0 (nat_dec n) = Inr n"
proof (cases "n = 0")
  case True
  have "nat_dec 0 = ''0''" by (subst nat_dec.simps) (simp add: digit_char_0)
  then show ?thesis by (simp add: True parse_uint0_def base_prefix_def)
next
  case False
  moreover assume "n < 2 ^ 64"
  ultimately show ?thesis using hd_nat_dec_0 [of n] nat_dec_no_underscore [of n] digits0_nat_dec [of n]
    by (cases "nat_dec n") (simp_all add: parse_uint0_def base_prefix_def)
qed

lemma parse_int0_int_dec:
  assumes "- (2 ^ 63) \<le> i" and "i < 2 ^ 63"
  shows "parse_int0 (int_dec i) = Inr i"
proof (cases "i < 0")
  case True
  then have "nat (- i) < 2 ^ 64" "\<not> 2 ^ 63 < nat (- i)" using assms by (simp_all add: nat_less_iff)
  then show ?thesis using True by (simp add: parse_int0_def int_dec_def parse_uint0_nat_dec)
next
  case False
  then have n: "nat i < 2 ^ 64" "\<not> 2 ^ 63 \<le> nat i" using assms by (simp_all add: nat_less_iff nat_le_iff)
  obtain c t where ct: "nat_dec (nat i) = c # t" by (cases "nat_dec (nat i)") simp_all
  obtain d where "d < 10" "c = digit_char d" using hd_nat_dec_digit [of "nat i"] ct by auto
  then have "c \<noteq> CHR ''-''" "c \<noteq> CHR ''+''" by (simp_all add: digit_char_not_sign)
  moreover have "parse_uint0 (c # t) = Inr (nat i)" using parse_uint0_nat_dec [OF n(1)] ct by simp
  ultimately show ?thesis using False n(2) ct by (simp add: parse_int0_def int_dec_def)
qed

text \<open>What else a port flag accepts, and what it refuses.\<close>

lemma parse_int0_examples:
  "parse_int0 ''0x1F90'' = Inr 8080" "parse_int0 ''0600'' = Inr 384" "parse_int0 ''6_120'' = Inr 6120"
  "parse_int0 ''6__120'' = Inl NSyntax" "parse_int0 ''08'' = Inl NSyntax" "parse_int0 ''9223372036854775808'' = Inl NRange"
  by (simp_all add: parse_int0_def parse_uint0_def base_prefix_def digit0_def underscoreOK_def)

end
