(* ===== verification/Cli_Args.thy ===== *)
theory Cli_Args
  imports Parse_Int
begin

text \<open>
  The arguments of the CLI: Go's \<open>flag\<close> package as far as \<open>cmd/gopm/main.go\<close> uses it (string, boolean
  and integer flags, \<open>FlagSet.Parse\<close>), the hand-written \<open>parseLogsArgs\<close> and \<open>parsePositiveInt\<close>, and
  the dispatch of \<open>main\<close>. An error is a value: the message \<open>die\<close> prints, or a flag error.
\<close>

section \<open>The flag package\<close>

datatype flag_kind = FString | FBool | FInt

datatype flag_error =
    BadFlagSyntax string | FlagHelp | UndefinedFlag string | FlagNeedsArg string | BadBool string string
  | BadInt string string num_error

definition parse_bool :: "string \<Rightarrow> bool option" where
  "parse_bool s =
     (if s \<in> {''1'', ''t'', ''T'', ''true'', ''TRUE'', ''True''} then Some True
      else if s \<in> {''0'', ''f'', ''F'', ''false'', ''FALSE'', ''False''} then Some False else None)"

text \<open>A name with a value attached: the first \<open>=\<close> after the first character.\<close>

definition split_flag :: "string \<Rightarrow> string \<times> string option" where
  "split_flag s =
     (case s of [] \<Rightarrow> ([], None)
      | c # t \<Rightarrow> (case index_byte t CHR ''='' of None \<Rightarrow> (s, None) | Some i \<Rightarrow> (c # take i t, Some (drop (i + 1) t))))"

text \<open>
  \<open>FlagSet.Parse\<close>: the values set, in order, and the arguments left. The first argument that is
  not a flag ends the flags.
\<close>

function flag_parse :: "(string \<Rightarrow> flag_kind option) \<Rightarrow> string list \<Rightarrow> flag_error + (string \<times> string) list \<times> string list" where
  "flag_parse spec [] = Inr ([], [])"
| "flag_parse spec (s # args) =
     (if length s < 2 \<or> hd s \<noteq> CHR ''-'' then Inr ([], s # args)
      else if s = ''--'' then Inr ([], args)
      else
        (let name = (if has_prefix s ''--'' then drop 2 s else drop 1 s) in
         if hd name = CHR ''-'' \<or> hd name = CHR ''='' then Inl (BadFlagSyntax s)
         else (case split_flag name of (n, v) \<Rightarrow>
           (case spec n of
              None \<Rightarrow> Inl (if n = ''help'' \<or> n = ''h'' then FlagHelp else UndefinedFlag n)
            | Some FBool \<Rightarrow>
                (case v of None \<Rightarrow> map_sum id (apfst (Cons (n, ''true''))) (flag_parse spec args)
                 | Some x \<Rightarrow>
                    if parse_bool x = None then Inl (BadBool n x)
                    else map_sum id (apfst (Cons (n, x))) (flag_parse spec args))
            | Some FString \<Rightarrow>
                (case v of Some x \<Rightarrow> map_sum id (apfst (Cons (n, x))) (flag_parse spec args)
                 | None \<Rightarrow>
                    (case args of [] \<Rightarrow> Inl (FlagNeedsArg n)
                     | x # args' \<Rightarrow> map_sum id (apfst (Cons (n, x))) (flag_parse spec args')))
            | Some FInt \<Rightarrow>
                (case v of Some x \<Rightarrow>
                    (case parse_int0 x of Inl e \<Rightarrow> Inl (BadInt n x e)
                     | Inr i \<Rightarrow> map_sum id (apfst (Cons (n, x))) (flag_parse spec args))
                 | None \<Rightarrow>
                    (case args of [] \<Rightarrow> Inl (FlagNeedsArg n)
                     | x # args' \<Rightarrow>
                        (case parse_int0 x of Inl e \<Rightarrow> Inl (BadInt n x e)
                         | Inr i \<Rightarrow> map_sum id (apfst (Cons (n, x))) (flag_parse spec args'))))))))"
  by pat_completeness auto
termination
  by (relation "measure (\<lambda>(spec, args). length args)") auto

declare flag_parse.simps(2) [simp del]

text \<open>The last value set wins.\<close>

definition flag_value :: "string \<Rightarrow> string \<Rightarrow> (string \<times> string) list \<Rightarrow> string" where
  "flag_value n dflt vs = (case map_of (rev vs) n of None \<Rightarrow> dflt | Some x \<Rightarrow> x)"

definition flag_set :: "string \<Rightarrow> (string \<times> string) list \<Rightarrow> bool" where
  "flag_set n vs = (parse_bool (flag_value n ''false'' vs) = Some True)"

definition flag_int :: "string \<Rightarrow> int \<Rightarrow> (string \<times> string) list \<Rightarrow> int" where
  "flag_int n dflt vs =
     (case map_of (rev vs) n of None \<Rightarrow> dflt | Some x \<Rightarrow> (case parse_int0 x of Inl e \<Rightarrow> dflt | Inr i \<Rightarrow> i))"

lemma flag_parse_positional: "p = [] \<or> hd p \<noteq> CHR ''-'' \<Longrightarrow> flag_parse spec (p # args) = Inr ([], p # args)"
  by (subst flag_parse.simps) auto

text \<open>A string flag with its value as the next argument.\<close>

lemma flag_parse_string:
  assumes "n = c # t" and "c \<noteq> CHR ''-''" and "c \<noteq> CHR ''=''" and "CHR ''='' \<notin> set t" and "spec n = Some FString"
  shows "flag_parse spec ((''--'' @ n) # x # args) = map_sum id (apfst (Cons (n, x))) (flag_parse spec args)"
proof -
  have "index_byte t CHR ''='' = None" using assms(4) by (simp add: index_byte_None)
  then have "split_flag n = (n, None)" by (simp add: split_flag_def assms(1))
  then show ?thesis using assms by (subst flag_parse.simps) (simp add: has_prefix_def Let_def)
qed

text \<open>An integer flag with its value in the same argument.\<close>

lemma flag_parse_int:
  assumes "n = c # t" and "c \<noteq> CHR ''-''" and "c \<noteq> CHR ''=''" and "CHR ''='' \<notin> set t" and "spec n = Some FInt"
    and "- (2 ^ 63) \<le> i" and "i < 2 ^ 63"
  shows "flag_parse spec ((''--'' @ n @ ''='' @ int_dec i) # args) = map_sum id (apfst (Cons (n, int_dec i))) (flag_parse spec args)"
proof -
  have "index_byte (t @ ''='' @ int_dec i) CHR ''='' = Some (length t)" using assms(4) by (simp add: index_byte_append)
  then have "split_flag (n @ ''='' @ int_dec i) = (n, Some (int_dec i))" by (simp add: split_flag_def assms(1))
  then show ?thesis using assms by (subst flag_parse.simps) (simp add: has_prefix_def Let_def parse_int0_int_dec)
qed

section \<open>The arguments of logs\<close>

record LogsArgs =
  la_name :: string
  la_lines :: int
  la_json :: bool
  la_follow :: bool
  la_all :: bool
  la_since :: string
  la_grep :: string

definition logs_defaults :: LogsArgs where
  "logs_defaults = \<lparr>la_name = [], la_lines = 50, la_json = False, la_follow = False, la_all = False, la_since = [], la_grep = []\<rparr>"

definition parsePositiveInt :: "string \<Rightarrow> string \<Rightarrow> string + int" where
  "parsePositiveInt label v =
     (case atoi v of None \<Rightarrow> Inl (label @ '' must be a positive integer'')
      | Some n \<Rightarrow> if n \<le> 0 then Inl (label @ '' must be a positive integer'') else Inr n)"

fun parse_logs :: "LogsArgs \<Rightarrow> string list \<Rightarrow> string + LogsArgs" where
  "parse_logs a [] = Inr a"
| "parse_logs a (arg # args) =
     (if arg = ''--json'' then parse_logs (a\<lparr>la_json := True\<rparr>) args
      else if arg = ''-f'' \<or> arg = ''--follow'' then parse_logs (a\<lparr>la_follow := True\<rparr>) args
      else if arg = ''--all'' \<or> arg = ''-a'' then parse_logs (a\<lparr>la_all := True\<rparr>) args
      else if arg = ''-n'' \<or> arg = ''--lines'' then
        (case args of [] \<Rightarrow> Inl (''logs: '' @ arg @ '' requires a value'')
         | v # rest \<Rightarrow> (case parsePositiveInt (''logs: '' @ arg) v of Inl e \<Rightarrow> Inl e
                       | Inr n \<Rightarrow> parse_logs (a\<lparr>la_lines := n\<rparr>) rest))
      else if has_prefix arg ''-n='' then
        (case parsePositiveInt ''logs: -n'' (trim_prefix arg ''-n='') of Inl e \<Rightarrow> Inl e
         | Inr n \<Rightarrow> parse_logs (a\<lparr>la_lines := n\<rparr>) args)
      else if has_prefix arg ''--lines='' then
        (case parsePositiveInt ''logs: --lines'' (trim_prefix arg ''--lines='') of Inl e \<Rightarrow> Inl e
         | Inr n \<Rightarrow> parse_logs (a\<lparr>la_lines := n\<rparr>) args)
      else if arg = ''--since'' then
        (case args of [] \<Rightarrow> Inl ''logs: --since requires a value'' | v # rest \<Rightarrow> parse_logs (a\<lparr>la_since := v\<rparr>) rest)
      else if has_prefix arg ''--since='' then parse_logs (a\<lparr>la_since := trim_prefix arg ''--since=''\<rparr>) args
      else if arg = ''--grep'' then
        (case args of [] \<Rightarrow> Inl ''logs: --grep requires a value'' | v # rest \<Rightarrow> parse_logs (a\<lparr>la_grep := v\<rparr>) rest)
      else if has_prefix arg ''--grep='' then parse_logs (a\<lparr>la_grep := trim_prefix arg ''--grep=''\<rparr>) args
      else if has_prefix arg ''-'' then Inl (''logs: unknown flag '' @ arg)
      else if la_name a = [] then parse_logs (a\<lparr>la_name := arg\<rparr>) args
      else Inl (''logs: unexpected argument '' @ arg))"

definition parseLogsArgs :: "string list \<Rightarrow> string + LogsArgs" where
  "parseLogsArgs args = parse_logs logs_defaults args"

section \<open>The dispatch of main\<close>

datatype command =
    CUsageError | CStart "string list" | CStop "string list" | CRestart "string list" | CDelete "string list"
  | CList "string list" | CLogs "string list" | CExec "string list" | CValidate "string list" | CWeb "string list"
  | CUI "string list" | CCompletion "string list" | CService "string list" | CDaemon | CShutdown | CHelp | CUnknown string

definition choose_command :: "string list \<Rightarrow> command" where
  "choose_command args =
     (case args of [] \<Rightarrow> CUsageError
      | cmd # rest \<Rightarrow>
         if cmd = ''start'' then CStart rest else if cmd = ''stop'' then CStop rest
         else if cmd = ''restart'' then CRestart rest else if cmd = ''delete'' then CDelete rest
         else if cmd = ''list'' \<or> cmd = ''ls'' then CList rest else if cmd = ''logs'' then CLogs rest
         else if cmd = ''exec'' then CExec rest else if cmd = ''validate'' then CValidate rest
         else if cmd = ''web'' then CWeb rest else if cmd = ''ui'' then CUI rest
         else if cmd = ''completion'' then CCompletion rest else if cmd = ''generate-service'' then CService rest
         else if cmd = ''daemon'' then CDaemon else if cmd = ''shutdown'' then CShutdown
         else if cmd = ''-h'' \<or> cmd = ''--help'' \<or> cmd = ''help'' then CHelp else CUnknown cmd)"

definition DefaultAddr :: string where
  "DefaultAddr = ''127.0.0.1:6119''"

text \<open>The daemon address, whether it was given, and the command.\<close>

definition parse_main :: "string list \<Rightarrow> (string \<times> bool) \<times> command" where
  "parse_main args =
     (if 2 \<le> length args \<and> args ! 0 = ''-host'' then ((args ! 1, True), choose_command (drop 2 args))
      else ((DefaultAddr, False), choose_command args))"

section \<open>Any option in any place\<close>

datatype logs_opt = OLines bool int | OJson | OFollow | OAll | OSince bool string | OGrep bool string | OName string

text \<open>An option as the user writes it, with its value attached or as the next argument.\<close>

fun write_opt :: "logs_opt \<Rightarrow> string list" where
  "write_opt (OLines True n) = [''-n='' @ int_dec n]"
| "write_opt (OLines False n) = [''-n'', int_dec n]"
| "write_opt OJson = [''--json'']"
| "write_opt OFollow = [''-f'']"
| "write_opt OAll = [''--all'']"
| "write_opt (OSince True s) = [''--since='' @ s]"
| "write_opt (OSince False s) = [''--since'', s]"
| "write_opt (OGrep True s) = [''--grep='' @ s]"
| "write_opt (OGrep False s) = [''--grep'', s]"
| "write_opt (OName n) = [n]"

fun opt_effect :: "logs_opt \<Rightarrow> LogsArgs \<Rightarrow> LogsArgs" where
  "opt_effect (OLines b n) a = a\<lparr>la_lines := n\<rparr>"
| "opt_effect OJson a = a\<lparr>la_json := True\<rparr>"
| "opt_effect OFollow a = a\<lparr>la_follow := True\<rparr>"
| "opt_effect OAll a = a\<lparr>la_all := True\<rparr>"
| "opt_effect (OSince b s) a = a\<lparr>la_since := s\<rparr>"
| "opt_effect (OGrep b s) a = a\<lparr>la_grep := s\<rparr>"
| "opt_effect (OName n) a = a\<lparr>la_name := n\<rparr>"

fun opt_ok :: "logs_opt \<Rightarrow> bool" where
  "opt_ok (OLines b n) \<longleftrightarrow> 0 < n \<and> n < 2 ^ 63"
| "opt_ok (OName n) \<longleftrightarrow> n \<noteq> [] \<and> hd n \<noteq> CHR ''-''"
| "opt_ok _ \<longleftrightarrow> True"

fun is_name :: "logs_opt \<Rightarrow> bool" where
  "is_name (OName n) \<longleftrightarrow> True"
| "is_name _ \<longleftrightarrow> False"

lemma parsePositiveInt_int_dec: "0 < n \<Longrightarrow> n < 2 ^ 63 \<Longrightarrow> parsePositiveInt label (int_dec n) = Inr n"
  using atoi_int_dec [of n] by (simp add: parsePositiveInt_def)

lemma parse_logs_opt:
  assumes "opt_ok opt" and "is_name opt \<Longrightarrow> la_name a = []"
  shows "parse_logs a (write_opt opt @ args) = parse_logs (opt_effect opt a) args"
proof (cases opt)
  case (OLines b n)
  then show ?thesis using assms parsePositiveInt_int_dec [of n]
    by (cases b) (simp_all add: has_prefix_def trim_prefix_def)
next
  case (OSince b s)
  then show ?thesis by (cases b) (simp_all add: has_prefix_def trim_prefix_def)
next
  case (OGrep b s)
  then show ?thesis by (cases b) (simp_all add: has_prefix_def trim_prefix_def)
next
  case (OName n)
  then show ?thesis using assms by (cases n) (simp_all add: has_prefix_def)
qed simp_all

text \<open>The arguments of \<open>gopm logs\<close> may come in any order, values attached or not, values that look
  like flags included, with at most one name: parsing gives each option its effect, a later one
  of a kind overriding an earlier one.\<close>

theorem logs_args_any_order:
  assumes "\<And>opt. opt \<in> set opts \<Longrightarrow> opt_ok opt" and "length (filter is_name opts) \<le> 1"
  shows "parseLogsArgs (concat (map write_opt opts)) = Inr (foldl (\<lambda>a opt. opt_effect opt a) logs_defaults opts)"
proof -
  have "parse_logs a (concat (map write_opt opts)) = Inr (foldl (\<lambda>a opt. opt_effect opt a) a opts)"
    if "filter is_name opts \<noteq> [] \<Longrightarrow> la_name a = []" for a
    using assms that
  proof (induction opts arbitrary: a)
    case (Cons opt opts)
    have "filter is_name opts \<noteq> [] \<Longrightarrow> la_name (opt_effect opt a) = []"
      using Cons.prems by (cases opt) (auto split: if_splits)
    moreover have "length (filter is_name opts) \<le> 1" using Cons.prems(2) by (simp split: if_splits)
    moreover have "parse_logs a (write_opt opt @ concat (map write_opt opts)) = parse_logs (opt_effect opt a) (concat (map write_opt opts))"
      by (rule parse_logs_opt) (use Cons.prems in auto)
    ultimately show ?case using Cons.IH [of "opt_effect opt a"] Cons.prems(1) by simp
  qed simp
  then show ?thesis by (simp add: parseLogsArgs_def logs_defaults_def)
qed

theorem logs_args_any_order_witness:
  "parseLogsArgs [''-n'', int_dec 5, ''web'', ''--grep'', ''--json'', ''-f'']
    = Inr \<lparr>la_name = ''web'', la_lines = 5, la_json = False, la_follow = True, la_all = False, la_since = [], la_grep = ''--json''\<rparr>"
proof -
  let ?opts = "[OLines False 5, OName ''web'', OGrep False ''--json'', OFollow]"
  have "opt_ok opt" if "opt \<in> set [OLines False 5, OName ''web'', OGrep False ''--json'', OFollow]" for opt
    using that by auto
  then have "parseLogsArgs (concat (map write_opt ?opts)) = Inr (foldl (\<lambda>a opt. opt_effect opt a) logs_defaults ?opts)"
    by (intro logs_args_any_order) simp_all
  then show ?thesis by (simp add: logs_defaults_def)
qed

end
