(* ===== verification/Scripts.thy ===== *)
theory Scripts
  imports Cli_Args
begin

text \<open>
  The texts \<open>cmd/gopm/main.go\<close> prints, line by line: the usage, the completion scripts of the three
  shells and the service files. The commands a script offers are read off its text and compared
  with those the dispatch of \<open>main\<close> knows.
\<close>

section \<open>The usage and the completion scripts\<close>

definition usage_lines :: "string list" where
  "usage_lines = [
     ''gopm '' @ [CHR 0xE2, CHR 0x80, CHR 0x94] @ '' process manager'',
     [],
     ''Usage:'',
     ''  gopm [-host addr] <command> [flags]'',
     [],
     ''Commands:'',
     ''  start <gopm.yaml> [--group <name>]   Load config and start all (or group) apps'',
     ''  stop <name>                          Stop a process'',
     ''  restart <name>                       Restart a process'',
     ''  delete <name>                        Stop and remove a process'',
     ''  list [--json] [--names]              Show all managed processes'',
     ''  logs <name|--all> [-n N] [-f]        Tail or follow process logs'',
     ''       [--since <duration|RFC3339>]    Filter logs by time'',
     ''       [--grep <pattern>]              Filter logs by substring'',
     ''  exec <name> -- <cmd> [args...]       Run a command in a process's environment'',
     ''  validate <gopm.yaml>                 Validate a config file'',
     ''  web [--port 6120]                    Start web dashboard'',
     ''  ui                                   Live-refreshing process table (Ctrl+C to quit)'',
     ''  completion <bash|zsh|powershell>     Print shell completion script'',
     ''  generate-service [--type systemd|windows]  Generate service installer'',
     ''  daemon                               Explicitly launch the daemon'',
     ''  shutdown                             Gracefully stop the daemon'',
     [],
     ''Global flags:'',
     ''  -host <addr>    Daemon address (default 127.0.0.1:6119)'']"

definition bash_script :: "string list" where
  "bash_script = [
     ''# gopm bash completion'',
     ''# Add to ~/.bashrc:  source <(gopm completion bash)'',
     ''_gopm_completion() {'',
     ''  local cur=\"${COMP_WORDS[COMP_CWORD]}\"'',
     ''  local prev=\"${COMP_WORDS[COMP_CWORD-1]}\"'',
     ''  local cmds=\"start stop restart delete list ls logs exec validate web ui completion generate-service daemon shutdown\"'',
     ''  case \"$prev\" in'',
     ''    stop|restart|delete|logs|exec)'',
     ''      COMPREPLY=($(compgen -W \"$(gopm list --names 2>/dev/null)\" -- \"$cur\"))'',
     ''      return ;;'',
     ''    gopm)'',
     ''      COMPREPLY=($(compgen -W \"$cmds\" -- \"$cur\"))'',
     ''      return ;;'',
     ''  esac'',
     ''  COMPREPLY=($(compgen -W \"$cmds\" -- \"$cur\"))'',
     ''}'',
     ''complete -F _gopm_completion gopm'']"

definition zsh_script :: "string list" where
  "zsh_script = [
     ''# gopm zsh completion'',
     ''# Add to ~/.zshrc:  source <(gopm completion zsh)'',
     ''_gopm() {'',
     ''  local -a cmds'',
     ''  cmds=('',
     ''    'start:Load config and start apps'' @ [CHR 0x27],
     ''    'stop:Stop a process'' @ [CHR 0x27],
     ''    'restart:Restart a process'' @ [CHR 0x27],
     ''    'delete:Stop and remove a process'' @ [CHR 0x27],
     ''    'list:Show all managed processes'' @ [CHR 0x27],
     ''    'logs:Tail process logs'' @ [CHR 0x27],
     ''    'exec:Run a command in a process env'' @ [CHR 0x27],
     ''    'validate:Validate config file'' @ [CHR 0x27],
     ''    'web:Start web dashboard'' @ [CHR 0x27],
     ''    'ui:Live process table'' @ [CHR 0x27],
     ''    'completion:Shell completion'' @ [CHR 0x27],
     ''    'generate-service:Generate service installer'' @ [CHR 0x27],
     ''    'daemon:Launch daemon'' @ [CHR 0x27],
     ''    'shutdown:Stop daemon'' @ [CHR 0x27],
     ''  )'',
     ''  if (( CURRENT == 2 )); then'',
     ''    _describe 'command' cmds'',
     ''  elif (( CURRENT > 2 )); then'',
     ''    case \"${words[2]}\" in'',
     ''      stop|restart|delete|logs|exec)'',
     ''        local -a names'',
     ''        names=(${(f)\"$(gopm list --names 2>/dev/null)\"})'',
     ''        _describe 'process' names ;;'',
     ''    esac'',
     ''  fi'',
     ''}'',
     ''compdef _gopm gopm'']"

definition powershell_script :: "string list" where
  "powershell_script = [
     ''# gopm PowerShell completion'',
     ''# Add to $PROFILE:  . <(gopm completion powershell)'',
     ''Register-ArgumentCompleter -Native -CommandName gopm -ScriptBlock {'',
     ''  param($wordToComplete, $commandAst, $cursorPosition)'',
     ''  $cmds = @('start','stop','restart','delete','list','ls','logs','exec','validate','web','ui','completion','generate-service','daemon','shutdown')'',
     ''  $words = $commandAst.CommandElements'',
     ''  if ($words.Count -ge 3) {'',
     ''    switch ($words[1]) {'',
     ''      { $_ -in 'stop','restart','delete','logs','exec' } {'',
     ''        gopm list --names 2>$null | Where-Object { $_ -like \"$wordToComplete*\" } |'',
     ''          ForEach-Object { [System.Management.Automation.CompletionResult]::new($_, $_, 'ParameterValue', $_) }'',
     ''        return'',
     ''      }'',
     ''    }'',
     ''  }'',
     ''  $cmds | Where-Object { $_ -like \"$wordToComplete*\" } |'',
     ''    ForEach-Object { [System.Management.Automation.CompletionResult]::new($_, $_, 'ParameterValue', $_) }'',
     ''}'']"

section \<open>The service files\<close>

definition systemd_unit :: "string \<Rightarrow> string \<Rightarrow> string \<Rightarrow> string list" where
  "systemd_unit daemonBin user dir = [
     ''[Unit]'', ''Description=gopm daemon'', ''After=network.target'', [],
     ''[Service]'', ''ExecStart='' @ daemonBin, ''Restart=always'', ''RestartSec=5'', ''User='' @ user, ''WorkingDirectory='' @ dir, [],
     ''[Install]'', ''WantedBy=multi-user.target'']"

definition systemd_hint :: "string list" where
  "systemd_hint = [
     [], ''# To install:'', ''#   sudo cp gopmd /usr/local/bin/'', ''#   sudo cp gopm.service /etc/systemd/system/'',
     ''#   sudo systemctl daemon-reload'', ''#   sudo systemctl enable --now gopm'']"

definition sc_commands :: "string \<Rightarrow> string list" where
  "sc_commands daemonBin = [
     ''# Install gopmd as a Windows Service using sc.exe:'', ''# (Run these commands as Administrator)'', [],
     ''sc create gopmd binPath= \"'' @ daemonBin @ ''\" start= auto'',
     ''sc description gopmd \"gopm process manager daemon\"'', ''sc start gopmd'', [],
     ''# To stop and remove:'', ''#   sc stop gopmd'', ''#   sc delete gopmd'']"

section \<open>What the scripts offer\<close>

text \<open>The text between a prefix \<open>a\<close> of the line and the next \<open>b\<close> after it.\<close>

definition between :: "string \<Rightarrow> char \<Rightarrow> string \<Rightarrow> string list" where
  "between a b l = (if has_prefix l a then [takeWhile (\<lambda>c. c \<noteq> b) (drop (length a) l)] else [])"

fun words_of :: "(char \<Rightarrow> bool) \<Rightarrow> string \<Rightarrow> string \<Rightarrow> string list" where
  "words_of sep w [] = (if w = [] then [] else [rev w])"
| "words_of sep w (c # s) = (if sep c then (if w = [] then [] else [rev w]) @ words_of sep [] s else words_of sep (c # w) s)"

definition bash_commands :: "string list" where
  "bash_commands = concat (map (words_of (\<lambda>c. c = CHR '' '') []) (concat (map (between ''  local cmds=\"'' CHR 0x22) bash_script)))"

definition zsh_commands :: "string list" where
  "zsh_commands = concat (map (between (''    '' @ [CHR 0x27]) CHR '':'') zsh_script)"

definition powershell_commands :: "string list" where
  "powershell_commands = concat (map (words_of (\<lambda>c. c = CHR '','' \<or> c = CHR 0x27) [])
     (concat (map (between ''  $cmds = @('' CHR '')'') powershell_script)))"

text \<open>The first word of each line of the list of commands that is indented by two blanks.\<close>

definition usage_commands :: "string list" where
  "usage_commands = concat (map (\<lambda>l. if l \<noteq> [] \<and> l ! 2 \<noteq> CHR '' '' then between ''  '' CHR '' '' l else [])
     (takeWhile (\<lambda>l. l \<noteq> ''Global flags:'') (tl (dropWhile (\<lambda>l. l \<noteq> ''Commands:'') usage_lines))))"

lemma script_commands:
  "bash_commands = [''start'', ''stop'', ''restart'', ''delete'', ''list'', ''ls'', ''logs'', ''exec'', ''validate'', ''web'', ''ui'',
     ''completion'', ''generate-service'', ''daemon'', ''shutdown'']"
  "powershell_commands = bash_commands"
  "zsh_commands = remove1 ''ls'' bash_commands"
  "usage_commands = zsh_commands"
  by code_simp+

lemma known_commands: "list_all (\<lambda>c. choose_command (c # rest) \<noteq> CUnknown c) (bash_commands @ [''-h'', ''--help'', ''help''])"
  unfolding script_commands(1) by (simp add: choose_command_def)

lemma unknown_command:
  "cmd \<notin> set bash_commands \<Longrightarrow> cmd \<notin> {''-h'', ''--help'', ''help''} \<Longrightarrow> choose_command (cmd # rest) = CUnknown cmd"
  unfolding script_commands(1) by (simp add: choose_command_def)

section \<open>Properties\<close>

text \<open>C28. The completion scripts for bash and PowerShell offer exactly the commands the dispatch of \<open>main\<close>
  knows, but for the three spellings of help; those of zsh and the usage leave out only the short name \<open>ls\<close>.\<close>

theorem completions_match_dispatch:
  "(choose_command (cmd # rest) \<noteq> CUnknown cmd) = (cmd \<in> set bash_commands \<union> {''-h'', ''--help'', ''help''})
   \<and> set powershell_commands = set bash_commands \<and> set zsh_commands = set bash_commands - {''ls''}
   \<and> set usage_commands = set zsh_commands"
proof (intro conjI)
  show "(choose_command (cmd # rest) \<noteq> CUnknown cmd) = (cmd \<in> set bash_commands \<union> {''-h'', ''--help'', ''help''})"
    using known_commands [of rest] unknown_command [of cmd rest] by (auto simp: list_all_iff)
  show "set zsh_commands = set bash_commands - {''ls''}"
    unfolding script_commands(3) by (rule set_remove1_eq) (simp add: script_commands(1))
qed (simp_all only: script_commands(2,4))

end
