(* ===== verification/Utf8.thy ===== *)
theory Utf8
  imports Go_Strings Complex_Main
begin

text \<open>
  What the program uses of \<open>unicode/utf8\<close> and of the number verbs of \<open>fmt\<close>: the runes of a byte
  string (\<open>RuneCountInString\<close>, where every byte that does not belong to a valid sequence counts as
  one rune), the verb \<open>%q\<close>, the verb \<open>%.Nf\<close> on the exact value of a \<open>float64\<close>, and the rounding
  of a \<open>uint64\<close> to a \<open>float64\<close>.
\<close>

section \<open>Runes\<close>

abbreviation byte_of :: "char \<Rightarrow> nat" where
  "byte_of c \<equiv> of_char c"

definition ascii :: "char \<Rightarrow> bool" where
  "ascii c \<longleftrightarrow> byte_of c < 0x80"

text \<open>The length of the sequence a first byte announces, 0 for a byte that starts none.\<close>

definition seq_len :: "char \<Rightarrow> nat" where
  "seq_len c =
     (if byte_of c < 0x80 then 1 else if byte_of c < 0xC2 then 0 else if byte_of c < 0xE0 then 2
      else if byte_of c < 0xF0 then 3 else if byte_of c < 0xF5 then 4 else 0)"

definition continuation :: "char \<Rightarrow> bool" where
  "continuation c \<longleftrightarrow> 0x80 \<le> byte_of c \<and> byte_of c \<le> 0xBF"

definition second_ok :: "char \<Rightarrow> char \<Rightarrow> bool" where
  "second_ok c d \<longleftrightarrow>
     (if byte_of c = 0xE0 then 0xA0 else if byte_of c = 0xF0 then 0x90 else 0x80) \<le> byte_of d
     \<and> byte_of d \<le> (if byte_of c = 0xED then 0x9F else if byte_of c = 0xF4 then 0x8F else 0xBF)"

text \<open>The valid multi-byte sequence that starts a string, if one does.\<close>

definition wide_len :: "string \<Rightarrow> nat option" where
  "wide_len s =
     (case s of c # d # t \<Rightarrow>
        if 2 \<le> seq_len c \<and> seq_len c \<le> length s \<and> second_ok c d \<and> list_all continuation (take (seq_len c - 2) t)
        then Some (seq_len c) else None
      | _ \<Rightarrow> None)"

definition rune_len :: "string \<Rightarrow> nat" where
  "rune_len s = (case wide_len s of None \<Rightarrow> 1 | Some n \<Rightarrow> n)"

lemma wide_len_bounds: "wide_len s = Some n \<Longrightarrow> 2 \<le> n \<and> n \<le> length s"
  by (auto simp: wide_len_def split: list.splits if_splits)

lemma rune_len_pos [simp]: "0 < rune_len s"
  by (auto simp: rune_len_def split: option.splits dest: wide_len_bounds)

function rune_count :: "string \<Rightarrow> nat" where
  "rune_count s = (if s = [] then 0 else Suc (rune_count (drop (rune_len s) s)))"
  by pat_completeness auto
termination
  by (relation "measure length") auto

declare rune_count.simps [simp del]

lemma rune_count_Nil [simp]: "rune_count [] = 0"
  by (simp add: rune_count.simps)

lemma ascii_not_second: "ascii d \<Longrightarrow> \<not> second_ok c d"
  by (auto simp: ascii_def second_ok_def)

lemma ascii_not_continuation: "ascii d \<Longrightarrow> \<not> continuation d"
  by (simp add: ascii_def continuation_def)

lemma ascii_seq_len: "ascii c \<Longrightarrow> seq_len c = 1"
  by (simp add: ascii_def seq_len_def)

lemma rune_count_ascii: "ascii c \<Longrightarrow> rune_count (c # s) = Suc (rune_count s)"
  by (subst rune_count.simps) (auto simp: rune_len_def wide_len_def ascii_seq_len split: list.splits option.splits)

text \<open>An ASCII byte ends any sequence that is not complete: the runes before it do not depend on
  what follows.\<close>

lemma wide_len_append:
  assumes "ascii a" and "xs \<noteq> []"
  shows "wide_len (xs @ a # ys) = wide_len xs"
proof (cases xs)
  case (Cons c xs')
  show ?thesis
  proof (cases xs')
    case Nil
    then show ?thesis using assms Cons by (simp add: wide_len_def ascii_not_second)
  next
    case (Cons d t)
    have "list_all continuation (take (seq_len c - 2) (t @ a # ys)) \<and> seq_len c \<le> Suc (Suc (length t + Suc (length ys)))
        \<longleftrightarrow> list_all continuation (take (seq_len c - 2) t) \<and> seq_len c \<le> Suc (Suc (length t))"
    proof (cases "seq_len c - 2 \<le> length t")
      case True
      then show ?thesis by auto
    next
      case False
      then have "a \<in> set (take (seq_len c - 2) (t @ a # ys))"
        by (cases "seq_len c - 2 - length t") auto
      then show ?thesis using False ascii_not_continuation [OF assms(1)] by (auto simp: list_all_iff)
    qed
    then show ?thesis using \<open>xs = c # xs'\<close> Cons by (auto simp: wide_len_def)
  qed
qed (use assms in simp)

lemma rune_count_append:
  assumes "ascii a"
  shows "rune_count (xs @ a # ys) = rune_count xs + rune_count (a # ys)"
proof (induction xs rule: rune_count.induct)
  case (1 s)
  show ?case
  proof (cases "s = []")
    case False
    then have len: "rune_len (s @ a # ys) = rune_len s" by (simp add: rune_len_def wide_len_append [OF assms])
    have "rune_len s \<le> length s"
      using False by (cases s) (auto simp: rune_len_def split: option.splits dest: wide_len_bounds)
    then have "drop (rune_len s) (s @ a # ys) = drop (rune_len s) s @ a # ys" by simp
    then show ?thesis
      using 1 False by (subst rune_count.simps, subst (2) rune_count.simps) (simp add: len)
  qed simp
qed

lemma rune_count_all_ascii: "list_all ascii s \<Longrightarrow> rune_count s = length s"
  by (induction s) (simp_all add: rune_count_ascii)

text \<open>A three-byte rune, whatever follows it.\<close>

lemma rune_count_three:
  assumes "seq_len c = 3" and "second_ok c d" and "continuation e"
  shows "rune_count (c # d # e # s) = Suc (rune_count s)"
  using assms by (subst rune_count.simps) (simp add: rune_len_def wide_len_def)

section \<open>Quoting\<close>

text \<open>
  The verb \<open>%q\<close>. \<open>is_print\<close> is the table of \<open>strconv.IsPrint\<close> beyond ASCII, applied to the bytes
  of a rune; the code points of the \<open>\<backslash>u\<close> and \<open>\<backslash>U\<close> escapes are in hexadecimal.
\<close>

definition hex_digit :: "nat \<Rightarrow> char" where
  "hex_digit d = (if d < 10 then char_of (48 + d) else char_of (87 + d))"

fun hex :: "nat \<Rightarrow> nat \<Rightarrow> string" where
  "hex 0 n = []"
| "hex (Suc k) n = hex k (n div 16) @ [hex_digit (n mod 16)]"

definition code_point :: "string \<Rightarrow> nat" where
  "code_point bs =
     (case bs of [] \<Rightarrow> 0
      | c # t \<Rightarrow> foldl (\<lambda>v d. v * 64 + byte_of d mod 64) (byte_of c mod 2 ^ (7 - length bs)) t)"

definition backslash :: char where
  "backslash = CHR 0x5C"

definition quote_byte :: "char \<Rightarrow> string" where
  "quote_byte c =
     (if c = CHR 0x22 \<or> c = backslash then [backslash, c]
      else if 0x20 \<le> byte_of c \<and> byte_of c < 0x7F then [c]
      else if byte_of c = 7 then backslash # ''a'' else if byte_of c = 8 then backslash # ''b''
      else if byte_of c = 12 then backslash # ''f'' else if byte_of c = 10 then backslash # ''n''
      else if byte_of c = 13 then backslash # ''r'' else if byte_of c = 9 then backslash # ''t''
      else if byte_of c = 11 then backslash # ''v''
      else backslash # CHR ''x'' # hex 2 (byte_of c))"

definition quote_wide :: "(string \<Rightarrow> bool) \<Rightarrow> string \<Rightarrow> string" where
  "quote_wide is_print bs =
     (if is_print bs then bs
      else if code_point bs < 0x10000 then backslash # CHR ''u'' # hex 4 (code_point bs)
      else backslash # CHR ''U'' # hex 8 (code_point bs))"

function quote_body :: "(string \<Rightarrow> bool) \<Rightarrow> string \<Rightarrow> string" where
  "quote_body is_print s =
     (case s of [] \<Rightarrow> []
      | c # t \<Rightarrow> (case wide_len s of
            None \<Rightarrow> quote_byte c @ quote_body is_print t
          | Some n \<Rightarrow> quote_wide is_print (take n s) @ quote_body is_print (drop n s)))"
  by pat_completeness auto
termination
  by (relation "measure (\<lambda>(p, s). length s)") (auto dest: wide_len_bounds)

declare quote_body.simps [simp del]

definition go_quote :: "(string \<Rightarrow> bool) \<Rightarrow> string \<Rightarrow> string" where
  "go_quote is_print s = CHR 0x22 # quote_body is_print s @ [CHR 0x22]"

text \<open>What a quoted string is read back from: the part up to the closing quote, escapes kept.\<close>

fun skip_quoted :: "string \<Rightarrow> (string \<times> string) option" where
  "skip_quoted [] = None"
| "skip_quoted (c # s) =
     (if c = CHR 0x22 then Some ([], s)
      else if c = backslash then
        (case s of [] \<Rightarrow> None | d # t \<Rightarrow> map_option (map_prod (append [c, d]) id) (skip_quoted t))
      else map_option (map_prod (append [c]) id) (skip_quoted s))"

definition plain_char :: "char \<Rightarrow> bool" where
  "plain_char c \<longleftrightarrow> c \<noteq> CHR 0x22 \<and> c \<noteq> backslash \<and> c \<noteq> CHR 0x0A"

lemma byte_of_hex_digit: "d < 16 \<Longrightarrow> byte_of (hex_digit d) = (if d < 10 then 48 + d else 87 + d)"
  by (simp add: hex_digit_def)

lemma plain_char_byte: "byte_of c \<noteq> 0x22 \<Longrightarrow> byte_of c \<noteq> 0x5C \<Longrightarrow> byte_of c \<noteq> 0x0A \<Longrightarrow> plain_char c"
  by (auto simp: plain_char_def backslash_def)

lemma plain_hex_digit: "d < 16 \<Longrightarrow> plain_char (hex_digit d)"
  by (rule plain_char_byte) (auto simp: byte_of_hex_digit split: if_splits)

lemma plain_hex: "list_all plain_char (hex k n)"
  by (induction k arbitrary: n) (simp_all add: plain_hex_digit)

lemma prepend_simps [simp]:
  "map_option (map_prod (append p) id) (map_option (map_prod (append q) id) m) = map_option (map_prod (append (p @ q)) id) m"
  "map_option (map_prod (append []) id) m = m"
  by (cases m; auto)+

lemma skip_quoted_plain:
  "list_all plain_char q \<Longrightarrow> skip_quoted (q @ s) = map_option (map_prod (append q) id) (skip_quoted s)"
  by (induction q) (auto simp: plain_char_def)

text \<open>A piece of quoted text: the reader passes it whole.\<close>

definition piece :: "string \<Rightarrow> bool" where
  "piece q \<longleftrightarrow> CHR 0x0A \<notin> set q \<and> (\<forall>s. skip_quoted (q @ s) = map_option (map_prod (append q) id) (skip_quoted s))"

lemma piece_plain: "list_all plain_char q \<Longrightarrow> piece q"
  unfolding piece_def using skip_quoted_plain by (auto simp: list_all_iff plain_char_def)

lemma piece_escape:
  assumes "c \<noteq> CHR 0x0A" and "list_all plain_char q"
  shows "piece (backslash # c # q)"
proof -
  have "skip_quoted (backslash # c # q @ s) = map_option (map_prod (append [backslash, c]) id) (skip_quoted (q @ s))" for s
    by (simp add: backslash_def)
  moreover have "CHR 0x0A \<notin> set q" using assms(2) by (auto simp: list_all_iff plain_char_def)
  moreover have "backslash \<noteq> CHR 0x0A" by (simp add: backslash_def)
  ultimately show ?thesis
    using assms skip_quoted_plain [OF assms(2)]
    unfolding piece_def by auto
qed

lemma piece_append: "piece p \<Longrightarrow> piece q \<Longrightarrow> piece (p @ q)"
  by (simp add: piece_def)

lemma piece_Nil: "piece []"
  by (simp add: piece_def)

lemma piece_byte: "piece (quote_byte c)"
proof -
  have esc: "piece [backslash, d]" if "d \<noteq> CHR 0x0A" for d using piece_escape [OF that, of "[]"] by simp
  have hex: "piece (backslash # CHR ''x'' # hex 2 (byte_of c))" by (rule piece_escape) (simp_all only: plain_hex, simp)
  have plain: "piece [c]" if "c \<noteq> CHR 0x22" "c \<noteq> backslash" "0x20 \<le> byte_of c"
    by (rule piece_plain) (use that in \<open>auto simp: plain_char_def\<close>)
  have "backslash \<noteq> CHR 0x0A" by (simp add: backslash_def)
  then show ?thesis unfolding quote_byte_def by (auto intro!: esc hex plain)
qed

lemma wide_bytes:
  assumes "wide_len s = Some n"
  shows "list_all (\<lambda>c. 0x80 \<le> byte_of c) (take n s)"
proof -
  obtain c d t where s: "s = c # d # t" and n: "n = seq_len c" "2 \<le> seq_len c" "second_ok c d"
      "list_all continuation (take (seq_len c - 2) t)"
    using assms by (auto simp: wide_len_def split: list.splits if_splits)
  have "take n s = c # d # take (seq_len c - 2) t" using n by (simp add: s take_Cons' numeral_2_eq_2)
  moreover have "0x80 \<le> byte_of c" using n(2) by (auto simp: seq_len_def split: if_splits)
  moreover have "0x80 \<le> byte_of d" using n(3) by (auto simp: second_ok_def split: if_splits)
  moreover have "list_all (\<lambda>c. 0x80 \<le> byte_of c) (take (seq_len c - 2) t)"
    using n(4) by (auto simp: list_all_iff continuation_def)
  ultimately show ?thesis by simp
qed

lemma piece_wide:
  assumes "wide_len s = Some n"
  shows "piece (quote_wide is_print (take n s))"
proof -
  have "list_all plain_char (take n s)"
    using wide_bytes [OF assms] by (auto simp: list_all_iff intro!: plain_char_byte)
  then show ?thesis
    using piece_escape [OF _ plain_hex] unfolding quote_wide_def by (auto intro: piece_plain)
qed

lemma piece_quote_body: "piece (quote_body is_print s)"
proof (induction is_print s rule: quote_body.induct)
  case (1 is_print s)
  show ?case
  proof (cases s)
    case Nil
    then show ?thesis by (simp add: quote_body.simps piece_Nil)
  next
    case (Cons c t)
    then show ?thesis
      using 1 piece_byte [of c] piece_wide [of s _ is_print]
      by (subst quote_body.simps) (auto split: option.splits intro!: piece_append)
  qed
qed

lemma skip_go_quote: "skip_quoted (quote_body is_print s @ CHR 0x22 # r) = Some (quote_body is_print s, r)"
  using piece_quote_body [of is_print s] by (simp add: piece_def)

lemma go_quote_one_line: "CHR 0x0A \<notin> set (go_quote is_print s)"
  using piece_quote_body [of is_print s] by (simp add: go_quote_def piece_def)

section \<open>Numbers\<close>

text \<open>\<open>%.df\<close>: the exact value, rounded to \<open>d\<close> decimals, halves to even.\<close>

definition round_even :: "rat \<Rightarrow> int" where
  "round_even r =
     (let f = \<lfloor>r\<rfloor>; d = r - of_int f in
      if d < 1 / 2 then f else if d > 1 / 2 then f + 1 else if even f then f else f + 1)"

fun dec_pad :: "nat \<Rightarrow> nat \<Rightarrow> string" where
  "dec_pad 0 n = []"
| "dec_pad (Suc k) n = dec_pad k (n div 10) @ [digit_char (n mod 10)]"

definition fmt_f :: "nat \<Rightarrow> rat \<Rightarrow> string" where
  "fmt_f d r =
     (let q = nat (round_even (abs r * 10 ^ d)) in
      (if r < 0 then ''-'' else []) @ nat_dec (q div 10 ^ d) @ (if d = 0 then [] else CHR ''.'' # dec_pad d (q mod 10 ^ d)))"

text \<open>The 53-bit rounding of a natural number, halves to even.\<close>

fun excess_bits :: "nat \<Rightarrow> nat" where
  "excess_bits n = (if n < 2 ^ 53 then 0 else Suc (excess_bits (n div 2)))"

declare excess_bits.simps [simp del]

definition float_of_nat :: "nat \<Rightarrow> nat" where
  "float_of_nat n =
     (let k = excess_bits n; q = n div 2 ^ k; r = n mod 2 ^ k; h = 2 ^ k div 2 in
      if k = 0 \<or> r < h \<or> (r = h \<and> even q) then q * 2 ^ k else (q + 1) * 2 ^ k)"

lemma float_of_nat_exact [simp]: "n < 2 ^ 53 \<Longrightarrow> float_of_nat n = n"
  by (simp add: float_of_nat_def excess_bits.simps [of n])

end
