(* ===== verification/Config.thy ===== *)
theory Config
  imports Go_Paths
begin

text \<open>
  The configuration model (\<open>pkg/config/config.go\<close>): the YAML-facing structs as records with the
  source's field names, \<open>Load\<close>, \<open>Validate\<close> and \<open>ResolvePath\<close>. Reading the file and the YAML
  decoder are arguments of \<open>Load\<close>. A Go map of strings is an association list with distinct
  keys: its order stands for the order in which Go happens to range over it.
\<close>

section \<open>Model\<close>

record WatchConfig =
  wc_Enabled :: bool
  wc_Dirs :: "string list"
  wc_Extensions :: "string list"
  wc_Ignore :: "string list"
  wc_BuildCmd :: string
  wc_DebounceMs :: int

record HealthCheckConfig =
  hcc_URL :: string
  hcc_Interval :: string
  hcc_Timeout :: string
  hcc_Retries :: int

record OnCrashConfig =
  oc_Webhook :: string

record AppConfig =
  ac_Name :: string
  ac_Command :: string
  ac_Args :: "string list"
  ac_Cwd :: string
  ac_Env :: "(string \<times> string) list"
  ac_EnvFile :: string
  ac_AutoRestart :: bool
  ac_MaxRestarts :: int
  ac_LogFile :: string
  ac_Watch :: WatchConfig
  ac_PreStart :: string
  ac_DependsOn :: "string list"
  ac_HealthCheck :: HealthCheckConfig
  ac_OnCrash :: OnCrashConfig
  ac_Groups :: "string list"
  ac_Port :: int
  ac_LogMaxSizeMB :: int
  ac_LogMaxBackups :: int

record GopmConfig =
  gc_Apps :: "AppConfig list"

text \<open>The zero value of the struct, what the decoder leaves in the fields a file does not set.\<close>

definition zero_app :: AppConfig where
  "zero_app = \<lparr>ac_Name = [], ac_Command = [], ac_Args = [], ac_Cwd = [], ac_Env = [],
     ac_EnvFile = [], ac_AutoRestart = False, ac_MaxRestarts = 0, ac_LogFile = [],
     ac_Watch = \<lparr>wc_Enabled = False, wc_Dirs = [], wc_Extensions = [], wc_Ignore = [],
       wc_BuildCmd = [], wc_DebounceMs = 0\<rparr>,
     ac_PreStart = [], ac_DependsOn = [],
     ac_HealthCheck = \<lparr>hcc_URL = [], hcc_Interval = [], hcc_Timeout = [], hcc_Retries = 0\<rparr>,
     ac_OnCrash = \<lparr>oc_Webhook = []\<rparr>, ac_Groups = [], ac_Port = 0,
     ac_LogMaxSizeMB = 0, ac_LogMaxBackups = 0\<rparr>"

datatype config_error =
    ReadConfig string
  | ParseConfig string
  | NoApps
  | NameRequired nat
  | DuplicateName string
  | CommandRequired string

text \<open>The loop of \<open>Validate\<close> at index \<open>i\<close> with the names seen so far.\<close>

fun validate_from :: "nat \<Rightarrow> string set \<Rightarrow> AppConfig list \<Rightarrow> config_error option" where
  "validate_from i seen [] = None"
| "validate_from i seen (a # as) =
     (if ac_Name a = [] then Some (NameRequired i)
      else if ac_Name a \<in> seen then Some (DuplicateName (ac_Name a))
      else if ac_Command a = [] then Some (CommandRequired (ac_Name a))
      else validate_from (Suc i) (insert (ac_Name a) seen) as)"

definition Validate :: "GopmConfig \<Rightarrow> config_error option" where
  "Validate c = (if gc_Apps c = [] then Some NoApps else validate_from 0 {} (gc_Apps c))"

definition Load ::
  "(string \<Rightarrow> string + string) \<Rightarrow> (string \<Rightarrow> string + GopmConfig) \<Rightarrow> string \<Rightarrow> config_error + GopmConfig"
where
  "Load readFile unmarshal path =
     (case readFile path of Inl e \<Rightarrow> Inl (ReadConfig e)
      | Inr body \<Rightarrow>
        (case unmarshal body of Inl e \<Rightarrow> Inl (ParseConfig e)
         | Inr cfg \<Rightarrow> (case Validate cfg of Some e \<Rightarrow> Inl e | None \<Rightarrow> Inr cfg)))"

definition ResolvePath :: "string \<Rightarrow> string \<Rightarrow> string" where
  "ResolvePath configPath p = (if p = [] \<or> is_abs p then p else path_join [path_dir configPath, p])"

section \<open>Lemmas\<close>

definition app_complete :: "AppConfig \<Rightarrow> bool" where
  "app_complete a \<longleftrightarrow> ac_Name a \<noteq> [] \<and> ac_Command a \<noteq> []"

lemma validate_from_None:
  "validate_from i seen as = None \<longleftrightarrow>
     list_all app_complete as \<and> distinct (map ac_Name as) \<and> seen \<inter> ac_Name ` set as = {}"
  by (induction i seen as rule: validate_from.induct) (auto simp: app_complete_def)

text \<open>What is wrong with app \<open>k\<close> of the list, given the names before it.\<close>

definition app_error :: "nat \<Rightarrow> string set \<Rightarrow> AppConfig list \<Rightarrow> nat \<Rightarrow> config_error option" where
  "app_error i seen as k =
     (let a = as ! k in
      if ac_Name a = [] then Some (NameRequired (i + k))
      else if ac_Name a \<in> seen \<union> ac_Name ` set (take k as) then Some (DuplicateName (ac_Name a))
      else if ac_Command a = [] then Some (CommandRequired (ac_Name a))
      else None)"

lemma app_error_Suc:
  "app_error i seen (a # as) (Suc k) = app_error (Suc i) (insert (ac_Name a) seen) as k"
  by (simp add: app_error_def Let_def)

lemma validate_from_first:
  "validate_from i seen as = Some e \<Longrightarrow>
     \<exists>k < length as. app_error i seen as k = Some e \<and> (\<forall>j < k. app_error i seen as j = None)"
proof (induction i seen as rule: validate_from.induct)
  case (1 i seen)
  then show ?case by simp
next
  case (2 i seen a as)
  show ?case
  proof (cases "app_error i seen (a # as) 0")
    case None
    then have ok: "ac_Name a \<noteq> []" "ac_Name a \<notin> seen" "ac_Command a \<noteq> []"
      by (auto simp: app_error_def split: if_splits)
    with "2.prems" have "validate_from (Suc i) (insert (ac_Name a) seen) as = Some e" by simp
    from "2.IH" [OF ok this] obtain k where k: "k < length as"
      "app_error i seen (a # as) (Suc k) = Some e"
      "\<forall>j < k. app_error i seen (a # as) (Suc j) = None"
      by (auto simp: app_error_Suc)
    then have "\<forall>j < Suc k. app_error i seen (a # as) j = None"
      using None by (auto simp: less_Suc_eq_0_disj)
    with k show ?thesis by (intro exI [of _ "Suc k"]) simp
  next
    case (Some e')
    then have "e' = e" using "2.prems" by (auto simp: app_error_def split: if_splits)
    with Some show ?thesis by (intro exI [of _ 0]) simp
  qed
qed

lemma Validate_None:
  "Validate c = None \<longleftrightarrow>
     gc_Apps c \<noteq> [] \<and> list_all app_complete (gc_Apps c) \<and> distinct (map ac_Name (gc_Apps c))"
  by (simp add: Validate_def validate_from_None)

section \<open>Properties\<close>

text \<open>A configuration passes \<open>Validate\<close> exactly when it has an app, every app has a name and
  a command, and no two apps share a name.\<close>

theorem validate_accepts_iff:
  "Validate c = None \<longleftrightarrow>
     gc_Apps c \<noteq> [] \<and> list_all (\<lambda>a. ac_Name a \<noteq> [] \<and> ac_Command a \<noteq> []) (gc_Apps c)
     \<and> distinct (map ac_Name (gc_Apps c))"
  by (simp add: Validate_None app_complete_def [abs_def])

text \<open>When \<open>Validate\<close> rejects a configuration that has apps, the error is that of the first
  bad app: no app before it has an error, and its own is a missing name, an earlier app's name,
  or a missing command, in this order of precedence.\<close>

theorem validate_reports_first_bad_app:
  assumes "Validate c = Some e" and "gc_Apps c \<noteq> []"
  shows "\<exists>k < length (gc_Apps c). app_error 0 {} (gc_Apps c) k = Some e
           \<and> (\<forall>j < k. app_error 0 {} (gc_Apps c) j = None)"
  using assms by (intro validate_from_first) (simp add: Validate_def)

theorem validate_reports_first_bad_app_witness:
  "\<exists>k < length [zero_app\<lparr>ac_Name := ''api'', ac_Command := ''go''\<rparr>,
               zero_app\<lparr>ac_Name := ''api'', ac_Command := ''go''\<rparr>, zero_app].
     app_error 0 {} [zero_app\<lparr>ac_Name := ''api'', ac_Command := ''go''\<rparr>,
               zero_app\<lparr>ac_Name := ''api'', ac_Command := ''go''\<rparr>, zero_app] k = Some (DuplicateName ''api'')"
  using validate_reports_first_bad_app
      [of "\<lparr>gc_Apps = [zero_app\<lparr>ac_Name := ''api'', ac_Command := ''go''\<rparr>,
               zero_app\<lparr>ac_Name := ''api'', ac_Command := ''go''\<rparr>, zero_app]\<rparr>" "DuplicateName ''api''"]
  by (auto simp: Validate_def)

end
