(* ===== verification/Ipc.thy ===== *)
theory Ipc
  imports Config Complex_Main
begin

text \<open>
  The wire types and the transport between the CLI and the daemon (\<open>internal/ipc/messages.go\<close>,
  \<open>server.go\<close>, \<open>client.go\<close>): one JSON line per request and per response. The codec is an argument
  here (\<open>Json_Wire\<close> has the one of the program), and so is the TCP connection: a connection is the bytes that arrive before it is closed.
\<close>

section \<open>Messages\<close>

record Request =
  rq_Command :: string
  rq_AppName :: string
  rq_Apps :: "AppConfig list"
  rq_Config :: "AppConfig option"
  rq_Lines :: int
  rq_Follow :: bool
  rq_All :: bool
  rq_Group :: string
  rq_ExecArgs :: "string list"
  rq_Since :: string
  rq_Grep :: string

text \<open>The CPU share is a rational number here, a \<open>float64\<close> in the program.\<close>

record ProcessInfo =
  pi_ID :: int
  pi_Name :: string
  pi_Status :: string
  pi_PID :: int
  pi_Restarts :: int
  pi_Uptime :: string
  pi_Watching :: bool
  pi_Memory :: nat
  pi_CPU :: rat

record Response =
  rs_OK :: bool
  rs_Error :: string
  rs_Message :: string
  rs_Processes :: "ProcessInfo list"
  rs_Logs :: "string list"

definition request :: "string \<Rightarrow> Request" where
  "request cmd = \<lparr>rq_Command = cmd, rq_AppName = [], rq_Apps = [], rq_Config = None, rq_Lines = 0, rq_Follow = False,
     rq_All = False, rq_Group = [], rq_ExecArgs = [], rq_Since = [], rq_Grep = []\<rparr>"

definition ok_resp :: "string \<Rightarrow> Response" where
  "ok_resp msg = \<lparr>rs_OK = True, rs_Error = [], rs_Message = msg, rs_Processes = [], rs_Logs = []\<rparr>"

definition errResp :: "string \<Rightarrow> Response" where
  "errResp msg = \<lparr>rs_OK = False, rs_Error = msg, rs_Message = [], rs_Processes = [], rs_Logs = []\<rparr>"

section \<open>Server and client\<close>

definition newline :: char where
  "newline = CHR 0x0A"

text \<open>\<open>ReadBytes ('\n')\<close>: the line without its newline and the rest, \<open>None\<close> when the connection
  ends first. The JSON decoders do not mind the newline.\<close>

definition read_line :: "string \<Rightarrow> (string \<times> string) option" where
  "read_line s =
     (case dropWhile (\<lambda>c. c \<noteq> newline) s of [] \<Rightarrow> None
      | c # t \<Rightarrow> Some (takeWhile (\<lambda>c. c \<noteq> newline) s, t))"

datatype served = Hangup | Served Response | Streamed Request

text \<open>\<open>handle\<close>: a handler that returns nil stands for a bare success; one that panics (the outer
  \<open>None\<close>) takes the daemon and the connection with it.\<close>

definition is_stream :: "string \<Rightarrow> bool" where
  "is_stream cmd = (cmd = ''logstream'' \<or> cmd = ''exec'')"

definition server_handle ::
  "(string \<Rightarrow> string + Request) \<Rightarrow> bool \<Rightarrow> (Request \<Rightarrow> 's \<Rightarrow> ('s \<times> Response option) option) \<Rightarrow> string \<Rightarrow> 's \<Rightarrow> 's \<times> served"
where
  "server_handle dec has_stream handler input s =
     (case read_line input of
        None \<Rightarrow> (s, Hangup)
      | Some (line, rest) \<Rightarrow>
        (case dec line of
           Inl e \<Rightarrow> (s, Served (errResp (''invalid json: '' @ e)))
         | Inr req \<Rightarrow>
            if is_stream (rq_Command req) then
              (s, if has_stream then Streamed req else Served (errResp ''streaming not supported''))
            else (case handler req s of
                    None \<Rightarrow> (s, Hangup)
                  | Some (s', None) \<Rightarrow> (s', Served (ok_resp []))
                  | Some (s', Some r) \<Rightarrow> (s', Served r))))"

datatype client_error = DialError string | MarshalRequest string | ReadResponse | ParseResponse string

text \<open>The request as bytes, and the parsing of what comes back.\<close>

definition client_request :: "(Request \<Rightarrow> string + string) \<Rightarrow> Request \<Rightarrow> client_error + string" where
  "client_request enc req = (case enc req of Inl e \<Rightarrow> Inl (MarshalRequest e) | Inr b \<Rightarrow> Inr (b @ [newline]))"

definition client_response :: "(string \<Rightarrow> string + Response) \<Rightarrow> string \<Rightarrow> client_error + Response" where
  "client_response dec answer =
     (case read_line answer of None \<Rightarrow> Inl ReadResponse
      | Some (line, rest) \<Rightarrow> (case dec line of Inl e \<Rightarrow> Inl (ParseResponse e) | Inr r \<Rightarrow> Inr r))"

text \<open>\<open>Send\<close> to a server: \<open>serve\<close> maps the bytes of the connection to the answering bytes.\<close>

definition Send ::
  "string option \<Rightarrow> (Request \<Rightarrow> string + string) \<Rightarrow> (string \<Rightarrow> string + Response) \<Rightarrow> (string \<Rightarrow> string) \<Rightarrow> Request \<Rightarrow> client_error + Response"
where
  "Send dial enc dec serve req =
     (case dial of Some e \<Rightarrow> Inl (DialError e)
      | None \<Rightarrow> (case client_request enc req of Inl e \<Rightarrow> Inl e | Inr b \<Rightarrow> client_response dec (serve b)))"

text \<open>\<open>writeResp\<close> ignores an encoder error, and \<open>Encode\<close> ends the line.\<close>

definition writeResp :: "(Response \<Rightarrow> string + string) \<Rightarrow> served \<Rightarrow> string" where
  "writeResp enc sv =
     (case sv of Served r \<Rightarrow> (case enc r of Inl e \<Rightarrow> [] | Inr b \<Rightarrow> b @ [newline]) | _ \<Rightarrow> [])"

definition Ping :: "string option \<Rightarrow> (Request \<Rightarrow> string + string) \<Rightarrow> (string \<Rightarrow> string + Response) \<Rightarrow> (string \<Rightarrow> string) \<Rightarrow> bool" where
  "Ping dial enc dec serve = (case Send dial enc dec serve (request ''ping'') of Inl e \<Rightarrow> False | Inr r \<Rightarrow> True)"

lemma read_line_shorter:
  assumes "read_line s = Some (l, t)"
  shows "length t < length s"
proof -
  obtain c where "dropWhile (\<lambda>c. c \<noteq> newline) s = c # t"
    using assms by (auto simp: read_line_def split: list.splits)
  then show ?thesis by (metis length_Cons length_dropWhile_le less_le_trans lessI)
qed

text \<open>
  The loop of \<open>Stream\<close>: the events the handler is called with, until the connection ends, or the
  handler (which sees how many events came before) returns false. Malformed lines are skipped.
\<close>

function client_stream :: "(string \<Rightarrow> 'e option) \<Rightarrow> (nat \<Rightarrow> 'e \<Rightarrow> bool) \<Rightarrow> nat \<Rightarrow> string \<Rightarrow> 'e list" where
  "client_stream dec cont n input =
     (case read_line input of None \<Rightarrow> []
      | Some (line, rest) \<Rightarrow>
        (case dec line of None \<Rightarrow> client_stream dec cont n rest
         | Some ev \<Rightarrow> ev # (if cont n ev then client_stream dec cont (Suc n) rest else [])))"
  by pat_completeness auto
termination
  by (relation "measure (\<lambda>(dec, cont, n, input). length input)") (auto dest: read_line_shorter)

declare client_stream.simps [simp del]

text \<open>\<open>Stream\<close>: an error before the loop, or the events; a connection that breaks is its normal end.\<close>

definition Stream ::
  "string option \<Rightarrow> (Request \<Rightarrow> string + string) \<Rightarrow> (string \<Rightarrow> 'e option) \<Rightarrow> (nat \<Rightarrow> 'e \<Rightarrow> bool) \<Rightarrow> (string \<Rightarrow> string) \<Rightarrow> Request
   \<Rightarrow> client_error option \<times> 'e list"
where
  "Stream dial enc dec cont serve req =
     (case dial of Some e \<Rightarrow> (Some (DialError e), [])
      | None \<Rightarrow> (case client_request enc req of Inl e \<Rightarrow> (Some e, []) | Inr b \<Rightarrow> (None, client_stream dec cont 0 (serve b))))"

section \<open>Properties\<close>

lemma read_line_newline: "newline \<notin> set l \<Longrightarrow> read_line (l @ newline # t) = Some (l, t)"
proof -
  assume "newline \<notin> set l"
  then have "dropWhile (\<lambda>c. c \<noteq> newline) (l @ newline # t) = newline # t"
    "takeWhile (\<lambda>c. c \<noteq> newline) (l @ newline # t) = l"
    by (induction l) auto
  then show ?thesis by (simp add: read_line_def)
qed

text \<open>One exchange: the state of the server after it and what the client gets.\<close>

definition exchange ::
  "(Request \<Rightarrow> string + string) \<Rightarrow> (string \<Rightarrow> string + Request) \<Rightarrow> (Response \<Rightarrow> string + string) \<Rightarrow> (string \<Rightarrow> string + Response) \<Rightarrow>
   bool \<Rightarrow> (Request \<Rightarrow> 's \<Rightarrow> ('s \<times> Response option) option) \<Rightarrow> Request \<Rightarrow> 's \<Rightarrow> 's \<times> (client_error + Response)"
where
  "exchange encq decq encr decr st handler req s =
     (case client_request encq req of Inl e \<Rightarrow> (s, Inl e)
      | Inr b \<Rightarrow> (case server_handle decq st handler b s of (s', sv) \<Rightarrow> (s', client_response decr (writeResp encr sv))))"

text \<open>What the codec does with one message: it is written on one line, and read as \<open>m'\<close>.\<close>

definition carries :: "('m \<Rightarrow> string + string) \<Rightarrow> (string \<Rightarrow> string + 'm) \<Rightarrow> 'm \<Rightarrow> 'm \<Rightarrow> bool" where
  "carries enc dec m m' \<longleftrightarrow> (\<exists>b. enc m = Inr b \<and> dec b = Inr m' \<and> newline \<notin> set b)"

definition nil_ok :: "Response option \<Rightarrow> Response" where
  "nil_ok out = (case out of None \<Rightarrow> ok_resp [] | Some r \<Rightarrow> r)"

lemma exchange_answer:
  assumes "carries encq decq req req'" and "carries encr decr (nil_ok out) resp"
    and "\<not> is_stream (rq_Command req')" and "handler req' s = Some (s', out)"
  shows "exchange encq decq encr decr st handler req s = (s', Inr resp)"
proof -
  obtain b where b: "encq req = Inr b" "decq b = Inr req'" "newline \<notin> set b" using assms(1) by (auto simp: carries_def)
  obtain c where c: "encr (nil_ok out) = Inr c" "decr c = Inr resp" "newline \<notin> set c" using assms(2) by (auto simp: carries_def)
  have line: "read_line (b @ [newline]) = Some (b, [])" "read_line (c @ [newline]) = Some (c, [])"
    using read_line_newline [OF b(3)] read_line_newline [OF c(3)] by simp_all
  have "server_handle decq st handler (b @ [newline]) s = (s', Served (nil_ok out))"
    using line b assms(3,4) by (cases out) (simp_all add: server_handle_def nil_ok_def)
  then show ?thesis using line b c by (simp add: exchange_def client_request_def client_response_def writeResp_def)
qed

lemma client_stream_line:
  "newline \<notin> set l \<Longrightarrow> client_stream dec cont n (l @ newline # t) =
     (case dec l of None \<Rightarrow> client_stream dec cont n t
      | Some ev \<Rightarrow> ev # (if cont n ev then client_stream dec cont (Suc n) t else []))"
  by (subst client_stream.simps) (simp add: read_line_newline)

text \<open>A client that follows a stream to its end is handed exactly the events of the well-formed
  lines, in order; malformed lines are skipped.\<close>

lemma stream_delivers_events:
  assumes "\<And>l. l \<in> set ls \<Longrightarrow> newline \<notin> set l"
  shows "client_stream dec (\<lambda>_ _. True) n (concat (map (\<lambda>l. l @ [newline]) ls)) = List.map_filter dec ls"
  using assms
proof (induction ls arbitrary: n)
  case Nil
  then show ?case by (subst client_stream.simps) (simp add: read_line_def map_filter_simps)
next
  case (Cons l ls)
  then show ?case using client_stream_line [of l dec "\<lambda>_ _. True" n] by (auto simp: map_filter_simps split: option.splits)
qed

lemma stream_delivers_events_witness:
  "client_stream (\<lambda>l. if l = ''bad'' then None else Some l) (\<lambda>_ _. True) 0 (''x'' @ [newline] @ ''bad'' @ [newline] @ ''y'' @ [newline]) = [''x'', ''y'']"
  using stream_delivers_events [of "[''x'', ''bad'', ''y'']" "\<lambda>l. if l = ''bad'' then None else Some l" 0]
  by (force simp: newline_def map_filter_simps)

end
