(* ===== verification/Table.thy ===== *)
theory Table
  imports Utf8 Ipc
begin

text \<open>
  The process table of the CLI (\<open>renderList\<close>, \<open>padRight\<close>, \<open>colorize\<close>, \<open>formatMemory\<close> of
  \<open>cmd/gopm/main.go\<close>): the lines printed, as byte strings. Columns are aligned by runes, colours
  are ANSI escape sequences that take no place on the screen.
\<close>

unbundle bit_operations_syntax

text \<open>Whether the output is a terminal: the mode \<open>Stat\<close> gives, if it gives one; colours only then.\<close>

definition ModeCharDevice :: "32 word" where
  "ModeCharDevice = push_bit 21 1"

definition isTTY :: "string + 32 word \<Rightarrow> bool" where
  "isTTY stat = (case stat of Inl e \<Rightarrow> False | Inr mode \<Rightarrow> mode AND ModeCharDevice \<noteq> 0)"

section \<open>Cells\<close>

definition formatMemory :: "nat \<Rightarrow> string" where
  "formatMemory b =
     (let f = rat_of_nat (float_of_nat b) in
      if b = 0 then ''-''
      else if b \<ge> 1024 * 1024 * 1024 then fmt_f 1 (f / (1024 * 1024 * 1024)) @ ''G''
      else if b \<ge> 1024 * 1024 then fmt_f 1 (f / (1024 * 1024)) @ ''M''
      else if b \<ge> 1024 then fmt_f 1 (f / 1024) @ ''K''
      else nat_dec b @ ''B'')"

definition list_headers :: "string list" where
  "list_headers = [''id'', ''name'', ''status'', ''pid'', ''restarts'', ''uptime'', ''memory'', ''cpu%'', ''watching'']"

definition list_row :: "ProcessInfo \<Rightarrow> string list" where
  "list_row p =
     [int_dec (pi_ID p), pi_Name p, pi_Status p, if pi_PID p > 0 then int_dec (pi_PID p) else ''-'',
      int_dec (pi_Restarts p), pi_Uptime p, formatMemory (pi_Memory p),
      if pi_CPU p > 0 then fmt_f 1 (pi_CPU p) @ ''%'' else ''-'',
      if pi_Watching p then [CHR 0xE2, CHR 0x9C, CHR 0x93] else [CHR 0xE2, CHR 0x9C, CHR 0x97]]"

definition col_widths :: "string list list \<Rightarrow> nat list" where
  "col_widths rows = foldl (\<lambda>ws row. map2 (\<lambda>w c. max w (rune_count c)) ws row) (map rune_count list_headers) rows"

definition padRight :: "string \<Rightarrow> nat \<Rightarrow> string" where
  "padRight s width = s @ replicate (width - rune_count s) CHR '' ''"

definition esc :: char where
  "esc = CHR 0x1B"

definition color_code :: "string \<Rightarrow> string" where
  "color_code s =
     (if s = ''online'' \<or> s = ''ready'' then ''32''
      else if s = ''starting'' \<or> s = ''building'' then ''33''
      else if s = ''errored'' \<or> s = ''build_failed'' \<or> s = ''unhealthy'' then ''31''
      else if s = ''stopped'' then ''90'' else ''0'')"

definition colorize :: "string \<Rightarrow> nat \<Rightarrow> string" where
  "colorize s width =
     esc # ''['' @ color_code s @ ''m'' @ s @ esc # ''[0m'' @ replicate (width - rune_count s) CHR '' ''"

section \<open>Lines\<close>

definition box :: "char \<Rightarrow> string" where
  "box c = [CHR 0xE2, CHR 0x94, c]"

fun border_cells :: "string \<Rightarrow> nat list \<Rightarrow> string" where
  "border_cells mid [] = []"
| "border_cells mid [w] = concat (replicate (w + 2) (box CHR 0x80))"
| "border_cells mid (w # v # ws) = concat (replicate (w + 2) (box CHR 0x80)) @ mid @ border_cells mid (v # ws)"

definition border :: "char \<Rightarrow> char \<Rightarrow> char \<Rightarrow> nat list \<Rightarrow> string" where
  "border l m r ws = box l @ border_cells (box m) ws @ box r"

text \<open>A row: column 2, the status, is coloured unless it is the header.\<close>

definition cell_text :: "bool \<Rightarrow> bool \<Rightarrow> nat \<Rightarrow> string \<Rightarrow> nat \<Rightarrow> string" where
  "cell_text color header i cell w = (if \<not> header \<and> i = 2 \<and> color then colorize cell w else padRight cell w)"

fun row_cells :: "bool \<Rightarrow> bool \<Rightarrow> nat \<Rightarrow> string list \<Rightarrow> nat list \<Rightarrow> string" where
  "row_cells color header i (c # cs) (w # ws) =
     '' '' @ cell_text color header i c w @ '' '' @ box CHR 0x82 @ row_cells color header (Suc i) cs ws"
| "row_cells color header i _ _ = []"

definition table_row :: "bool \<Rightarrow> bool \<Rightarrow> nat list \<Rightarrow> string list \<Rightarrow> string" where
  "table_row color header ws cells = box CHR 0x82 @ row_cells color header 0 cells ws"

definition renderList :: "bool \<Rightarrow> ProcessInfo list \<Rightarrow> string list" where
  "renderList color infos =
     (if infos = [] then [''no processes'']
      else (let rows = map list_row infos; ws = col_widths rows in
        [border CHR 0x8C CHR 0xAC CHR 0x90 ws, table_row color True ws list_headers, border CHR 0x9C CHR 0xBC CHR 0xA4 ws]
        @ map (table_row color False ws) rows @ [border CHR 0x94 CHR 0xB4 CHR 0x98 ws]))"

section \<open>What is seen on the screen\<close>

text \<open>A terminal shows the text without the escape sequences.\<close>

function strip_sgr :: "string \<Rightarrow> string" where
  "strip_sgr s =
     (case s of [] \<Rightarrow> []
      | c # t \<Rightarrow>
         if c = esc then (case dropWhile (\<lambda>x. x \<noteq> CHR ''m'') t of [] \<Rightarrow> [] | d # u \<Rightarrow> strip_sgr u)
         else c # strip_sgr t)"
  by pat_completeness auto
termination
proof (relation "measure length")
  fix s :: string and c t d u
  assume s: "s = c # t" and d: "dropWhile (\<lambda>x. x \<noteq> CHR ''m'') t = d # u"
  have "length (d # u) \<le> length t" unfolding d [symmetric] by (rule length_dropWhile_le)
  then show "(u, s) \<in> measure length" by (simp add: s)
qed auto

declare strip_sgr.simps [simp del]

lemma strip_sgr_Nil [simp]: "strip_sgr [] = []"
  by (simp add: strip_sgr.simps)

lemma strip_sgr_plain: "esc \<notin> set p \<Longrightarrow> strip_sgr (p @ t) = p @ strip_sgr t"
  by (induction p) (auto simp: strip_sgr.simps [of "_ # _"])

lemma strip_sgr_id: "esc \<notin> set p \<Longrightarrow> strip_sgr p = p"
  using strip_sgr_plain [of p "[]"] by simp

lemma strip_sgr_code: "CHR ''m'' \<notin> set q \<Longrightarrow> strip_sgr (esc # q @ CHR ''m'' # t) = strip_sgr t"
proof -
  assume "CHR ''m'' \<notin> set q"
  then have "dropWhile (\<lambda>x. x \<noteq> CHR ''m'') (q @ CHR ''m'' # t) = CHR ''m'' # t" by (induction q) auto
  then show ?thesis by (subst strip_sgr.simps) simp
qed

lemma strip_colorize:
  assumes "esc \<notin> set c"
  shows "strip_sgr (colorize c w @ t) = padRight c w @ strip_sgr t"
proof -
  have m: "CHR ''m'' \<notin> set (CHR ''['' # color_code c)" by (simp add: color_code_def)
  have sp: "esc \<notin> set (replicate n CHR '' '')" for n by (simp add: esc_def)
  have "strip_sgr (colorize c w @ t) = c @ strip_sgr (esc # ''[0m'' @ replicate (w - rune_count c) CHR '' '' @ t)"
    using strip_sgr_code [OF m] strip_sgr_plain [OF assms] by (simp add: colorize_def)
  also have "\<dots> = c @ replicate (w - rune_count c) CHR '' '' @ strip_sgr t"
    using strip_sgr_code [of "''[0''"] strip_sgr_plain [OF sp] by simp
  finally show ?thesis by (simp add: padRight_def)
qed

lemma strip_cell: "esc \<notin> set c \<Longrightarrow> strip_sgr (cell_text color header i c w @ t) = padRight c w @ strip_sgr t"
  using strip_sgr_plain [of "padRight c w" t] strip_colorize [of c w t]
  by (auto simp: cell_text_def padRight_def esc_def)

lemma strip_box: "c \<noteq> esc \<Longrightarrow> strip_sgr (box c @ t) = box c @ strip_sgr t"
  by (rule strip_sgr_plain) (auto simp: box_def esc_def)

lemma strip_blank: "strip_sgr (CHR '' '' # t) = CHR '' '' # strip_sgr t"
  using strip_sgr_plain [of "'' ''" t] by (simp add: esc_def)

lemma strip_row_cells:
  "(\<And>c. c \<in> set cs \<Longrightarrow> esc \<notin> set c) \<Longrightarrow> strip_sgr (row_cells color header i cs ws) = row_cells False header i cs ws"
proof (induction color header i cs ws rule: row_cells.induct)
  case (1 color header i c cs w ws)
  have "cell_text False header i c w = padRight c w" by (simp add: cell_text_def)
  moreover have "CHR 0x82 \<noteq> esc" by (simp add: esc_def)
  ultimately show ?case using 1 by (simp add: strip_blank strip_cell strip_box)
qed simp_all

section \<open>Alignment\<close>

lemma rune_count_box:
  "rune_count (box c @ t) = Suc (rune_count t)" if "continuation c"
  unfolding box_def using that
  by (simp add: rune_count_three seq_len_def second_ok_def)

lemma ascii_blank: "ascii CHR '' ''"
  by (simp add: ascii_def)

lemma rune_count_blanks: "rune_count (p @ replicate n CHR '' '' @ CHR '' '' # t) = rune_count p + n + Suc (rune_count t)"
proof (induction n arbitrary: p)
  case 0
  then show ?case using rune_count_append [OF ascii_blank, of p t] by (simp add: rune_count_ascii ascii_blank)
next
  case (Suc n)
  then show ?case using Suc [of "[]"] rune_count_append [OF ascii_blank, of p "replicate n CHR '' '' @ CHR '' '' # t"]
    by (simp add: rune_count_ascii ascii_blank)
qed

lemma rune_count_padded: "rune_count (padRight c w @ CHR '' '' # t) = max w (rune_count c) + Suc (rune_count t)"
  using rune_count_blanks [of c "w - rune_count c" t] by (simp add: padRight_def)

lemma rune_count_row_cells:
  "list_all2 (\<lambda>c w. rune_count c \<le> w) cs ws \<Longrightarrow> rune_count (row_cells False header i cs ws) = (\<Sum>w\<leftarrow>ws. w + 3)"
proof (induction "False" header i cs ws rule: row_cells.induct)
  case (1 header i c cs w ws)
  have "continuation CHR 0x82" by (simp add: continuation_def)
  then show ?case
    using 1 by (simp add: cell_text_def rune_count_ascii ascii_blank rune_count_padded rune_count_box)
qed simp_all

lemma rune_count_rule: "rune_count (concat (replicate n (box CHR 0x80)) @ t) = n + rune_count t"
  by (induction n) (simp_all add: rune_count_box continuation_def)

lemma rune_count_border_cells:
  assumes "continuation m"
  shows "ws \<noteq> [] \<Longrightarrow> rune_count (border_cells (box m) ws @ t) = (\<Sum>w\<leftarrow>ws. w + 3) - 1 + rune_count t"
proof (induction "box m" ws rule: border_cells.induct)
  case (2 w)
  then show ?case using rune_count_rule [of "w + 2" t] by simp
next
  case (3 w v ws)
  then show ?case
    using rune_count_rule [of "w + 2" "box m @ border_cells (box m) (v # ws) @ t"] by (simp add: rune_count_box [OF assms])
qed simp

lemma rune_count_border:
  assumes "continuation l" "continuation m" "continuation r" "ws \<noteq> []"
  shows "rune_count (border l m r ws) = Suc (\<Sum>w\<leftarrow>ws. w + 3)"
proof -
  have "rune_count (box r) = 1" using rune_count_box [OF assms(3), of "[]"] by simp
  moreover have "1 \<le> (\<Sum>w\<leftarrow>ws. w + 3)" using assms(4) by (cases ws) auto
  ultimately show ?thesis
    using assms by (simp add: border_def rune_count_box rune_count_border_cells)
qed

text \<open>The columns are wide enough for every cell.\<close>

definition fits :: "string list \<Rightarrow> nat list \<Rightarrow> bool" where
  "fits cs ws \<longleftrightarrow> list_all2 (\<lambda>c w. rune_count c \<le> w) cs ws"

definition widen :: "nat list \<Rightarrow> string list \<Rightarrow> nat list" where
  "widen ws row = map2 (\<lambda>w c. max w (rune_count c)) ws row"

lemma fits_widen: "fits cs ws \<Longrightarrow> length row = length ws \<Longrightarrow> fits cs (widen ws row)"
  by (auto simp: fits_def widen_def list_all2_conv_all_nth intro: le_max_iff_disj [THEN iffD2])

lemma fits_widen_row: "length row = length ws \<Longrightarrow> fits row (widen ws row)"
  by (auto simp: fits_def widen_def list_all2_conv_all_nth)

lemma length_widen [simp]: "length (widen ws row) = min (length ws) (length row)"
  by (simp add: widen_def)

lemma fits_foldl:
  "(\<And>r. r \<in> set rows \<Longrightarrow> length r = length ws) \<Longrightarrow> fits cs ws \<Longrightarrow> fits cs (foldl widen ws rows)"
  by (induction rows arbitrary: ws) (simp_all add: fits_widen)

lemma fits_rows:
  "(\<And>r. r \<in> set rows \<Longrightarrow> length r = length ws) \<Longrightarrow> r \<in> set rows \<Longrightarrow> fits r (foldl widen ws rows)"
proof (induction rows arbitrary: ws)
  case (Cons row rows)
  have len: "length (widen ws row) = length ws" using Cons.prems(1) [of row] by simp
  show ?case
  proof (cases "r = row")
    case True
    then show ?thesis
      using fits_foldl [of rows "widen ws row" row] fits_widen_row [of row ws] Cons.prems(1) len by simp
  next
    case False
    then show ?thesis using Cons.IH [of "widen ws row"] Cons.prems len by simp
  qed
qed simp

lemma col_widths_widen: "col_widths rows = foldl widen (map rune_count list_headers) rows"
  unfolding col_widths_def widen_def ..

lemma col_widths_fit: "fits list_headers (col_widths (map list_row ps))" "p \<in> set ps \<Longrightarrow> fits (list_row p) (col_widths (map list_row ps))"
proof -
  have len: "length r = length (map rune_count list_headers)" if "r \<in> set (map list_row ps)" for r
    using that by (auto simp: list_row_def list_headers_def)
  have "fits list_headers (map rune_count list_headers)" by (simp add: fits_def list_all2_conv_all_nth)
  then show "fits list_headers (col_widths (map list_row ps))"
    unfolding col_widths_widen using fits_foldl [of "map list_row ps"] len by blast
  show "p \<in> set ps \<Longrightarrow> fits (list_row p) (col_widths (map list_row ps))"
    unfolding col_widths_widen using fits_rows [of "map list_row ps" _ "list_row p"] len by (simp only: set_map imageI)
qed

lemma rune_count_table_row:
  "fits cs ws \<Longrightarrow> rune_count (table_row False header ws cs) = Suc (\<Sum>w\<leftarrow>ws. w + 3)"
  by (simp add: table_row_def fits_def rune_count_box rune_count_row_cells continuation_def)

text \<open>No cell but the name, the status and the uptime can hold an escape character.\<close>

lemma esc_not_digit: "d < 10 \<Longrightarrow> digit_char d \<noteq> esc"
proof -
  have "digit_val esc = None" by (simp add: digit_val_def esc_def)
  then show "d < 10 \<Longrightarrow> digit_char d \<noteq> esc" by (metis digit_val_char option.distinct(1))
qed

lemma esc_nat_dec [simp]: "esc \<notin> set (nat_dec n)"
  using set_nat_dec [of n] esc_not_digit by fastforce

lemma esc_int_dec [simp]: "esc \<notin> set (int_dec i)"
  by (simp add: int_dec_def esc_def [symmetric]) (simp add: esc_def)

lemma esc_dec_pad [simp]: "esc \<notin> set (dec_pad k n)"
proof (induction k arbitrary: n)
  case (Suc k)
  have "digit_char (n mod 10) \<noteq> esc" by (rule esc_not_digit) simp
  then show ?case using Suc by auto
qed simp

lemma esc_fmt_f [simp]: "esc \<notin> set (fmt_f d r)"
proof -
  have "esc \<noteq> CHR ''-''" "esc \<noteq> CHR ''.''" by (simp_all add: esc_def)
  then show ?thesis by (simp add: fmt_f_def Let_def)
qed

lemma esc_formatMemory [simp]: "esc \<notin> set (formatMemory b)"
proof -
  have "esc \<notin> set ''-''" "esc \<notin> set ''G''" "esc \<notin> set ''M''" "esc \<notin> set ''K''" "esc \<notin> set ''B''" by (simp_all add: esc_def)
  then show ?thesis unfolding formatMemory_def Let_def by simp
qed

definition no_esc :: "ProcessInfo \<Rightarrow> bool" where
  "no_esc p \<longleftrightarrow> esc \<notin> set (pi_Name p) \<and> esc \<notin> set (pi_Status p) \<and> esc \<notin> set (pi_Uptime p)"

lemma list_row_no_esc: "no_esc p \<Longrightarrow> c \<in> set (list_row p) \<Longrightarrow> esc \<notin> set c"
proof -
  assume p: "no_esc p" and c: "c \<in> set (list_row p)"
  have "esc \<notin> set ''-''" "esc \<notin> set ''%''" "esc \<notin> set [CHR 0xE2, CHR 0x9C, CHR 0x93]" "esc \<notin> set [CHR 0xE2, CHR 0x9C, CHR 0x97]"
    by (simp_all add: esc_def)
  then show ?thesis using p c by (auto simp: list_row_def no_esc_def split: if_splits)
qed

lemma headers_no_esc: "c \<in> set list_headers \<Longrightarrow> esc \<notin> set c"
  by (auto simp: list_headers_def esc_def)

lemma esc_border: "l \<noteq> esc \<Longrightarrow> m \<noteq> esc \<Longrightarrow> r \<noteq> esc \<Longrightarrow> esc \<notin> set (border l m r ws)"
proof -
  assume a: "l \<noteq> esc" "m \<noteq> esc" "r \<noteq> esc"
  have b: "esc \<notin> set (box c)" if "c \<noteq> esc" for c using that by (auto simp: box_def esc_def)
  have "CHR 0x80 \<noteq> esc" by (simp add: esc_def)
  then have h: "esc \<notin> set (concat (replicate n (box CHR 0x80)))" for n using b by auto
  have "esc \<notin> set (border_cells (box m) ws)"
    by (induction "box m" ws rule: border_cells.induct) (use h b [OF a(2)] in \<open>simp_all only: border_cells.simps set_append Un_iff, simp_all\<close>)
  then show ?thesis using b a by (simp add: border_def)
qed

lemma strip_table_row:
  "(\<And>c. c \<in> set cs \<Longrightarrow> esc \<notin> set c) \<Longrightarrow> strip_sgr (table_row color header ws cs) = table_row False header ws cs"
proof -
  assume a: "\<And>c. c \<in> set cs \<Longrightarrow> esc \<notin> set c"
  have "CHR 0x82 \<noteq> esc" by (simp add: esc_def)
  then show ?thesis using strip_row_cells [OF a] by (simp add: table_row_def strip_box)
qed

section \<open>Properties\<close>


definition demo_info :: ProcessInfo where
  "demo_info = \<lparr>pi_ID = 0, pi_Name = [CHR 0xC3, CHR 0xA9, CHR 0xE2], pi_Status = ''online'', pi_PID = 41, pi_Restarts = 0,
     pi_Uptime = ''5s'', pi_Watching = True, pi_Memory = 2048, pi_CPU = 1 / 8\<rparr>"


end
