(* ===== verification/Health_Check.thy ===== *)
theory Health_Check
  imports Go_Strings
begin

text \<open>
  The HTTP health checker (\<open>internal/healthcheck/healthcheck.go\<close>): the defaults of \<open>New\<close> and the
  goroutine \<open>run\<close> as a state machine over its tickers, its stop channel, the context and the
  consumer of its status channel, which holds 4 values and drops what does not fit. A tick
  carries what the HTTP request returned: a status code, or \<open>None\<close> for an error.
\<close>

section \<open>Model\<close>

datatype hc_status = HcUnknown | HcReady | HcUnhealthy

record Checker =
  ck_url :: string
  ck_interval :: int
  ck_timeout :: int
  ck_retries :: int

abbreviation second :: int where
  "second \<equiv> 1000000000"

definition hc_New :: "string \<Rightarrow> int \<Rightarrow> int \<Rightarrow> int \<Rightarrow> Checker" where
  "hc_New url interval timeout retries =
     \<lparr>ck_url = url,
      ck_interval = (if interval \<le> 0 then 5 * second else interval),
      ck_timeout = (if timeout \<le> 0 then 2 * second else timeout),
      ck_retries = (if retries \<le> 0 then 3 else retries)\<rparr>"

definition hc_check :: "int option \<Rightarrow> bool" where
  "hc_check resp = (case resp of None \<Rightarrow> False | Some code \<Rightarrow> 200 \<le> code \<and> code < 400)"

text \<open>The variables of \<open>run\<close>, the channel's buffer, whether it is closed, and \<open>stopCh\<close>.\<close>

record hc_state =
  hk_failures :: int
  hk_current :: hc_status
  hk_queue :: "hc_status list"
  hk_closed :: bool
  hk_stop :: bool

definition hc_init :: hc_state where
  "hc_init = \<lparr>hk_failures = 0, hk_current = HcUnknown, hk_queue = [], hk_closed = False, hk_stop = False\<rparr>"

datatype hc_ev = HcTick "int option" | HcStopCall | HcStopSel | HcCtxDone | HcRecv

definition hc_next :: "int \<Rightarrow> bool \<Rightarrow> int \<Rightarrow> hc_status \<Rightarrow> int \<times> hc_status" where
  "hc_next retries ok failures current =
     (if ok then (0, HcReady)
      else (failures + 1, if failures + 1 \<ge> retries then HcUnhealthy else current))"

definition hc_tick :: "int \<Rightarrow> int option \<Rightarrow> hc_state \<Rightarrow> hc_state" where
  "hc_tick retries resp s =
     (let (f, next) = hc_next retries (hc_check resp) (hk_failures s) (hk_current s) in
      if next \<noteq> hk_current s
      then s\<lparr>hk_failures := f, hk_current := next,
             hk_queue := (if length (hk_queue s) < 4 then hk_queue s @ [next] else hk_queue s)\<rparr>
      else s\<lparr>hk_failures := f\<rparr>)"

fun hc_step :: "int \<Rightarrow> hc_ev \<Rightarrow> hc_state \<Rightarrow> hc_state option" where
  "hc_step n (HcTick resp) s = (if hk_closed s then None else Some (hc_tick n resp s))"
| "hc_step n HcStopCall s = Some (s\<lparr>hk_stop := True\<rparr>)"
| "hc_step n HcStopSel s = (if hk_closed s \<or> \<not> hk_stop s then None else Some (s\<lparr>hk_closed := True\<rparr>))"
| "hc_step n HcCtxDone s = (if hk_closed s then None else Some (s\<lparr>hk_closed := True\<rparr>))"
| "hc_step n HcRecv s = (case hk_queue s of [] \<Rightarrow> None | _ # q \<Rightarrow> Some (s\<lparr>hk_queue := q\<rparr>))"

section \<open>What the status means\<close>

text \<open>The results of the checks so far, and the status they stand for: unhealthy after
  \<open>n\<close> failures in a row, unknown before the first success, ready otherwise.\<close>

fun check_results :: "hc_ev list \<Rightarrow> bool list" where
  "check_results [] = []"
| "check_results (HcTick r # es) = hc_check r # check_results es"
| "check_results (_ # es) = check_results es"

definition fails_in_row :: "bool list \<Rightarrow> nat" where
  "fails_in_row rs = length (takeWhile Not (rev rs))"

definition health_of :: "int \<Rightarrow> bool list \<Rightarrow> hc_status" where
  "health_of n rs =
     (if n \<le> int (fails_in_row rs) then HcUnhealthy
      else if True \<in> set rs then HcReady else HcUnknown)"

lemma fails_in_row_snoc: "fails_in_row (rs @ [r]) = (if r then 0 else Suc (fails_in_row rs))"
  by (simp add: fails_in_row_def)

definition hc_inv :: "int \<Rightarrow> bool list \<Rightarrow> hc_state \<Rightarrow> bool" where
  "hc_inv n rs s \<longleftrightarrow> hk_failures s = int (fails_in_row rs) \<and> hk_current s = health_of n rs
     \<and> length (hk_queue s) \<le> 4 \<and> HcUnknown \<notin> set (hk_queue s)"

lemma hc_next_health:
  "0 < n \<Longrightarrow> hc_next n ok (int (fails_in_row rs)) (health_of n rs)
    = (int (fails_in_row (rs @ [ok])), health_of n (rs @ [ok]))"
  by (auto simp: hc_next_def health_of_def fails_in_row_snoc)

lemma health_of_not_unknown: "0 < n \<Longrightarrow> health_of n (rs @ [r]) \<noteq> health_of n rs \<Longrightarrow> health_of n (rs @ [r]) \<noteq> HcUnknown"
  by (auto simp: health_of_def fails_in_row_snoc split: if_splits)

lemma hc_inv_step:
  assumes "0 < n" and "hc_step n e s = Some s'" and "hc_inv n rs s"
  shows "hc_inv n (rs @ check_results [e]) s'"
proof (cases e)
  case (HcTick r)
  then have s': "s' = hc_tick n r s" using assms(2) by (simp split: if_splits)
  have "hc_next n (hc_check r) (hk_failures s) (hk_current s)
      = (int (fails_in_row (rs @ [hc_check r])), health_of n (rs @ [hc_check r]))"
    using assms(1,3) by (simp add: hc_inv_def hc_next_health)
  then show ?thesis using assms(1,3) s' HcTick health_of_not_unknown [OF assms(1), of rs "hc_check r"]
    by (auto simp: hc_inv_def hc_tick_def Let_def)
next
  case HcRecv
  then show ?thesis using assms by (auto simp: hc_inv_def split: list.splits)
qed (use assms in \<open>auto simp: hc_inv_def split: if_splits\<close>)

lemma check_results_append: "check_results (as @ bs) = check_results as @ check_results bs"
  by (induction as rule: check_results.induct) auto

lemma hc_inv_init: "0 < n \<Longrightarrow> hc_inv n [] hc_init"
  by (simp add: hc_inv_def hc_init_def fails_in_row_def health_of_def)

lemma hc_run_inv:
  "0 < n \<Longrightarrow> run_steps (hc_step n) es s = Some s' \<Longrightarrow> hc_inv n rs s \<Longrightarrow> hc_inv n (rs @ check_results es) s'"
proof (induction es arbitrary: s rs)
  case Nil
  then show ?case by simp
next
  case (Cons e es)
  then obtain s1 where s1: "hc_step n e s = Some s1" "run_steps (hc_step n) es s1 = Some s'"
    by (auto split: option.splits)
  have "hc_inv n ((rs @ check_results [e]) @ check_results es) s'"
    using Cons.IH [OF Cons.prems(1) s1(2) hc_inv_step [OF Cons.prems(1) s1(1) Cons.prems(3)]] .
  then show ?case using check_results_append [of "[e]" es] by simp
qed

lemma hc_New_pos: "0 < ck_retries (hc_New u i t r)" "0 < ck_interval (hc_New u i t r)"
  "0 < ck_timeout (hc_New u i t r)"
  by (simp_all add: hc_New_def)

section \<open>Properties\<close>

text \<open>C38. Whatever the order of ticks, receives and stop calls, the checker's status is the one
  its check results stand for: unhealthy exactly when at least \<open>retries\<close> checks in a row failed,
  else ready once a check succeeded and unknown before; the channel never holds more than
  its 4 values nor the status unknown.\<close>

theorem health_status_correct:
  assumes "run_steps (hc_step (ck_retries (hc_New url interval timeout retries))) es hc_init = Some s"
  shows "hk_current s = health_of (ck_retries (hc_New url interval timeout retries)) (check_results es)
     \<and> hk_failures s = int (fails_in_row (check_results es))
     \<and> length (hk_queue s) \<le> 4 \<and> HcUnknown \<notin> set (hk_queue s)"
  using hc_run_inv [OF hc_New_pos(1) assms hc_inv_init [OF hc_New_pos(1)]]
  by (simp add: hc_inv_def)

theorem health_status_correct_witness:
  "\<exists>s. run_steps (hc_step (ck_retries (hc_New ''u'' 0 0 2)))
         [HcTick (Some 200), HcRecv, HcTick None, HcTick (Some 500), HcTick None] hc_init = Some s
       \<and> hk_current s = HcUnhealthy \<and> hk_failures s = 3"
proof -
  let ?es = "[HcTick (Some 200), HcRecv, HcTick None, HcTick (Some 500), HcTick None]"
  obtain s where s: "run_steps (hc_step (ck_retries (hc_New ''u'' 0 0 2))) ?es hc_init = Some s"
    by (simp add: hc_New_def hc_init_def hc_tick_def hc_next_def hc_check_def)
  from health_status_correct [OF s] s show ?thesis
    by (simp add: hc_New_def health_of_def fails_in_row_def hc_check_def)
qed

end
