(* ===== verification/Supervise.thy ===== *)
theory Supervise
  imports Config Health_Check
begin

text \<open>
  The supervise goroutine of one managed process (\<open>internal/supervisor/process.go\<close> and
  \<open>supervise\<close>, \<open>waitForDeps\<close>, \<open>runCommand\<close>, \<open>waitEvent\<close>, \<open>buildCycle\<close>, \<open>runBuild\<close>,
  \<open>waitRebuildOrStop\<close>, \<open>exhaustedRestarts\<close>, \<open>sleep\<close>, \<open>backoff\<close> of
  \<open>internal/supervisor/supervisor.go\<close>) as a state machine: its program counter stands at the
  points where the goroutine blocks or where another goroutine can run in between, and an
  event is what the operating system, a timer or Go's \<open>select\<close> decides there. Each step returns
  what the goroutine does to the outside as a list of actions.
\<close>

section \<open>The managed process\<close>

datatype Status =
    StatusStarting | StatusOnline | StatusStopped | StatusErrored
  | StatusBuilding | StatusBuildFailed | StatusReady | StatusUnhealthy

fun status_string :: "Status \<Rightarrow> string" where
  "status_string StatusStarting = ''starting''"
| "status_string StatusOnline = ''online''"
| "status_string StatusStopped = ''stopped''"
| "status_string StatusErrored = ''errored''"
| "status_string StatusBuilding = ''building''"
| "status_string StatusBuildFailed = ''build_failed''"
| "status_string StatusReady = ''ready''"
| "status_string StatusUnhealthy = ''unhealthy''"

text \<open>
  \<open>mp_cmd\<close> is the handle of the last child started (\<open>*exec.Cmd\<close>, \<open>None\<close> for nil), \<open>mp_stopCh\<close>
  and \<open>mp_done\<close> are the identities of the channels the fields hold, \<open>mp_rebuildCh\<close> says whether
  the one-place buffer of the rebuild channel is full, \<open>mp_restartMu\<close> whether the mutex is held.
\<close>

record ManagedProcess =
  mp_ID :: nat
  mp_Config :: AppConfig
  mp_status :: Status
  mp_cmd :: "nat option"
  mp_pid :: int
  mp_startedAt :: int
  mp_restarts :: int
  mp_crashNotified :: bool
  mp_restartMu :: bool
  mp_stopCh :: nat
  mp_rebuildCh :: bool
  mp_done :: nat

definition newManagedProcess :: "nat \<Rightarrow> AppConfig \<Rightarrow> nat \<Rightarrow> nat \<Rightarrow> ManagedProcess" where
  "newManagedProcess i cfg stop dn =
     \<lparr>mp_ID = i, mp_Config = cfg, mp_status = StatusStopped, mp_cmd = None, mp_pid = 0,
      mp_startedAt = 0, mp_restarts = 0, mp_crashNotified = False, mp_restartMu = False,
      mp_stopCh = stop, mp_rebuildCh = False, mp_done = dn\<rparr>"

section \<open>Restart policy\<close>

definition exhaustedRestarts :: "ManagedProcess \<Rightarrow> bool" where
  "exhaustedRestarts mp =
     (if ac_MaxRestarts (mp_Config mp) \<le> 0 then False
      else mp_restarts mp \<ge> ac_MaxRestarts (mp_Config mp))"

text \<open>\<open>time.Duration\<close> is an \<open>int64\<close> of nanoseconds, so the product wraps around.\<close>

definition backoff :: "int \<Rightarrow> int" where
  "backoff restarts =
     (let d = sint (word_of_int restarts * 500 * 1000000 :: 64 word) in
      if d > 15 * second then 15 * second else d)"

text \<open>\<open>time.ParseDuration\<close> is an argument: \<open>None\<close> is its error.\<close>

definition parseDurationDefault :: "(string \<Rightarrow> int option) \<Rightarrow> string \<Rightarrow> int \<Rightarrow> int" where
  "parseDurationDefault parse_duration s def =
     (if s = [] then def else (case parse_duration s of None \<Rightarrow> def | Some d \<Rightarrow> d))"

definition hc_of_config :: "(string \<Rightarrow> int option) \<Rightarrow> HealthCheckConfig \<Rightarrow> Checker" where
  "hc_of_config parse_duration c =
     hc_New (hcc_URL c)
       (parseDurationDefault parse_duration (hcc_Interval c) (5 * second))
       (parseDurationDefault parse_duration (hcc_Timeout c) (2 * second))
       (if hcc_Retries c \<le> 0 then 3 else hcc_Retries c)"

section \<open>The goroutine\<close>

datatype kill_reason = KEarly | KStop | KRebuild

text \<open>
  Program counters. \<open>PDeps ds\<close> is the scan over the dependencies with \<open>ds\<close> left. \<open>PWaitRb b\<close>, \<open>PBuild b\<close> and \<open>PBuilding b\<close> are the build cycle; \<open>b\<close> says that
  it was entered by a rebuild event, after which the restart counter is reset. \<open>PDefer\<close> is the
  return, where the deferred calls run, and \<open>PHalt\<close> the finished goroutine.
\<close>

datatype pc =
    PInit | PDeps "string list" | PDepsWait | PPre | PWatch | PTop | PStart
  | PAttach nat int | POnline nat int | PRun nat
  | PKill kill_reason nat | PForce kill_reason nat
  | PBuild bool | PBuilding bool | PWaitRb bool
  | PSleep | PDefer | PHalt

record loc =
  l_pc :: pc
  l_watch :: bool
  l_hc :: bool
  l_hcch :: bool
  l_pid :: int

definition init_loc :: loc where
  "init_loc = \<lparr>l_pc = PInit, l_watch = False, l_hc = False, l_hcch = False, l_pid = 0\<rparr>"

text \<open>How a shell command ended: \<open>Start\<close> failed, \<open>Wait\<close> returned an error, or it succeeded.\<close>

datatype run_result = RunOk | RunStartFail string | RunFail string

text \<open>
  Events. \<open>ETau\<close> is the goroutine going on by itself; \<open>EStop\<close>, \<open>ECtx\<close>, \<open>ERebuild\<close>, \<open>EExit\<close>, \<open>EHc\<close>,
  \<open>EHcClosed\<close> and \<open>ETimer\<close> are the cases a \<open>select\<close> takes: the stop channel, the context, the
  rebuild channel, the end of \<open>cmd.Wait\<close>, the health channel (a value, or closed), a timer.
  \<open>EPipes\<close> carries the errors of the two pipes of a new command.
\<close>

datatype ev =
    ETau | EStop | ECtx | ERebuild | EExit | EHc hc_status | EHcClosed | ETimer
  | ERun run_result | EWatchInit "string option" | EPipes "string option" "string option"
  | EStartFail string | EStarted nat int | EPublish int

datatype act =
    ALog string | AAttach nat | AKill nat bool | ATrack int | AUntrack int
  | AHcStart Checker | AHcStop | AWebhook string string
  | AWatchStart | AWatchClose | ACloseDone

text \<open>
  What the goroutine sees of the rest: whether its stop channel is closed, whether the context
  is cancelled, which children have exited, the status of an app by name, and the duration
  parser of the standard library.
\<close>

record view =
  v_stop :: bool
  v_ctx :: bool
  v_dead :: "nat \<Rightarrow> bool"
  v_deps :: "string \<Rightarrow> Status option"
  v_dur :: "string \<Rightarrow> int option"

definition goto :: "pc \<Rightarrow> loc \<Rightarrow> loc" where
  "goto p l = l\<lparr>l_pc := p\<rparr>"

definition setStatus :: "Status \<Rightarrow> ManagedProcess \<Rightarrow> ManagedProcess" where
  "setStatus st mp = mp\<lparr>mp_status := st\<rparr>"

type_synonym sup = "ManagedProcess \<times> loc"
type_synonym sup_result = "(sup \<times> act list) option"

text \<open>
  One turn of the scan over the dependencies in \<open>waitForDeps\<close>: the next one is looked up, the
  scan ends at the first that is unknown or neither online nor ready.
\<close>

definition dep_ready :: "(string \<Rightarrow> Status option) \<Rightarrow> string \<Rightarrow> bool" where
  "dep_ready status_of d = (case status_of d of None \<Rightarrow> False | Some st \<Rightarrow> st = StatusOnline \<or> st = StatusReady)"

definition scan_dep :: "(string \<Rightarrow> Status option) \<Rightarrow> string list \<Rightarrow> pc" where
  "scan_dep status_of ds =
     (case ds of [] \<Rightarrow> PPre | d # ds' \<Rightarrow> if dep_ready status_of d then PDeps ds' else PDepsWait)"

text \<open>A log line made of a fixed text and a value.\<close>

definition log_msg :: "string \<Rightarrow> string \<Rightarrow> act" where
  "log_msg txt v = ALog (txt @ v)"

text \<open>\<open>fmt\<close>'s \<open>%v\<close> of a string slice.\<close>

definition fmt_list :: "string list \<Rightarrow> string" where
  "fmt_list xs = ''['' @ join_with '' '' xs @ '']''"

text \<open>The log lines of \<open>runCommand\<close> and of the failed hook in \<open>supervise\<close>.\<close>

definition pre_start_acts :: "string \<Rightarrow> run_result \<Rightarrow> act list" where
  "pre_start_acts cmd r =
     log_msg ''[gopm] running: '' cmd #
     (case r of
        RunOk \<Rightarrow> []
      | RunStartFail e \<Rightarrow> [log_msg ''[gopm] command start failed: '' e, ALog ''[gopm] pre_start failed, continuing anyway'']
      | RunFail e \<Rightarrow> [log_msg ''[gopm] command failed: '' e, ALog ''[gopm] pre_start failed, continuing anyway''])"

text \<open>Going to wait for a file change, or returning when the app is not watched.\<close>

definition park :: "sup \<Rightarrow> sup" where
  "park s = (case s of (mp, l) \<Rightarrow>
     (mp, goto (if wc_Enabled (ac_Watch (mp_Config mp)) then PWaitRb False else PDefer) l))"

text \<open>A retry: \<open>restarts++\<close> and the backoff sleep, which is skipped when it is not positive.\<close>

definition retry :: "ManagedProcess \<Rightarrow> loc \<Rightarrow> sup" where
  "retry mp l =
     (let mp' = mp\<lparr>mp_restarts := mp_restarts mp + 1\<rparr> in
      (mp', goto (if backoff (mp_restarts mp') \<le> 0 then PTop else PSleep) l))"

definition on_start_fail :: "string \<Rightarrow> ManagedProcess \<Rightarrow> loc \<Rightarrow> sup \<times> act list" where
  "on_start_fail msg mp l =
     (let mp' = setStatus StatusErrored mp in
      (if \<not> ac_AutoRestart (mp_Config mp) \<or> exhaustedRestarts mp then park (mp', l) else retry mp' l,
       [log_msg ''[gopm] start failed: '' msg]))"

definition on_exit :: "ManagedProcess \<Rightarrow> loc \<Rightarrow> sup \<times> act list" where
  "on_exit mp l =
     (if \<not> ac_AutoRestart (mp_Config mp) then (park (setStatus StatusStopped mp, l), [])
      else if exhaustedRestarts mp then
        (park (setStatus StatusErrored mp\<lparr>mp_crashNotified := True\<rparr>, l),
         if \<not> mp_crashNotified mp \<and> oc_Webhook (ac_OnCrash (mp_Config mp)) \<noteq> []
         then [AWebhook (ac_Name (mp_Config mp)) (oc_Webhook (ac_OnCrash (mp_Config mp)))] else [])
      else (retry (mp\<lparr>mp_crashNotified := False\<rparr>) l, []))"

text \<open>After the killed child has been waited for.\<close>

definition after_kill :: "kill_reason \<Rightarrow> ManagedProcess \<Rightarrow> loc \<Rightarrow> sup" where
  "after_kill r mp l =
     (case r of KRebuild \<Rightarrow> (mp, goto (PBuild True) l)
      | _ \<Rightarrow> (setStatus StatusStopped mp, goto PDefer l))"

text \<open>\<open>buildCycle\<close> returned true: only the rebuild event resets the counter.\<close>

definition build_done :: "bool \<Rightarrow> ManagedProcess \<Rightarrow> loc \<Rightarrow> sup" where
  "build_done b mp l = (if b then mp\<lparr>mp_restarts := 0\<rparr> else mp, goto PTop l)"

definition hc_started :: "view \<Rightarrow> AppConfig \<Rightarrow> act list" where
  "hc_started v cfg =
     (if hcc_URL (ac_HealthCheck cfg) \<noteq> [] then [AHcStart (hc_of_config (v_dur v) (ac_HealthCheck cfg))] else [])"

text \<open>What runs between \<open>waitEvent\<close> and the switch on its result.\<close>

definition leave_run :: "loc \<Rightarrow> loc" where
  "leave_run l = l\<lparr>l_hc := False, l_hcch := False\<rparr>"

definition leave_acts :: "loc \<Rightarrow> act list" where
  "leave_acts l = (if l_hc l then [AHcStop] else []) @ [AUntrack (l_pid l)]"

definition kill_timeout_acts :: "kill_reason \<Rightarrow> nat \<Rightarrow> act list" where
  "kill_timeout_acts r c =
     (if r = KStop then [ALog ''[gopm] graceful stop timed out, forcing termination''] else []) @ [AKill c True]"

definition return_acts :: "loc \<Rightarrow> act list" where
  "return_acts l = (if l_watch l then [AWatchClose] else []) @ [ACloseDone]"

definition run_step :: "view \<Rightarrow> nat \<Rightarrow> ev \<Rightarrow> ManagedProcess \<Rightarrow> loc \<Rightarrow> sup_result" where
  "run_step v c e mp l =
     (let l' = leave_run l; as = leave_acts l in
      case e of
        EExit \<Rightarrow> if v_dead v c then (let (s, bs) = on_exit mp l' in Some (s, as @ bs)) else None
      | EStop \<Rightarrow> if v_stop v then Some ((mp, goto (PKill KStop c) l'), as @ [AKill c False]) else None
      | ERebuild \<Rightarrow> if mp_rebuildCh mp
          then Some ((mp\<lparr>mp_rebuildCh := False\<rparr>, goto (PKill KRebuild c) l'), as @ [AKill c False]) else None
      | EHc st \<Rightarrow> if l_hcch l
          then Some ((case st of HcReady \<Rightarrow> setStatus StatusReady mp
                       | HcUnhealthy \<Rightarrow> setStatus StatusUnhealthy mp | HcUnknown \<Rightarrow> mp, l), []) else None
      | EHcClosed \<Rightarrow> if l_hcch l then Some ((mp, l\<lparr>l_hcch := False\<rparr>), []) else None
      | _ \<Rightarrow> None)"

definition pipe_log :: "string \<Rightarrow> string option \<Rightarrow> act list" where
  "pipe_log w e = (case e of None \<Rightarrow> [] | Some m \<Rightarrow> [log_msg ''[gopm] '' (w @ '' pipe error: '' @ m)])"

definition top_step :: "view \<Rightarrow> ev \<Rightarrow> ManagedProcess \<Rightarrow> loc \<Rightarrow> sup_result" where
  "top_step v e mp l =
     (if v_stop v
      then (if e = ETau then Some ((setStatus StatusStopped mp, goto PDefer l), []) else None)
      else (case e of
              EPipes o1 o2 \<Rightarrow> Some ((setStatus StatusStarting mp, goto PStart l),
                 pipe_log ''stdout'' o1 @ pipe_log ''stderr'' o2)
            | _ \<Rightarrow> None))"

definition build_step :: "bool \<Rightarrow> ev \<Rightarrow> ManagedProcess \<Rightarrow> loc \<Rightarrow> sup_result" where
  "build_step b e mp l =
     (if e = ETau then
        (let cmd = wc_BuildCmd (ac_Watch (mp_Config mp)) in
         if cmd = [] then Some (build_done b mp l, [])
         else Some ((setStatus StatusBuilding mp, goto (PBuilding b) l), [log_msg ''[gopm] building: '' cmd]))
      else None)"

definition building_step :: "bool \<Rightarrow> ev \<Rightarrow> ManagedProcess \<Rightarrow> loc \<Rightarrow> sup_result" where
  "building_step b e mp l =
     (case e of
        ERun RunOk \<Rightarrow> Some (build_done b mp l, [ALog ''[gopm] build ok''])
      | ERun (RunStartFail m) \<Rightarrow> Some ((setStatus StatusBuildFailed mp, goto (PWaitRb b) l), [log_msg ''[gopm] build start failed: '' m])
      | ERun (RunFail m) \<Rightarrow> Some ((setStatus StatusBuildFailed mp, goto (PWaitRb b) l), [log_msg ''[gopm] build failed: '' m])
      | _ \<Rightarrow> None)"

definition waitrb_step :: "view \<Rightarrow> bool \<Rightarrow> ev \<Rightarrow> ManagedProcess \<Rightarrow> loc \<Rightarrow> sup_result" where
  "waitrb_step v b e mp l =
     (if e = EStop \<and> v_stop v then Some ((setStatus StatusStopped mp, goto PDefer l), [])
      else if e = ERebuild \<and> mp_rebuildCh mp then Some ((mp\<lparr>mp_rebuildCh := False\<rparr>, goto (PBuild b) l), [])
      else None)"

text \<open>The head of the goroutine: dependencies, the pre-start hook and the file watcher.\<close>

definition head_step :: "view \<Rightarrow> ev \<Rightarrow> ManagedProcess \<Rightarrow> loc \<Rightarrow> sup_result" where
  "head_step v e mp l =
     (let cfg = mp_Config mp in
      case (l_pc l, e) of
        (PInit, ETau) \<Rightarrow>
          if ac_DependsOn cfg = [] then Some ((mp, goto PPre l), [])
          else Some ((mp, goto (PDeps (ac_DependsOn cfg)) l), [log_msg ''[gopm] waiting for dependencies: '' (fmt_list (ac_DependsOn cfg))])
      | (PDeps ds, ETau) \<Rightarrow> Some ((mp, goto (scan_dep (v_deps v) ds) l), [])
      | (PDepsWait, EStop) \<Rightarrow> if v_stop v then Some ((setStatus StatusStopped mp, goto PDefer l), []) else None
      | (PDepsWait, ETimer) \<Rightarrow> Some ((mp, goto (PDeps (ac_DependsOn cfg)) l), [])
      | (PPre, ETau) \<Rightarrow> if ac_PreStart cfg = [] then Some ((mp, goto PWatch l), []) else None
      | (PPre, ERun r) \<Rightarrow> if ac_PreStart cfg \<noteq> []
          then Some ((mp, goto PWatch l), pre_start_acts (ac_PreStart cfg) r) else None
      | (PWatch, ETau) \<Rightarrow> if wc_Enabled (ac_Watch cfg) then None else Some ((mp, goto PTop l), [])
      | (PWatch, EWatchInit None) \<Rightarrow> if wc_Enabled (ac_Watch cfg)
          then Some ((mp, goto PTop (l\<lparr>l_watch := True\<rparr>)), [AWatchStart]) else None
      | (PWatch, EWatchInit (Some m)) \<Rightarrow> if wc_Enabled (ac_Watch cfg)
          then Some ((mp, goto PTop l), [log_msg ''[watcher] init failed: '' m]) else None
      | _ \<Rightarrow> None)"

text \<open>From \<open>cmd.Start\<close> to the child being published and online.\<close>

definition start_step :: "view \<Rightarrow> ev \<Rightarrow> ManagedProcess \<Rightarrow> loc \<Rightarrow> sup_result" where
  "start_step v e mp l =
     (case (l_pc l, e) of
        (PStart, EStartFail m) \<Rightarrow> Some (on_start_fail m mp l)
      | (PStart, EStarted c pid) \<Rightarrow> Some ((mp, goto (PAttach c pid) l), [AAttach c])
      | (PAttach c pid, EPublish now) \<Rightarrow>
          (let mp' = mp\<lparr>mp_cmd := Some c, mp_pid := pid, mp_startedAt := now\<rparr> in
           if v_stop v then Some ((mp', goto (PKill KEarly c) l), [AKill c False])
           else Some ((mp', goto (POnline c pid) l), []))
      | (POnline c pid, ETau) \<Rightarrow>
          (let hc = (hcc_URL (ac_HealthCheck (mp_Config mp)) \<noteq> []) in
           Some ((setStatus StatusOnline mp, goto (PRun c) (l\<lparr>l_pid := pid, l_hc := hc, l_hcch := hc\<rparr>)),
             ATrack pid # hc_started v (mp_Config mp)))
      | _ \<Rightarrow> None)"

text \<open>The backoff sleep once its duration is positive: whether it was cut short, \<open>None\<close> while it lasts.\<close>

definition sleep :: "view \<Rightarrow> ev \<Rightarrow> bool option" where
  "sleep v e =
     (case e of
        ETimer \<Rightarrow> Some False
      | ECtx \<Rightarrow> if v_ctx v then Some True else None
      | EStop \<Rightarrow> if v_stop v then Some True else None
      | _ \<Rightarrow> None)"

text \<open>The two-stage kill, the step after a sleep and the return.\<close>

definition end_step :: "view \<Rightarrow> ev \<Rightarrow> ManagedProcess \<Rightarrow> loc \<Rightarrow> sup_result" where
  "end_step v e mp l =
     (case (l_pc l, e) of
        (PKill r c, EExit) \<Rightarrow> if v_dead v c then Some (after_kill r mp l, []) else None
      | (PKill r c, ETimer) \<Rightarrow> Some ((mp, goto (PForce r c) l), kill_timeout_acts r c)
      | (PForce r c, EExit) \<Rightarrow> if v_dead v c then Some (after_kill r mp l, []) else None
      | (PSleep, _) \<Rightarrow>
          (case sleep v e of None \<Rightarrow> None
           | Some stopped \<Rightarrow> if stopped then Some ((mp, goto PDefer l), []) else Some ((mp, goto PTop l), []))
      | (PDefer, ETau) \<Rightarrow> Some ((mp, goto PHalt l), return_acts l)
      | _ \<Rightarrow> None)"

definition sup_step :: "view \<Rightarrow> ev \<Rightarrow> sup \<Rightarrow> sup_result" where
  "sup_step v e s =
     (case s of (mp, l) \<Rightarrow>
      (case l_pc l of
         PInit \<Rightarrow> head_step v e mp l
       | PDeps ds \<Rightarrow> head_step v e mp l
       | PDepsWait \<Rightarrow> head_step v e mp l
       | PPre \<Rightarrow> head_step v e mp l
       | PWatch \<Rightarrow> head_step v e mp l
       | PTop \<Rightarrow> top_step v e mp l
       | PStart \<Rightarrow> start_step v e mp l
       | PAttach c pid \<Rightarrow> start_step v e mp l
       | POnline c pid \<Rightarrow> start_step v e mp l
       | PRun c \<Rightarrow> run_step v c e mp l
       | PBuild b \<Rightarrow> build_step b e mp l
       | PBuilding b \<Rightarrow> building_step b e mp l
       | PWaitRb b \<Rightarrow> waitrb_step v b e mp l
       | PKill r c \<Rightarrow> end_step v e mp l
       | PForce r c \<Rightarrow> end_step v e mp l
       | PSleep \<Rightarrow> end_step v e mp l
       | PDefer \<Rightarrow> end_step v e mp l
       | PHalt \<Rightarrow> None))"

section \<open>Case analysis of a step\<close>

lemmas sup_defs = sup_step_def head_step_def top_step_def start_step_def run_step_def
  build_step_def building_step_def waitrb_step_def end_step_def sleep_def

lemmas branch_defs = park_def retry_def on_start_fail_def on_exit_def after_kill_def build_done_def
  leave_run_def goto_def setStatus_def

lemmas sup_splits = pc.splits ev.splits if_splits option.splits run_result.splits hc_status.splits
  kill_reason.splits prod.splits

text \<open>
  The same steps as a relation with one rule per transition: the step function takes a step
  exactly where a rule does, so an invariant is one case per rule.
\<close>

inductive sup_tr :: "view \<Rightarrow> ev \<Rightarrow> ManagedProcess \<Rightarrow> loc \<Rightarrow> ManagedProcess \<Rightarrow> loc \<Rightarrow> act list \<Rightarrow> bool" where
  no_deps: "l_pc l = PInit \<Longrightarrow> ac_DependsOn (mp_Config mp) = []
    \<Longrightarrow> sup_tr v ETau mp l mp (goto PPre l) []"
| has_deps: "l_pc l = PInit \<Longrightarrow> ac_DependsOn (mp_Config mp) \<noteq> []
    \<Longrightarrow> sup_tr v ETau mp l mp (goto (PDeps (ac_DependsOn (mp_Config mp))) l) [log_msg ''[gopm] waiting for dependencies: '' (fmt_list (ac_DependsOn (mp_Config mp)))]"
| deps_done: "l_pc l = PDeps [] \<Longrightarrow> sup_tr v ETau mp l mp (goto PPre l) []"
| deps_next: "l_pc l = PDeps (d # ds) \<Longrightarrow> dep_ready (v_deps v) d \<Longrightarrow> sup_tr v ETau mp l mp (goto (PDeps ds) l) []"
| deps_wait: "l_pc l = PDeps (d # ds) \<Longrightarrow> \<not> dep_ready (v_deps v) d \<Longrightarrow> sup_tr v ETau mp l mp (goto PDepsWait l) []"
| deps_stop: "l_pc l = PDepsWait \<Longrightarrow> v_stop v
    \<Longrightarrow> sup_tr v EStop mp l (setStatus StatusStopped mp) (goto PDefer l) []"
| deps_poll: "l_pc l = PDepsWait \<Longrightarrow> sup_tr v ETimer mp l mp (goto (PDeps (ac_DependsOn (mp_Config mp))) l) []"
| no_pre: "l_pc l = PPre \<Longrightarrow> ac_PreStart (mp_Config mp) = []
    \<Longrightarrow> sup_tr v ETau mp l mp (goto PWatch l) []"
| pre: "l_pc l = PPre \<Longrightarrow> ac_PreStart (mp_Config mp) \<noteq> []
    \<Longrightarrow> sup_tr v (ERun r) mp l mp (goto PWatch l) (pre_start_acts (ac_PreStart (mp_Config mp)) r)"
| no_watch: "l_pc l = PWatch \<Longrightarrow> \<not> wc_Enabled (ac_Watch (mp_Config mp))
    \<Longrightarrow> sup_tr v ETau mp l mp (goto PTop l) []"
| watch_on: "l_pc l = PWatch \<Longrightarrow> wc_Enabled (ac_Watch (mp_Config mp))
    \<Longrightarrow> sup_tr v (EWatchInit None) mp l mp (goto PTop (l\<lparr>l_watch := True\<rparr>)) [AWatchStart]"
| watch_err: "l_pc l = PWatch \<Longrightarrow> wc_Enabled (ac_Watch (mp_Config mp))
    \<Longrightarrow> sup_tr v (EWatchInit (Some m)) mp l mp (goto PTop l) [log_msg ''[watcher] init failed: '' m]"
| top_stop: "l_pc l = PTop \<Longrightarrow> v_stop v
    \<Longrightarrow> sup_tr v ETau mp l (setStatus StatusStopped mp) (goto PDefer l) []"
| top_go: "l_pc l = PTop \<Longrightarrow> \<not> v_stop v
    \<Longrightarrow> sup_tr v (EPipes o1 o2) mp l (setStatus StatusStarting mp) (goto PStart l)
         (pipe_log ''stdout'' o1 @ pipe_log ''stderr'' o2)"
| start_fail: "l_pc l = PStart \<Longrightarrow> on_start_fail m mp l = ((mp', l'), as)
    \<Longrightarrow> sup_tr v (EStartFail m) mp l mp' l' as"
| started: "l_pc l = PStart \<Longrightarrow> sup_tr v (EStarted c pid) mp l mp (goto (PAttach c pid) l) [AAttach c]"
| publish_stop: "l_pc l = PAttach c pid \<Longrightarrow> v_stop v
    \<Longrightarrow> sup_tr v (EPublish now) mp l (mp\<lparr>mp_cmd := Some c, mp_pid := pid, mp_startedAt := now\<rparr>)
         (goto (PKill KEarly c) l) [AKill c False]"
| publish: "l_pc l = PAttach c pid \<Longrightarrow> \<not> v_stop v
    \<Longrightarrow> sup_tr v (EPublish now) mp l (mp\<lparr>mp_cmd := Some c, mp_pid := pid, mp_startedAt := now\<rparr>)
         (goto (POnline c pid) l) []"
| online: "l_pc l = POnline c pid \<Longrightarrow> hc = (hcc_URL (ac_HealthCheck (mp_Config mp)) \<noteq> [])
    \<Longrightarrow> sup_tr v ETau mp l (setStatus StatusOnline mp)
         (goto (PRun c) (l\<lparr>l_pid := pid, l_hc := hc, l_hcch := hc\<rparr>))
         (ATrack pid # hc_started v (mp_Config mp))"
| run_exit: "l_pc l = PRun c \<Longrightarrow> v_dead v c \<Longrightarrow> on_exit mp (leave_run l) = ((mp', l'), bs)
    \<Longrightarrow> sup_tr v EExit mp l mp' l' (leave_acts l @ bs)"
| run_stop: "l_pc l = PRun c \<Longrightarrow> v_stop v
    \<Longrightarrow> sup_tr v EStop mp l mp (goto (PKill KStop c) (leave_run l)) (leave_acts l @ [AKill c False])"
| run_rebuild: "l_pc l = PRun c \<Longrightarrow> mp_rebuildCh mp
    \<Longrightarrow> sup_tr v ERebuild mp l (mp\<lparr>mp_rebuildCh := False\<rparr>) (goto (PKill KRebuild c) (leave_run l))
         (leave_acts l @ [AKill c False])"
| run_ready: "l_pc l = PRun c \<Longrightarrow> l_hcch l \<Longrightarrow> sup_tr v (EHc HcReady) mp l (setStatus StatusReady mp) l []"
| run_unhealthy: "l_pc l = PRun c \<Longrightarrow> l_hcch l \<Longrightarrow> sup_tr v (EHc HcUnhealthy) mp l (setStatus StatusUnhealthy mp) l []"
| run_unknown: "l_pc l = PRun c \<Longrightarrow> l_hcch l \<Longrightarrow> sup_tr v (EHc HcUnknown) mp l mp l []"
| run_hc_closed: "l_pc l = PRun c \<Longrightarrow> l_hcch l \<Longrightarrow> sup_tr v EHcClosed mp l mp (l\<lparr>l_hcch := False\<rparr>) []"
| killed: "l_pc l = PKill r c \<Longrightarrow> v_dead v c \<Longrightarrow> after_kill r mp l = (mp', l')
    \<Longrightarrow> sup_tr v EExit mp l mp' l' []"
| kill_timeout: "l_pc l = PKill r c \<Longrightarrow> sup_tr v ETimer mp l mp (goto (PForce r c) l) (kill_timeout_acts r c)"
| forced: "l_pc l = PForce r c \<Longrightarrow> v_dead v c \<Longrightarrow> after_kill r mp l = (mp', l')
    \<Longrightarrow> sup_tr v EExit mp l mp' l' []"
| no_build: "l_pc l = PBuild b \<Longrightarrow> wc_BuildCmd (ac_Watch (mp_Config mp)) = [] \<Longrightarrow> build_done b mp l = (mp', l')
    \<Longrightarrow> sup_tr v ETau mp l mp' l' []"
| build: "l_pc l = PBuild b \<Longrightarrow> wc_BuildCmd (ac_Watch (mp_Config mp)) \<noteq> []
    \<Longrightarrow> sup_tr v ETau mp l (setStatus StatusBuilding mp) (goto (PBuilding b) l)
         [log_msg ''[gopm] building: '' (wc_BuildCmd (ac_Watch (mp_Config mp)))]"
| built: "l_pc l = PBuilding b \<Longrightarrow> build_done b mp l = (mp', l')
    \<Longrightarrow> sup_tr v (ERun RunOk) mp l mp' l' [ALog ''[gopm] build ok'']"
| build_start_fail: "l_pc l = PBuilding b
    \<Longrightarrow> sup_tr v (ERun (RunStartFail m)) mp l (setStatus StatusBuildFailed mp) (goto (PWaitRb b) l)
         [log_msg ''[gopm] build start failed: '' m]"
| build_fail: "l_pc l = PBuilding b
    \<Longrightarrow> sup_tr v (ERun (RunFail m)) mp l (setStatus StatusBuildFailed mp) (goto (PWaitRb b) l)
         [log_msg ''[gopm] build failed: '' m]"
| wait_stop: "l_pc l = PWaitRb b \<Longrightarrow> v_stop v
    \<Longrightarrow> sup_tr v EStop mp l (setStatus StatusStopped mp) (goto PDefer l) []"
| wait_rebuild: "l_pc l = PWaitRb b \<Longrightarrow> mp_rebuildCh mp
    \<Longrightarrow> sup_tr v ERebuild mp l (mp\<lparr>mp_rebuildCh := False\<rparr>) (goto (PBuild b) l) []"
| slept: "l_pc l = PSleep \<Longrightarrow> sup_tr v ETimer mp l mp (goto PTop l) []"
| sleep_stop: "l_pc l = PSleep \<Longrightarrow> v_stop v \<Longrightarrow> sup_tr v EStop mp l mp (goto PDefer l) []"
| sleep_ctx: "l_pc l = PSleep \<Longrightarrow> v_ctx v \<Longrightarrow> sup_tr v ECtx mp l mp (goto PDefer l) []"
| return: "l_pc l = PDefer \<Longrightarrow> sup_tr v ETau mp l mp (goto PHalt l) (return_acts l)"

lemma sup_step_tr: "sup_step v e (mp, l) = Some ((mp', l'), as) \<Longrightarrow> sup_tr v e mp l mp' l' as"
  by (cases "l_pc l"; cases e)
    (auto simp: sup_defs scan_dep_def Let_def prod_eq_iff intro: sup_tr.intros
      split: list.splits if_splits option.splits run_result.splits hc_status.splits prod.splits)

lemma sup_tr_step: "sup_tr v e mp l mp' l' as \<Longrightarrow> sup_step v e (mp, l) = Some ((mp', l'), as)"
  by (induction rule: sup_tr.induct) (auto simp: sup_defs scan_dep_def Let_def split: prod.splits)

lemma sup_step_iff: "sup_step v e (mp, l) = Some ((mp', l'), as) \<longleftrightarrow> sup_tr v e mp l mp' l' as"
  using sup_step_tr sup_tr_step by blast

text \<open>The goroutine never changes the identity, the configuration, the channels or the mutex.\<close>

definition same_frame :: "ManagedProcess \<Rightarrow> ManagedProcess \<Rightarrow> bool" where
  "same_frame mp mp' \<longleftrightarrow> mp_ID mp' = mp_ID mp \<and> mp_Config mp' = mp_Config mp
     \<and> mp_stopCh mp' = mp_stopCh mp \<and> mp_done mp' = mp_done mp \<and> mp_restartMu mp' = mp_restartMu mp"

lemma sup_tr_frame: "sup_tr v e mp l mp' l' as \<Longrightarrow> same_frame mp mp'"
  by (induction rule: sup_tr.induct) (auto simp: branch_defs same_frame_def Let_def split: if_splits kill_reason.splits)

end
