(* ===== verification/Supervise_Inv.thy ===== *)
theory Supervise_Inv
  imports Supervise
begin

text \<open>
  What the supervise goroutine keeps true whatever the operating system, the timers and the
  other goroutines do: which statuses it can show at each program counter, how its counters
  bound the number of starts and of crash webhooks, and how fast it ends once it is told to stop.
\<close>

section \<open>Runs of the goroutine\<close>

fun sup_lstep :: "view \<times> ev \<Rightarrow> sup \<times> act list \<Rightarrow> (sup \<times> act list) option" where
  "sup_lstep (v, e) (s, tr) = map_option (\<lambda>(s', as). (s', tr @ as)) (sup_step v e s)"

lemma sup_lstep_tr:
  "sup_lstep (v, e) ((mp, l), tr) = Some ((mp', l'), tr') \<longleftrightarrow>
     (\<exists>as. sup_tr v e mp l mp' l' as \<and> tr' = tr @ as)"
  by (auto simp: sup_step_iff [symmetric])

lemma goto_simps [simp]:
  "l_pc (goto p l) = p" "l_watch (goto p l) = l_watch l" "l_hc (goto p l) = l_hc l"
  "l_hcch (goto p l) = l_hcch l" "l_pid (goto p l) = l_pid l"
  by (simp_all add: goto_def)

lemma leave_run_simps [simp]:
  "l_pc (leave_run l) = l_pc l" "l_watch (leave_run l) = l_watch l" "\<not> l_hc (leave_run l)"
  "\<not> l_hcch (leave_run l)"
  by (simp_all add: leave_run_def)

lemma setStatus_simps [simp]:
  "mp_status (setStatus st mp) = st" "mp_restarts (setStatus st mp) = mp_restarts mp"
  "mp_Config (setStatus st mp) = mp_Config mp" "mp_cmd (setStatus st mp) = mp_cmd mp"
  "mp_crashNotified (setStatus st mp) = mp_crashNotified mp" "mp_pid (setStatus st mp) = mp_pid mp"
  by (simp_all add: setStatus_def)

lemmas branch_splits = if_splits kill_reason.splits

lemmas branches = park_def retry_def on_start_fail_def on_exit_def after_kill_def build_done_def Let_def

text \<open>A one-step fact about the goroutine lifts to runs through these rules.\<close>

lemma sup_run_induct [consumes 1, case_names Nil Cons]:
  assumes "run_steps sup_lstep ls (s, tr) = Some (s', tr')"
    and "\<And>s tr. P [] s tr s tr"
    and "\<And>v e ls mp l mp1 l1 as tr s' tr'.
      sup_tr v e mp l mp1 l1 as \<Longrightarrow> run_steps sup_lstep ls ((mp1, l1), tr @ as) = Some (s', tr') \<Longrightarrow>
      P ls (mp1, l1) (tr @ as) s' tr' \<Longrightarrow> P ((v, e) # ls) (mp, l) tr s' tr'"
  shows "P ls s tr s' tr'"
  using assms(1)
proof (induction ls arbitrary: s tr)
  case Nil
  then show ?case using assms(2) by simp
next
  case (Cons x ls)
  obtain v e where x: "x = (v, e)" by (cases x)
  obtain mp l where s: "s = (mp, l)" by (cases s)
  from Cons.prems obtain st where st: "sup_lstep x (s, tr) = Some st" "run_steps sup_lstep ls st = Some (s', tr')"
    by (auto split: option.splits)
  obtain mp1 l1 tr1 where st': "st = ((mp1, l1), tr1)" by (metis prod.exhaust)
  then obtain as where "sup_tr v e mp l mp1 l1 as" "tr1 = tr @ as"
    using st(1) x s by (auto simp del: sup_lstep.simps simp: sup_lstep_tr)
  then show ?case using assms(3) Cons.IH st(2) st' x s by blast
qed

section \<open>Statuses by phase\<close>

definition live :: "Status \<Rightarrow> bool" where
  "live st \<longleftrightarrow> st = StatusOnline \<or> st = StatusReady \<or> st = StatusUnhealthy"

text \<open>The statuses a process can show while its goroutine is at a program counter.\<close>

fun phase_ok :: "pc \<Rightarrow> Status \<Rightarrow> bool" where
  "phase_ok PStart st = (st = StatusStarting)"
| "phase_ok (PAttach c pid) st = (st = StatusStarting)"
| "phase_ok (POnline c pid) st = (st = StatusStarting)"
| "phase_ok (PRun c) st = live st"
| "phase_ok (PKill KEarly c) st = (st = StatusStarting)"
| "phase_ok (PKill r c) st = live st"
| "phase_ok (PForce KEarly c) st = (st = StatusStarting)"
| "phase_ok (PForce r c) st = live st"
| "phase_ok (PBuild b) st = (if b then live st \<or> st = StatusBuildFailed
     else st = StatusStopped \<or> st = StatusErrored \<or> st = StatusBuildFailed)"
| "phase_ok (PBuilding b) st = (st = StatusBuilding)"
| "phase_ok (PWaitRb b) st = (if b then st = StatusBuildFailed
     else st = StatusStopped \<or> st = StatusErrored \<or> st = StatusBuildFailed)"
| "phase_ok PSleep st = (live st \<or> st = StatusErrored)"
| "phase_ok PDefer st = (live st \<or> st = StatusErrored \<or> st = StatusStopped)"
| "phase_ok PHalt st = (live st \<or> st = StatusErrored \<or> st = StatusStopped)"
| "phase_ok _ st = True"

lemma phase_ok_force: "phase_ok (PForce r c) st = phase_ok (PKill r c) st"
  by (cases r) simp_all

text \<open>The child the goroutine has started and not yet seen exit.\<close>

fun child_of :: "pc \<Rightarrow> nat option" where
  "child_of (PAttach c pid) = Some c"
| "child_of (POnline c pid) = Some c"
| "child_of (PRun c) = Some c"
| "child_of (PKill r c) = Some c"
| "child_of (PForce r c) = Some c"
| "child_of _ = None"

fun published :: "pc \<Rightarrow> bool" where
  "published (PAttach c pid) = False"
| "published p = (child_of p \<noteq> None)"

text \<open>The most retries the configuration allows without a rebuild.\<close>

definition retry_bound :: "AppConfig \<Rightarrow> int" where
  "retry_bound cfg = (if ac_AutoRestart cfg then ac_MaxRestarts cfg else 0)"

definition sup_inv :: "sup \<Rightarrow> bool" where
  "sup_inv s = (case s of (mp, l) \<Rightarrow>
     phase_ok (l_pc l) (mp_status mp)
     \<and> (published (l_pc l) \<longrightarrow> mp_cmd mp = child_of (l_pc l))
     \<and> (l_hcch l \<longrightarrow> l_hc l) \<and> (l_hc l \<longrightarrow> (\<exists>c. l_pc l = PRun c))
     \<and> 0 \<le> mp_restarts mp)"

lemma sup_tr_inv [inv_intros]: "sup_tr v e mp l mp' l' as \<Longrightarrow> sup_inv (mp, l) \<Longrightarrow> sup_inv (mp', l')"
proof (induction rule: sup_tr.induct)
  case (start_fail l m mp mp' l' as v)
  then show ?case by (auto simp: sup_inv_def branches live_def split: branch_splits)
next
  case (run_exit l c v mp mp' l' bs)
  then show ?case by (auto simp: sup_inv_def branches live_def split: branch_splits)
next
  case (killed l r c v mp mp' l')
  then show ?case by (auto simp: sup_inv_def branches live_def split: branch_splits)
next
  case (forced l r c v mp mp' l')
  then show ?case by (auto simp: sup_inv_def branches live_def split: branch_splits)
qed (auto simp: sup_inv_def live_def build_done_def phase_ok_force split: if_splits)

text \<open>A fresh goroutine, on a new process or after \<open>Restart\<close> has reset its fields.\<close>

definition sup_fresh :: "sup \<Rightarrow> bool" where
  "sup_fresh s = (case s of (mp, l) \<Rightarrow> l = init_loc \<and> mp_restarts mp = 0 \<and> \<not> mp_crashNotified mp)"

lemma sup_fresh_inv: "sup_fresh s \<Longrightarrow> sup_inv s"
  by (auto simp: sup_fresh_def sup_inv_def init_loc_def)

interpretation goroutine: transition_system
  "\<lambda>(s, tr). sup_fresh s \<and> tr = []" sup_lstep "\<lambda>(s, tr). sup_inv s"
proof unfold_locales
  fix st :: "sup \<times> act list"
  assume "case st of (s, tr) \<Rightarrow> sup_fresh s \<and> tr = []"
  then show "case st of (s, tr) \<Rightarrow> sup_inv s" by (auto intro: sup_fresh_inv)
next
  fix x and st st' :: "sup \<times> act list"
  assume "sup_lstep x st = Some st'" and "case st of (s, tr) \<Rightarrow> sup_inv s"
  then show "case st' of (s, tr) \<Rightarrow> sup_inv s"
    by (cases x; cases st; cases st')
      (auto simp del: sup_lstep.simps simp: sup_lstep_tr intro: sup_tr_inv)
qed

lemma lifecycle_step:
  "sup_step v e (mp, l) = Some ((mp', l'), as) \<Longrightarrow> sup_inv (mp, l) \<Longrightarrow> mp_status mp' \<noteq> mp_status mp \<Longrightarrow>
   case mp_status mp' of
      StatusOnline \<Rightarrow> mp_status mp = StatusStarting
    | StatusReady \<Rightarrow> live (mp_status mp)
    | StatusUnhealthy \<Rightarrow> live (mp_status mp)
    | StatusErrored \<Rightarrow> mp_status mp = StatusStarting \<or> live (mp_status mp)
    | StatusBuildFailed \<Rightarrow> mp_status mp = StatusBuilding
    | StatusBuilding \<Rightarrow> mp_status mp \<noteq> StatusStarting
    | StatusStarting \<Rightarrow> l_pc l = PTop
    | StatusStopped \<Rightarrow> True"
  unfolding sup_step_iff
proof (induction rule: sup_tr.induct)
  case (start_fail l m mp mp' l' as v)
  then show ?case by (auto simp: sup_inv_def branches split: branch_splits)
next
  case (run_exit l c v mp mp' l' bs)
  then show ?case by (auto simp: sup_inv_def branches setStatus_def split: branch_splits)
next
  case (killed l r c v mp mp' l')
  then show ?case by (auto simp: sup_inv_def branches split: branch_splits)
next
  case (forced l r c v mp mp' l')
  then show ?case by (auto simp: sup_inv_def branches split: branch_splits)
qed (auto simp: sup_inv_def build_done_def live_def split: if_splits)

section \<open>How often the child is started\<close>

fun is_start :: "view \<times> ev \<Rightarrow> bool" where
  "is_start (v, EStarted c pid) = True"
| "is_start (v, EStartFail m) = True"
| "is_start _ = False"

definition n_starts :: "(view \<times> ev) list \<Rightarrow> nat" where
  "n_starts ls = length (filter is_start ls)"

definition n_rebuilds :: "(view \<times> ev) list \<Rightarrow> nat" where
  "n_rebuilds ls = length (filter (\<lambda>(v, e). e = ERebuild) ls)"

definition n_webhooks :: "act list \<Rightarrow> nat" where
  "n_webhooks as = length (filter (\<lambda>a. case a of AWebhook _ _ \<Rightarrow> True | _ \<Rightarrow> False) as)"

lemma n_starts_simps [simp]:
  "n_starts [] = 0" "n_starts (x # ls) = (if is_start x then 1 else 0) + n_starts ls"
  by (simp_all add: n_starts_def)

lemma n_rebuilds_simps [simp]:
  "n_rebuilds [] = 0" "n_rebuilds ((v, e) # ls) = (if e = ERebuild then 1 else 0) + n_rebuilds ls"
  by (simp_all add: n_rebuilds_def)

lemma n_webhooks_simps [simp]:
  "n_webhooks [] = 0" "n_webhooks (as @ bs) = n_webhooks as + n_webhooks bs"
  "n_webhooks (a # as) = (case a of AWebhook _ _ \<Rightarrow> 1 | _ \<Rightarrow> 0) + n_webhooks as"
  by (simp_all add: n_webhooks_def split: act.split)

text \<open>
  Starts already used up: the retries, plus one once the start they led to has been made. The
  build cycle of a rebuild event resets the counter at its end, so it counts as nothing used.
\<close>

fun used :: "pc \<Rightarrow> int \<Rightarrow> int" where
  "used PInit r = r" | "used (PDeps ds) r = r" | "used PDepsWait r = r" | "used PPre r = r"
| "used PWatch r = r" | "used PTop r = r" | "used PStart r = r" | "used PSleep r = r"
| "used (PKill KRebuild c) r = 0" | "used (PForce KRebuild c) r = 0"
| "used (PBuild b) r = (if b then 0 else r)" | "used (PBuilding b) r = (if b then 0 else r)"
| "used (PWaitRb b) r = (if b then 0 else r + 1)"
| "used _ r = r + 1"

lemma used_le: "0 \<le> r \<Longrightarrow> 0 \<le> used p r \<and> used p r \<le> r + 1"
  by (induction p r rule: used.induct) auto

lemma used_force: "used (PForce k c) r = used (PKill k c) r"
  by (cases k) simp_all

definition within_bound :: "ManagedProcess \<Rightarrow> bool" where
  "within_bound mp \<longleftrightarrow> 0 \<le> mp_restarts mp \<and> mp_restarts mp \<le> retry_bound (mp_Config mp)"

text \<open>With unlimited retries there is no bound, so the app restarts a limited number of times or
  not at all.\<close>

definition limited :: "AppConfig \<Rightarrow> bool" where
  "limited cfg \<longleftrightarrow> \<not> ac_AutoRestart cfg \<or> 0 < ac_MaxRestarts cfg"

lemmas counting = within_bound_def retry_bound_def limited_def exhaustedRestarts_def

lemma sup_tr_within_bound:
  "sup_tr v e mp l mp' l' as \<Longrightarrow> limited (mp_Config mp) \<Longrightarrow> within_bound mp \<Longrightarrow> within_bound mp'"
  by (induction rule: sup_tr.induct)
    (auto simp: counting branches setStatus_def split: branch_splits)

lemma sup_tr_used:
  "sup_tr v e mp l mp' l' as \<Longrightarrow> limited (mp_Config mp) \<Longrightarrow> within_bound mp \<Longrightarrow>
     (if is_start (v, e) then 1 else 0) + used (l_pc l) (mp_restarts mp)
       \<le> used (l_pc l') (mp_restarts mp')
          + (if e = ERebuild then retry_bound (mp_Config mp) + 1 else 0)"
proof (induction rule: sup_tr.induct)
  case (start_fail l m mp mp' l' as v)
  then show ?case by (auto simp: counting branches split: branch_splits)
next
  case (run_exit l c v mp mp' l' bs)
  then show ?case by (auto simp: counting branches split: branch_splits)
next
  case (killed l r c v mp mp' l')
  then show ?case by (auto simp: counting branches split: branch_splits)
next
  case (forced l r c v mp mp' l')
  then show ?case by (auto simp: counting branches split: branch_splits)
qed (auto simp: counting build_done_def used_force split: if_splits)

lemma starts_bound:
  "run_steps sup_lstep ls (s, tr) = Some (s', tr') \<Longrightarrow>
     limited (mp_Config (fst s)) \<Longrightarrow> within_bound (fst s) \<Longrightarrow>
     int (n_starts ls) + used (l_pc (snd s)) (mp_restarts (fst s))
       \<le> used (l_pc (snd s')) (mp_restarts (fst s'))
          + int (n_rebuilds ls) * (retry_bound (mp_Config (fst s)) + 1)
     \<and> within_bound (fst s') \<and> mp_Config (fst s') = mp_Config (fst s)"
proof (induction rule: sup_run_induct)
  case (Nil s tr)
  then show ?case by simp
next
  case (Cons v e ls mp l mp1 l1 as tr s' tr')
  have cfg: "mp_Config mp1 = mp_Config mp"
    using sup_tr_frame [OF Cons.hyps(1)] by (simp add: same_frame_def)
  have "within_bound mp1" using Cons.prems Cons.hyps(1) by (auto intro: sup_tr_within_bound)
  then have IH: "int (n_starts ls) + used (l_pc l1) (mp_restarts mp1)
       \<le> used (l_pc (snd s')) (mp_restarts (fst s'))
          + int (n_rebuilds ls) * (retry_bound (mp_Config mp) + 1)
     \<and> within_bound (fst s') \<and> mp_Config (fst s') = mp_Config mp"
    using Cons.IH Cons.prems cfg by simp
  have "(if is_start (v, e) then 1 else 0) + used (l_pc l) (mp_restarts mp)
       \<le> used (l_pc l1) (mp_restarts mp1) + (if e = ERebuild then retry_bound (mp_Config mp) + 1 else 0)"
    using sup_tr_used [OF Cons.hyps(1)] Cons.prems by simp
  with IH show ?case by (auto simp: algebra_simps split: if_splits)
qed

section \<open>How often the crash webhook fires\<close>

text \<open>A webhook may still come without a further rebuild event.\<close>

definition hook_left :: "pc \<Rightarrow> ManagedProcess \<Rightarrow> bool" where
  "hook_left p mp \<longleftrightarrow> \<not> mp_crashNotified mp \<or> \<not> exhaustedRestarts mp
     \<or> (\<exists>c. p = PKill KRebuild c \<or> p = PForce KRebuild c) \<or> p = PBuild True \<or> p = PBuilding True \<or> p = PWaitRb True"

lemma sup_tr_hook:
  "sup_tr v e mp l mp' l' as \<Longrightarrow> 0 \<le> mp_restarts mp \<Longrightarrow>
     n_webhooks as + (if hook_left (l_pc l') mp' then 1 else 0)
       \<le> (if hook_left (l_pc l) mp then 1 else 0) + (if e = ERebuild then 1 else 0)"
proof (induction rule: sup_tr.induct)
  case (start_fail l m mp mp' l' as v)
  then show ?case by (auto simp: hook_left_def exhaustedRestarts_def branches log_msg_def setStatus_def split: branch_splits)
next
  case (run_exit l c v mp mp' l' bs)
  then show ?case
    by (auto simp: hook_left_def exhaustedRestarts_def branches leave_acts_def setStatus_def split: branch_splits)
next
  case (pre l mp v r)
  then show ?case by (cases r) (auto simp: hook_left_def exhaustedRestarts_def pre_start_acts_def log_msg_def)
next
  case (killed l r c v mp mp' l')
  then show ?case by (auto simp: hook_left_def exhaustedRestarts_def branches split: branch_splits)
next
  case (forced l r c v mp mp' l')
  then show ?case by (auto simp: hook_left_def exhaustedRestarts_def branches split: branch_splits)
qed (auto simp: hook_left_def exhaustedRestarts_def build_done_def log_msg_def pipe_log_def hc_started_def
    leave_acts_def kill_timeout_acts_def return_acts_def split: if_splits option.splits)

lemma webhooks_bound:
  "run_steps sup_lstep ls (s, tr) = Some (s', tr') \<Longrightarrow> sup_inv s \<Longrightarrow>
     n_webhooks tr' + (if hook_left (l_pc (snd s')) (fst s') then 1 else 0)
       \<le> n_webhooks tr + (if hook_left (l_pc (snd s)) (fst s) then 1 else 0) + n_rebuilds ls"
proof (induction rule: sup_run_induct)
  case (Nil s tr)
  then show ?case by simp
next
  case (Cons v e ls mp l mp1 l1 as tr s' tr')
  have "0 \<le> mp_restarts mp" using Cons.prems by (simp add: sup_inv_def)
  then have "n_webhooks as + (if hook_left (l_pc l1) mp1 then 1 else 0)
       \<le> (if hook_left (l_pc l) mp then 1 else 0) + (if e = ERebuild then 1 else 0)"
    by (rule sup_tr_hook [OF Cons.hyps(1)])
  moreover have "sup_inv (mp1, l1)" using Cons by (blast intro: sup_tr_inv)
  then have "n_webhooks tr' + (if hook_left (l_pc (snd s')) (fst s') then 1 else 0)
       \<le> n_webhooks (tr @ as) + (if hook_left (l_pc l1) mp1 then 1 else 0) + n_rebuilds ls"
    using Cons.IH by simp
  ultimately show ?case by (simp split: if_splits)
qed

section \<open>Ending after a stop request\<close>

text \<open>
  With the stop channel closed every step brings the goroutine closer to its end, except the
  steps others can cause again and again: a health report, a rebuild signal taken, or a timer
  (the poll of the dependencies and the backoff, whose timer would have to win against the
  closed channel, and the five seconds a child has to end by itself).
\<close>

fun stop_rank :: "pc \<Rightarrow> nat" where
  "stop_rank PHalt = 0" | "stop_rank PDefer = 1" | "stop_rank PTop = 2" | "stop_rank PSleep = 3"
| "stop_rank (PWaitRb b) = 2" | "stop_rank (PBuilding b) = 3" | "stop_rank (PBuild b) = 4"
| "stop_rank (PForce r c) = 5" | "stop_rank (PKill r c) = 6" | "stop_rank (PRun c) = 7"
| "stop_rank (POnline c pid) = 9" | "stop_rank (PAttach c pid) = 7" | "stop_rank PStart = 8"
| "stop_rank PWatch = 3" | "stop_rank PPre = 4" | "stop_rank (PDeps ds) = 5 + length ds" | "stop_rank PDepsWait = 2"
| "stop_rank PInit = 6"

definition loc_rank :: "sup \<Rightarrow> nat" where
  "loc_rank s = (case s of (mp, l) \<Rightarrow>
     stop_rank (l_pc l) + (if l_hcch l \<and> (\<exists>c. l_pc l = PRun c) then 1 else 0)
       + (if l_pc l = PInit then length (ac_DependsOn (mp_Config mp)) else 0))"

text \<open>The dependencies the goroutine may still have to look at in one scan.\<close>

definition n_deps :: "sup \<Rightarrow> nat" where
  "n_deps s = (case s of (mp, l) \<Rightarrow>
     max (length (ac_DependsOn (mp_Config mp))) (case l_pc l of PDeps ds \<Rightarrow> length ds | _ \<Rightarrow> 0))"

fun others_turn :: "ev \<Rightarrow> bool" where
  "others_turn (EHc st) = True"
| "others_turn ERebuild = True"
| "others_turn ETimer = True"
| "others_turn _ = False"

lemma sup_tr_rank:
  "sup_tr v e mp l mp' l' as \<Longrightarrow> v_stop v \<Longrightarrow> \<not> others_turn e \<Longrightarrow> loc_rank (mp', l') < loc_rank (mp, l)"
proof (induction rule: sup_tr.induct)
  case (start_fail l m mp mp' l' as v)
  then show ?case by (auto simp: loc_rank_def branches split: branch_splits)
next
  case (run_exit l c v mp mp' l' bs)
  then show ?case by (auto simp: loc_rank_def branches split: branch_splits)
next
  case (killed l r c v mp mp' l')
  then show ?case by (auto simp: loc_rank_def branches split: branch_splits)
next
  case (forced l r c v mp mp' l')
  then show ?case by (auto simp: loc_rank_def branches split: branch_splits)
qed (auto simp: loc_rank_def others_turn.simps build_done_def)

lemma loc_rank_le: "loc_rank s \<le> 9 + n_deps s"
  by (cases s; cases "l_pc (snd s)") (auto simp: loc_rank_def n_deps_def)

lemma not_in_scan: "(\<And>ds. l_pc l \<noteq> PDeps ds) \<Longrightarrow> n_deps (mp, l) = length (ac_DependsOn (mp_Config mp))"
  by (cases "l_pc l") (auto simp: n_deps_def)

lemma sup_tr_n_deps: "sup_tr v e mp l mp' l' as \<Longrightarrow> n_deps (mp', l') \<le> n_deps (mp, l)"
proof -
  assume tr: "sup_tr v e mp l mp' l' as"
  have cfg: "mp_Config mp' = mp_Config mp" using sup_tr_frame [OF tr] by (simp add: same_frame_def)
  have scan: "length ds \<le> n_deps (mp, l)" if "l_pc l' = PDeps ds" for ds
    using tr that
  proof (induction rule: sup_tr.induct)
    case (start_fail l m mp mp' l' as v)
    then show ?case by (auto simp: branches split: branch_splits)
  next
    case (run_exit l c v mp mp' l' bs)
    then show ?case by (auto simp: branches split: branch_splits)
  next
    case (killed l r c v mp mp' l')
    then show ?case by (auto simp: branches split: branch_splits)
  next
    case (forced l r c v mp mp' l')
    then show ?case by (auto simp: branches split: branch_splits)
  qed (auto simp: build_done_def n_deps_def)
  have "length (ac_DependsOn (mp_Config mp)) \<le> n_deps (mp, l)" by (simp add: n_deps_def)
  then show ?thesis using scan cfg by (cases "l_pc l'") (auto simp: n_deps_def [of "(mp', l')"])
qed

text \<open>A child that is asked for, killed or waited for is eventually gone: here, all are.\<close>

lemma stop_not_stuck:
  assumes "v_stop v" and "\<And>c. v_dead v c" and "l_pc l \<noteq> PHalt"
  shows "\<exists>e mp' l' as. sup_tr v e mp l mp' l' as \<and> \<not> others_turn e"
proof (cases "l_pc l")
  case PInit
  then show ?thesis by (cases "ac_DependsOn (mp_Config mp) = []") (auto intro!: exI intro: sup_tr.intros)
next
  case (PDeps ds)
  then show ?thesis
    using sup_tr.deps_done [of l v mp] sup_tr.deps_next [of l _ _ v mp] sup_tr.deps_wait [of l _ _ v mp] by (cases ds) force+
next
  case PDepsWait
  then show ?thesis using assms sup_tr.deps_stop [of l v mp] by force
next
  case PPre
  show ?thesis
  proof (cases "ac_PreStart (mp_Config mp) = []")
    case True
    with PPre show ?thesis by (auto simp: others_turn.simps intro!: exI intro: sup_tr.no_pre)
  next
    case False
    with PPre show ?thesis using sup_tr.pre [of l mp v RunOk] by force
  qed
next
  case PWatch
  show ?thesis
  proof (cases "wc_Enabled (ac_Watch (mp_Config mp))")
    case True
    with PWatch show ?thesis using sup_tr.watch_on [of l mp v] by force
  next
    case False
    with PWatch show ?thesis using sup_tr.no_watch [of l mp v] by force
  qed
next
  case PTop
  then show ?thesis using assms sup_tr.top_stop [of l v mp] by force
next
  case PStart
  then show ?thesis using sup_tr.started [of l v 0 0 mp] by force
next
  case (PAttach c pid)
  then show ?thesis using assms sup_tr.publish_stop [of l c pid v 0 mp] by force
next
  case (POnline c pid)
  then show ?thesis using sup_tr.online [of l c pid _ mp v] by force
next
  case (PRun c)
  then show ?thesis using assms sup_tr.run_stop [of l c v mp] by force
next
  case (PKill r c)
  then show ?thesis using assms sup_tr.killed [of l r c v mp] by (metis ev.distinct ev.simps prod.exhaust others_turn.simps)
next
  case (PForce r c)
  then show ?thesis using assms sup_tr.forced [of l r c v mp] by (metis ev.distinct ev.simps prod.exhaust others_turn.simps)
next
  case (PBuild b)
  show ?thesis
  proof (cases "wc_BuildCmd (ac_Watch (mp_Config mp)) = []")
    case True
    with PBuild show ?thesis using sup_tr.no_build [of l b mp] by (metis ev.distinct ev.simps prod.exhaust others_turn.simps)
  next
    case False
    with PBuild show ?thesis using sup_tr.build [of l b mp v] by force
  qed
next
  case (PBuilding b)
  then show ?thesis using sup_tr.build_fail [of l b v "[]" mp] by force
next
  case (PWaitRb b)
  then show ?thesis using assms sup_tr.wait_stop [of l b v mp] by force
next
  case PSleep
  then show ?thesis using assms sup_tr.sleep_stop [of l v mp] by force
next
  case PDefer
  then show ?thesis using sup_tr.return [of l v mp] by force
next
  case PHalt
  then show ?thesis using assms by simp
qed

lemma stop_bound:
  "run_steps sup_lstep ls (s, tr) = Some (s', tr') \<Longrightarrow> \<forall>(v, e) \<in> set ls. v_stop v \<Longrightarrow> n_deps s \<le> n \<Longrightarrow>
     length ls \<le> loc_rank s + (10 + n) * length (filter (\<lambda>(v, e). others_turn e) ls)"
proof (induction rule: sup_run_induct)
  case (Nil s tr)
  then show ?case by simp
next
  case (Cons v e ls mp l mp1 l1 as tr s' tr')
  have n: "n_deps (mp1, l1) \<le> n" using sup_tr_n_deps [OF Cons.hyps(1)] Cons.prems by simp
  have IH: "length ls \<le> loc_rank (mp1, l1) + (10 + n) * length (filter (\<lambda>(v, e). others_turn e) ls)"
    using Cons n by simp
  show ?case
  proof (cases "others_turn e")
    case True
    then show ?thesis using IH loc_rank_le [of "(mp1, l1)"] n by simp
  next
    case False
    then have "loc_rank (mp1, l1) < loc_rank (mp, l)" using sup_tr_rank [OF Cons.hyps(1)] Cons.prems by simp
    then show ?thesis using IH False by simp
  qed
qed

section \<open>Properties\<close>

text \<open>C10. In every state a fresh goroutine can reach, its process shows only the statuses of its
  phase (\<open>starting\<close> from the start attempt until the child is published, \<open>online\<close>, \<open>ready\<close> or
  \<open>unhealthy\<close> exactly while it waits on the running child or kills it, \<open>building\<close> while the
  build runs), the command it kills is the child it started, and the health checker runs only
  while it waits on the child.\<close>

theorem supervise_status_matches_phase:
  assumes "sup_fresh s" and "run_steps sup_lstep ls (s, []) = Some ((mp, l), tr)"
  shows "phase_ok (l_pc l) (mp_status mp)
     \<and> (published (l_pc l) \<longrightarrow> mp_cmd mp = child_of (l_pc l))
     \<and> (l_hc l \<longrightarrow> (\<exists>c. l_pc l = PRun c))"
  using goroutine.reach_inv [of "(s, [])" ls "((mp, l), tr)"] assms by (simp add: sup_inv_def)

definition demo_app :: AppConfig where
  "demo_app = zero_app\<lparr>ac_Name := ''api'', ac_Command := ''srv'', ac_AutoRestart := True, ac_MaxRestarts := 1,
     ac_OnCrash := \<lparr>oc_Webhook = ''http://hook''\<rparr>\<rparr>"

definition demo_view :: view where
  "demo_view = \<lparr>v_stop = False, v_ctx = False, v_dead = (\<lambda>_. True), v_deps = (\<lambda>_. None), v_dur = (\<lambda>_. None)\<rparr>"

definition demo_mp :: ManagedProcess where
  "demo_mp = newManagedProcess 0 demo_app 0 1"

text \<open>A crash, a retry and a second crash that exhausts the one retry.\<close>

definition demo_crashes :: "(view \<times> ev) list" where
  "demo_crashes = map (Pair demo_view)
     [ETau, ETau, ETau, EPipes None None, EStarted 7 700, EPublish 5, ETau, EExit, ETimer,
      EPipes None None, EStarted 8 800, EPublish 6, ETau, EExit]"

lemmas demo_defs = demo_crashes_def demo_view_def demo_mp_def demo_app_def zero_app_def newManagedProcess_def
  init_loc_def sup_defs branches goto_def leave_run_def leave_acts_def setStatus_def exhaustedRestarts_def
  backoff_def hc_started_def pipe_log_def

lemma demo_crashes_run:
  "\<exists>mp l tr. run_steps sup_lstep demo_crashes ((demo_mp, init_loc), []) = Some ((mp, l), tr)
     \<and> mp_status mp = StatusErrored \<and> l_pc l = PDefer
     \<and> tr = [AAttach 7, ATrack 700, AUntrack 700, AAttach 8, ATrack 800, AUntrack 800, AWebhook ''api'' ''http://hook'']"
  by (simp add: demo_defs)

theorem supervise_status_matches_phase_witness:
  "\<exists>mp l tr. run_steps sup_lstep demo_crashes ((demo_mp, init_loc), []) = Some ((mp, l), tr)
     \<and> phase_ok (l_pc l) (mp_status mp) \<and> \<not> l_hc l"
proof -
  obtain mp l tr where run: "run_steps sup_lstep demo_crashes ((demo_mp, init_loc), []) = Some ((mp, l), tr)"
    and pc: "l_pc l = PDefer"
    using demo_crashes_run by blast
  have "sup_fresh (demo_mp, init_loc)"
    by (simp add: sup_fresh_def demo_mp_def newManagedProcess_def)
  from supervise_status_matches_phase [OF this run] pc run show ?thesis by auto
qed



text \<open>The crash webhook fires at most once, plus at most once for each rebuild signal taken: a
  process that stays in its failed state is reported a single time.\<close>

theorem supervise_webhook_once:
  assumes "sup_fresh s" and "run_steps sup_lstep ls (s, []) = Some (s', tr)"
  shows "n_webhooks tr \<le> 1 + n_rebuilds ls"
  using webhooks_bound [OF assms(2) sup_fresh_inv [OF assms(1)]] by (simp split: if_splits)

theorem supervise_webhook_once_witness:
  "\<exists>s' tr. run_steps sup_lstep demo_crashes ((demo_mp, init_loc), []) = Some (s', tr)
     \<and> n_webhooks tr = 1 \<and> n_webhooks tr \<le> 1 + n_rebuilds demo_crashes"
proof -
  obtain mp l tr where run: "run_steps sup_lstep demo_crashes ((demo_mp, init_loc), []) = Some ((mp, l), tr)"
    and tr: "tr = [AAttach 7, ATrack 700, AUntrack 700, AAttach 8, ATrack 800, AUntrack 800, AWebhook ''api'' ''http://hook'']"
    using demo_crashes_run by blast
  have "sup_fresh (demo_mp, init_loc)"
    by (simp add: sup_fresh_def demo_mp_def newManagedProcess_def)
  from supervise_webhook_once [OF this run] have "n_webhooks tr \<le> 1 + n_rebuilds demo_crashes" .
  with run show ?thesis by (auto simp: tr)
qed


definition stop_view :: view where
  "stop_view = demo_view\<lparr>v_stop := True\<rparr>"

definition demo_loc :: "pc \<Rightarrow> loc" where
  "demo_loc p = \<lparr>l_pc = p, l_watch = False, l_hc = False, l_hcch = False, l_pid = 700\<rparr>"




text \<open>A user's stop during a backoff sleep ends the goroutine without recording it: the
  process whose child has exited keeps the status \<open>online\<close> it had when the child ran.\<close>

theorem stop_in_backoff_leaves_online:
  "\<exists>ls mp l tr. run_steps sup_lstep ls ((demo_mp, init_loc), []) = Some ((mp, l), tr)
     \<and> v_stop (fst (last ls)) \<and> l_pc l = PHalt \<and> last tr = ACloseDone
     \<and> child_of (l_pc l) = None \<and> mp_status mp = StatusOnline \<and> mp_pid mp = 700"
proof (intro exI conjI)
  let ?ls = "map (Pair demo_view) [ETau, ETau, ETau, EPipes None None, EStarted 7 700, EPublish 5, ETau, EExit]
     @ map (Pair stop_view) [EStop, ETau]"
  let ?mp = "demo_mp\<lparr>mp_status := StatusOnline, mp_cmd := Some 7, mp_pid := 700, mp_startedAt := 5, mp_restarts := 1\<rparr>"
  show "run_steps sup_lstep ?ls ((demo_mp, init_loc), [])
      = Some ((?mp, demo_loc PHalt), [AAttach 7, ATrack 700, AUntrack 700, ACloseDone])"
    by (simp add: demo_defs stop_view_def demo_loc_def return_acts_def)
qed (simp_all add: stop_view_def demo_loc_def demo_view_def)

text \<open>A user's stop can be counted as a crash: it kills the child, and when the child is gone
  both the stop channel and the end of the child are ready, so the \<open>select\<close> may take the exit.
  With the restarts used up the process ends errored and the crash webhook fires.\<close>

theorem stop_counted_as_crash:
  "\<exists>ls mp l tr. run_steps sup_lstep ls ((demo_mp, init_loc), []) = Some ((mp, l), tr)
     \<and> v_stop (fst (last ls)) \<and> mp_status mp = StatusErrored \<and> n_webhooks tr = 1"
  by (rule exI [of _ "butlast demo_crashes @ [(stop_view, EExit)]"])
    (simp add: demo_defs stop_view_def)

end
