(* ===== verification/System.thy ===== *)
theory System
  imports Supervise_Inv
begin

text \<open>
  The supervisor as a concurrent system (\<open>StartApp\<close>, \<open>Stop\<close>, \<open>Restart\<close>, \<open>Delete\<close>, \<open>Shutdown\<close>,
  \<open>stopProcess\<close>, \<open>persist\<close>, \<open>lookup\<close> of \<open>internal/supervisor/supervisor.go\<close>): the registry, the
  heap of managed processes, the channels, and a pool of goroutines, each a client command at a
  program counter or a supervise goroutine. A label picks the goroutine that moves and what the
  environment does there. One step is what happens between two points at which another goroutine
  can interfere: the sections under \<open>s.mu\<close> or \<open>mp.mu\<close> are single steps.
\<close>

section \<open>State\<close>

text \<open>
  Managed processes are numbered by their \<open>ID\<close>, which stands for the pointer. A pair of a stop
  and a done channel is made together, and the pair's number names both; the two kinds of
  channel are never mixed. \<open>g_alive\<close> holds the children that run, \<open>g_panic\<close> records a Go run-time
  panic (a channel closed twice, a mutex unlocked that is not locked).
\<close>

datatype cmd_error = NoSuchProcess string | StopTimeout

type_synonym reply = "cmd_error option"
type_synonym snapshot = "(AppConfig \<times> int) list"

datatype stop_kont = KStopCmd | KRestartCmd | KDeleteCmd string | KShutdown "nat list"

datatype task =
    TStart AppConfig | TSetConfig nat AppConfig | TSetLog nat AppConfig | TSpawn nat
  | TPersist | TSave snapshot
  | TStop string | TRestart string | TDelete string
  | TTryLock nat
  | TClose stop_kont nat | TKill stop_kont nat nat | TWait stop_kont nat | TBlocked stop_kont nat nat
  | TReplace nat | TRespawn nat | TUnlock nat reply
  | TRemove string | TDetach string
  | TShutdown | TShut "nat list"
  | TDone reply
  | TGo nat | TSup nat nat loc

datatype out = OAct nat act | OLog string string | OSetLog string | OKill nat bool | ODetach string

record gopm =
  g_procs :: "(string \<times> nat) list"
  g_nextID :: nat
  g_mps :: "nat \<Rightarrow> ManagedProcess"
  g_stopped :: bool
  g_ctx :: bool
  g_nextCh :: nat
  g_stopClosed :: "nat set"
  g_doneClosed :: "nat set"
  g_nextChild :: nat
  g_alive :: "nat set"
  g_saved :: "snapshot option"
  g_panic :: bool
  g_tasks :: "task list"
  g_trace :: "out list"

text \<open>A new supervisor; the heap below is unused until a process is allocated.\<close>

definition New :: gopm where
  "New = \<lparr>g_procs = [], g_nextID = 0, g_mps = (\<lambda>_. newManagedProcess 0 zero_app 0 0),
     g_stopped = False, g_ctx = False, g_nextCh = 0, g_stopClosed = {}, g_doneClosed = {},
     g_nextChild = 0, g_alive = {}, g_saved = None, g_panic = False, g_tasks = [], g_trace = []\<rparr>"

definition lookup :: "gopm \<Rightarrow> string \<Rightarrow> nat option" where
  "lookup s name = map_of (g_procs s) name"

definition set_mp :: "nat \<Rightarrow> ManagedProcess \<Rightarrow> gopm \<Rightarrow> gopm" where
  "set_mp a mp s = s\<lparr>g_mps := (g_mps s)(a := mp)\<rparr>"

definition emit :: "out list \<Rightarrow> gopm \<Rightarrow> gopm" where
  "emit os s = s\<lparr>g_trace := g_trace s @ os\<rparr>"

text \<open>Closing a closed channel panics.\<close>

definition close_stop :: "nat \<Rightarrow> gopm \<Rightarrow> gopm" where
  "close_stop ch s =
     (if ch \<in> g_stopClosed s then s\<lparr>g_panic := True\<rparr>
      else s\<lparr>g_stopClosed := insert ch (g_stopClosed s)\<rparr>)"

definition close_done :: "nat \<Rightarrow> gopm \<Rightarrow> gopm" where
  "close_done ch s =
     (if ch \<in> g_doneClosed s then s\<lparr>g_panic := True\<rparr>
      else s\<lparr>g_doneClosed := insert ch (g_doneClosed s)\<rparr>)"

section \<open>Client commands\<close>

text \<open>
  What the environment decides in a command: nothing, that the 30 s timer of \<open>stopProcess\<close>
  fired, whether the port was busy, the order in which Go ranges over the registry, whether
  \<open>Save\<close> succeeded.
\<close>

datatype opev = OGo | OTimeout | OPort bool | OOrder "string list" | OSaved bool

definition range_order :: "gopm \<Rightarrow> string list \<Rightarrow> bool" where
  "range_order s ns \<longleftrightarrow> distinct ns \<and> set ns = fst ` set (g_procs s)"

definition addr_of :: "gopm \<Rightarrow> string \<Rightarrow> nat" where
  "addr_of s n = the (lookup s n)"

text \<open>The part of \<open>persist\<close> under the lock.\<close>

definition take_snapshot :: "gopm \<Rightarrow> string list \<Rightarrow> snapshot" where
  "take_snapshot s ns = map (\<lambda>n. let mp = g_mps s (addr_of s n) in (mp_Config mp, mp_restarts mp)) ns"

text \<open>Registration of a new app in \<open>StartApp\<close>.\<close>

definition port_msg :: "int \<Rightarrow> string" where
  "port_msg port =
     ''[gopm] WARNING: port '' @ int_dec port @ '' already in use ''
       @ [CHR 0xE2, CHR 0x80, CHR 0x94] @ '' process may fail to bind''"

definition register :: "AppConfig \<Rightarrow> gopm \<Rightarrow> gopm" where
  "register cfg s =
     s\<lparr>g_mps := (g_mps s)(g_nextID s := newManagedProcess (g_nextID s) cfg (g_nextCh s) (g_nextCh s)),
       g_procs := g_procs s @ [(ac_Name cfg, g_nextID s)],
       g_nextID := Suc (g_nextID s), g_nextCh := Suc (g_nextCh s)\<rparr>"

definition start_app :: "bool \<Rightarrow> AppConfig \<Rightarrow> gopm \<Rightarrow> gopm \<times> task" where
  "start_app busy cfg s =
     (case lookup s (ac_Name cfg) of
        Some a \<Rightarrow> (s, TSetConfig a cfg)
      | None \<Rightarrow>
          (register cfg (if 0 < ac_Port cfg \<and> busy then emit [OLog (ac_Name cfg) (port_msg (ac_Port cfg))] s else s),
           TSetLog (g_nextID s) cfg))"

text \<open>The section of \<open>stopProcess\<close> under \<open>mp.mu\<close>: close the stop channel once, read the command.\<close>

definition request_stop :: "nat \<Rightarrow> gopm \<Rightarrow> gopm" where
  "request_stop a s =
     (let ch = mp_stopCh (g_mps s a) in if ch \<in> g_stopClosed s then s else close_stop ch s)"

text \<open>Where \<open>stopProcess\<close> returns to, with nil or with the timeout.\<close>

definition stopped_to :: "stop_kont \<Rightarrow> nat \<Rightarrow> task" where
  "stopped_to k a =
     (case k of KStopCmd \<Rightarrow> TDone None | KRestartCmd \<Rightarrow> TReplace a | KDeleteCmd n \<Rightarrow> TRemove n
      | KShutdown as \<Rightarrow> TShut as)"

definition timed_out_to :: "stop_kont \<Rightarrow> nat \<Rightarrow> task" where
  "timed_out_to k a =
     (case k of KStopCmd \<Rightarrow> TDone (Some StopTimeout) | KRestartCmd \<Rightarrow> TUnlock a (Some StopTimeout)
      | KDeleteCmd n \<Rightarrow> TDone (Some StopTimeout) | KShutdown as \<Rightarrow> TShut as)"

definition force_of :: "stop_kont \<Rightarrow> bool" where
  "force_of k = (case k of KStopCmd \<Rightarrow> False | KRestartCmd \<Rightarrow> False | _ \<Rightarrow> True)"

text \<open>The channels and counters \<open>Restart\<close> replaces, under \<open>mp.mu\<close>.\<close>

definition renew :: "nat \<Rightarrow> gopm \<Rightarrow> gopm" where
  "renew a s =
     (set_mp a ((g_mps s a)\<lparr>mp_stopCh := g_nextCh s, mp_done := g_nextCh s, mp_restarts := 0, mp_crashNotified := False\<rparr>) s)
       \<lparr>g_nextCh := Suc (g_nextCh s)\<rparr>"

definition try_lock :: "nat \<Rightarrow> gopm \<Rightarrow> gopm \<times> task" where
  "try_lock a s =
     (if mp_restartMu (g_mps s a) then (s, TDone None)
      else (set_mp a ((g_mps s a)\<lparr>mp_restartMu := True\<rparr>) s, TClose KRestartCmd a))"

definition unlock :: "nat \<Rightarrow> gopm \<Rightarrow> gopm" where
  "unlock a s =
     (if mp_restartMu (g_mps s a) then set_mp a ((g_mps s a)\<lparr>mp_restartMu := False\<rparr>) s
      else s\<lparr>g_panic := True\<rparr>)"

definition found :: "gopm \<Rightarrow> string \<Rightarrow> (nat \<Rightarrow> task) \<Rightarrow> task" where
  "found s name t = (case lookup s name of None \<Rightarrow> TDone (Some (NoSuchProcess name)) | Some a \<Rightarrow> t a)"

text \<open>One step of a command: the new state, where the command is then, the goroutines it starts.\<close>

fun op_step :: "opev \<Rightarrow> task \<Rightarrow> gopm \<Rightarrow> (gopm \<times> task \<times> task list) option" where
  "op_step e (TStart cfg) s =
     (case e of OPort busy \<Rightarrow> (let (s', t) = start_app busy cfg s in Some (s', t, [])) | _ \<Rightarrow> None)"
| "op_step e (TSetConfig a cfg) s =
     (if e = OGo then Some (set_mp a ((g_mps s a)\<lparr>mp_Config := cfg\<rparr>) s, TDone None, [TRestart (ac_Name cfg)]) else None)"
| "op_step e (TSetLog a cfg) s =
     (if e = OGo then Some (emit [OSetLog (ac_Name cfg)] s, TSpawn a, []) else None)"
| "op_step e (TSpawn a) s = (if e = OGo then Some (s, TPersist, [TGo a]) else None)"
| "op_step e TPersist s =
     (case e of OOrder ns \<Rightarrow> if range_order s ns then Some (s, TSave (take_snapshot s ns), []) else None | _ \<Rightarrow> None)"
| "op_step e (TSave sn) s =
     (case e of OSaved ok \<Rightarrow> Some (if ok then s\<lparr>g_saved := Some sn\<rparr> else s, TDone None, []) | _ \<Rightarrow> None)"
| "op_step e (TStop name) s = (if e = OGo then Some (s, found s name (TClose KStopCmd), []) else None)"
| "op_step e (TRestart name) s = (if e = OGo then Some (s, found s name TTryLock, []) else None)"
| "op_step e (TDelete name) s = (if e = OGo then Some (s, found s name (TClose (KDeleteCmd name)), []) else None)"
| "op_step e (TTryLock a) s = (if e = OGo then (let (s', t) = try_lock a s in Some (s', t, [])) else None)"
| "op_step e (TClose k a) s =
     (if e = OGo then Some (request_stop a s,
        case mp_cmd (g_mps s a) of None \<Rightarrow> TWait k a | Some c \<Rightarrow> TKill k a c, []) else None)"
| "op_step e (TKill k a c) s = (if e = OGo then Some (emit [OKill c (force_of k)] s, TWait k a, []) else None)"
| "op_step e (TWait k a) s = (if e = OGo then Some (s, TBlocked k a (mp_done (g_mps s a)), []) else None)"
| "op_step e (TBlocked k a dn) s =
     (if e = OGo \<and> dn \<in> g_doneClosed s then Some (s, stopped_to k a, [])
      else if e = OTimeout then Some (s, timed_out_to k a, []) else None)"
| "op_step e (TReplace a) s = (if e = OGo then Some (renew a s, TRespawn a, []) else None)"
| "op_step e (TRespawn a) s = (if e = OGo then Some (s, TUnlock a None, [TGo a]) else None)"
| "op_step e (TUnlock a r) s = (if e = OGo then Some (unlock a s, TDone r, []) else None)"
| "op_step e (TRemove n) s =
     (if e = OGo then Some (s\<lparr>g_procs := filter (\<lambda>(m, a). m \<noteq> n) (g_procs s)\<rparr>, TDetach n, []) else None)"
| "op_step e (TDetach n) s = (if e = OGo then Some (emit [ODetach n] s, TPersist, []) else None)"
| "op_step e TShutdown s =
     (if g_stopped s then (if e = OGo then Some (s, TDone None, []) else None)
      else (case e of OOrder ns \<Rightarrow> if range_order s ns
              then Some (s\<lparr>g_stopped := True\<rparr>, TShut (map (addr_of s) ns), []) else None
            | _ \<Rightarrow> None))"
| "op_step e (TShut []) s = (if e = OGo then Some (s\<lparr>g_ctx := True\<rparr>, TDone None, []) else None)"
| "op_step e (TShut (a # as)) s = (if e = OGo then Some (s, TClose (KShutdown as) a, []) else None)"
| "op_step e (TDone r) s = None"
| "op_step e (TGo a) s = None"
| "op_step e (TSup a dn l) s = None"

text \<open>The same steps as a relation, one rule for each way a command can move.\<close>

inductive op_tr :: "opev \<Rightarrow> task \<Rightarrow> gopm \<Rightarrow> gopm \<Rightarrow> task \<Rightarrow> task list \<Rightarrow> bool" where
  start_old: "lookup s (ac_Name cfg) = Some a \<Longrightarrow> op_tr (OPort busy) (TStart cfg) s s (TSetConfig a cfg) []"
| start_new: "lookup s (ac_Name cfg) = None \<Longrightarrow> os = (if 0 < ac_Port cfg \<and> busy then [OLog (ac_Name cfg) (port_msg (ac_Port cfg))] else [])
    \<Longrightarrow> op_tr (OPort busy) (TStart cfg) s (register cfg (emit os s)) (TSetLog (g_nextID s) cfg) []"
| set_config: "op_tr OGo (TSetConfig a cfg) s (set_mp a ((g_mps s a)\<lparr>mp_Config := cfg\<rparr>) s) (TDone None) [TRestart (ac_Name cfg)]"
| set_log: "op_tr OGo (TSetLog a cfg) s (emit [OSetLog (ac_Name cfg)] s) (TSpawn a) []"
| spawn: "op_tr OGo (TSpawn a) s s TPersist [TGo a]"
| persist: "range_order s ns \<Longrightarrow> op_tr (OOrder ns) TPersist s s (TSave (take_snapshot s ns)) []"
| save: "op_tr (OSaved True) (TSave sn) s (s\<lparr>g_saved := Some sn\<rparr>) (TDone None) []"
| save_failed: "op_tr (OSaved False) (TSave sn) s s (TDone None) []"
| stop: "op_tr OGo (TStop n) s s (found s n (TClose KStopCmd)) []"
| restart: "op_tr OGo (TRestart n) s s (found s n TTryLock) []"
| delete: "op_tr OGo (TDelete n) s s (found s n (TClose (KDeleteCmd n))) []"
| lock_busy: "mp_restartMu (g_mps s a) \<Longrightarrow> op_tr OGo (TTryLock a) s s (TDone None) []"
| lock: "\<not> mp_restartMu (g_mps s a)
    \<Longrightarrow> op_tr OGo (TTryLock a) s (set_mp a ((g_mps s a)\<lparr>mp_restartMu := True\<rparr>) s) (TClose KRestartCmd a) []"
| close_nocmd: "mp_cmd (g_mps s a) = None \<Longrightarrow> op_tr OGo (TClose k a) s (request_stop a s) (TWait k a) []"
| close_cmd: "mp_cmd (g_mps s a) = Some c \<Longrightarrow> op_tr OGo (TClose k a) s (request_stop a s) (TKill k a c) []"
| kill: "op_tr OGo (TKill k a c) s (emit [OKill c (force_of k)] s) (TWait k a) []"
| wait: "op_tr OGo (TWait k a) s s (TBlocked k a (mp_done (g_mps s a))) []"
| acked: "dn \<in> g_doneClosed s \<Longrightarrow> op_tr OGo (TBlocked k a dn) s s (stopped_to k a) []"
| timeout: "op_tr OTimeout (TBlocked k a dn) s s (timed_out_to k a) []"
| replace: "op_tr OGo (TReplace a) s (renew a s) (TRespawn a) []"
| respawn: "op_tr OGo (TRespawn a) s s (TUnlock a None) [TGo a]"
| unlock: "op_tr OGo (TUnlock a r) s (unlock a s) (TDone r) []"
| remove: "op_tr OGo (TRemove n) s (s\<lparr>g_procs := filter (\<lambda>(m, a). m \<noteq> n) (g_procs s)\<rparr>) (TDetach n) []"
| detach: "op_tr OGo (TDetach n) s (emit [ODetach n] s) TPersist []"
| shutdown_again: "g_stopped s \<Longrightarrow> op_tr OGo TShutdown s s (TDone None) []"
| shutdown: "\<not> g_stopped s \<Longrightarrow> range_order s ns
    \<Longrightarrow> op_tr (OOrder ns) TShutdown s (s\<lparr>g_stopped := True\<rparr>) (TShut (map (addr_of s) ns)) []"
| shut_end: "op_tr OGo (TShut []) s (s\<lparr>g_ctx := True\<rparr>) (TDone None) []"
| shut_next: "op_tr OGo (TShut (a # as)) s s (TClose (KShutdown as) a) []"

lemma emit_Nil [simp]: "emit [] s = s"
  by (simp add: emit_def)

lemma start_app_tr:
  "start_app busy cfg s = (s', t) \<Longrightarrow> op_tr (OPort busy) (TStart cfg) s s' t []"
  using op_tr.start_new [of s cfg "if 0 < ac_Port cfg \<and> busy then [OLog (ac_Name cfg) (port_msg (ac_Port cfg))] else []" busy]
  by (auto simp: start_app_def intro: op_tr.start_old split: option.splits if_splits)

lemma op_step_tr: "op_step e t s = Some (s', t', ts) \<Longrightarrow> op_tr e t s s' t' ts"
proof (cases t)
  case (TStart cfg)
  moreover assume "op_step e t s = Some (s', t', ts)"
  ultimately show ?thesis by (auto intro: start_app_tr split: opev.splits prod.splits)
next
  case (TShut as)
  moreover assume "op_step e t s = Some (s', t', ts)"
  ultimately show ?thesis by (cases as) (auto intro: op_tr.intros split: if_splits)
next
  case TShutdown
  moreover assume "op_step e t s = Some (s', t', ts)"
  ultimately show ?thesis by (cases e) (auto intro: op_tr.intros split: if_splits)
next
  case (TTryLock a)
  moreover assume "op_step e t s = Some (s', t', ts)"
  ultimately show ?thesis by (auto simp: try_lock_def intro: op_tr.intros split: if_splits)
next
  case (TClose k a)
  moreover assume "op_step e t s = Some (s', t', ts)"
  ultimately show ?thesis by (cases "mp_cmd (g_mps s a)") (auto intro: op_tr.intros split: if_splits)
qed (auto intro: op_tr.intros split: if_splits opev.splits)

section \<open>The supervise goroutines\<close>

definition status_of :: "gopm \<Rightarrow> string \<Rightarrow> Status option" where
  "status_of s name = map_option (\<lambda>a. mp_status (g_mps s a)) (lookup s name)"

definition view_of :: "(string \<Rightarrow> int option) \<Rightarrow> gopm \<Rightarrow> nat \<Rightarrow> view" where
  "view_of parse_duration s a =
     \<lparr>v_stop = (mp_stopCh (g_mps s a) \<in> g_stopClosed s), v_ctx = g_ctx s,
      v_dead = (\<lambda>c. c \<notin> g_alive s), v_deps = status_of s, v_dur = parse_duration\<rparr>"

text \<open>A started child is new and runs.\<close>

definition child_started :: "ev \<Rightarrow> gopm \<Rightarrow> gopm option" where
  "child_started e s =
     (case e of
        EStarted c pid \<Rightarrow>
          if c = g_nextChild s then Some (s\<lparr>g_nextChild := Suc c, g_alive := insert c (g_alive s)\<rparr>) else None
      | _ \<Rightarrow> Some s)"

text \<open>\<open>defer close(mp.done)\<close> at the first step fixes the channel that is closed at the return.\<close>

fun sup_task_step :: "(string \<Rightarrow> int option) \<Rightarrow> ev \<Rightarrow> task \<Rightarrow> gopm \<Rightarrow> (gopm \<times> task \<times> task list) option" where
  "sup_task_step pd e (TGo a) s =
     (if e = ETau then Some (s, TSup a (mp_done (g_mps s a)) init_loc, []) else None)"
| "sup_task_step pd e (TSup a dn l) s =
     (case sup_step (view_of pd s a) e (g_mps s a, l) of
        None \<Rightarrow> None
      | Some ((mp', l'), as) \<Rightarrow>
          (case child_started e s of
             None \<Rightarrow> None
           | Some s1 \<Rightarrow>
               Some ((if ACloseDone \<in> set as then close_done dn else (\<lambda>s. s)) (emit (map (OAct a) as) (set_mp a mp' s1)),
                     TSup a dn l', [])))"
| "sup_task_step pd e t s = None"

section \<open>The system\<close>

text \<open>
  A label: a request arrives, a command or a supervise goroutine moves, a child ends, or the
  file watcher of a process signals a rebuild (without blocking when a signal is pending).
\<close>

datatype label = LCmd task | LOp nat opev | LSup nat ev | LExit nat | LRebuild nat

definition is_request :: "task \<Rightarrow> bool" where
  "is_request t =
     (case t of TStart cfg \<Rightarrow> True | TStop n \<Rightarrow> True | TRestart n \<Rightarrow> True | TDelete n \<Rightarrow> True
      | TShutdown \<Rightarrow> True | _ \<Rightarrow> False)"

definition commit :: "nat \<Rightarrow> (gopm \<times> task \<times> task list) option \<Rightarrow> gopm option" where
  "commit i r = map_option (\<lambda>(s', t', ts). s'\<lparr>g_tasks := (g_tasks s')[i := t'] @ ts\<rparr>) r"

definition sys_step :: "(string \<Rightarrow> int option) \<Rightarrow> label \<Rightarrow> gopm \<Rightarrow> gopm option" where
  "sys_step pd lb s =
     (case lb of
        LCmd t \<Rightarrow> if is_request t then Some (s\<lparr>g_tasks := g_tasks s @ [t]\<rparr>) else None
      | LOp i e \<Rightarrow> if i < length (g_tasks s) then commit i (op_step e (g_tasks s ! i) s) else None
      | LSup i e \<Rightarrow> if i < length (g_tasks s) then commit i (sup_task_step pd e (g_tasks s ! i) s) else None
      | LExit c \<Rightarrow> if c \<in> g_alive s then Some (s\<lparr>g_alive := g_alive s - {c}\<rparr>) else None
      | LRebuild a \<Rightarrow> if a < g_nextID s then Some (set_mp a ((g_mps s a)\<lparr>mp_rebuildCh := True\<rparr>) s) else None)"

end
