(* ===== verification/System_Inv.thy ===== *)
theory System_Inv
  imports System
begin

text \<open>
  The invariants of the concurrent supervisor: every managed process has at most one supervise
  goroutine, every live child is watched by exactly one goroutine, no channel is closed twice,
  the restart lock is held by exactly the command inside \<open>Restart\<close>, and the registry leads to
  processes of the right name. Ownership is counted: the sum, over the goroutines, of the tokens
  each holds.
\<close>

section \<open>Counting over the goroutines\<close>

definition cnt :: "(task \<Rightarrow> nat) \<Rightarrow> task list \<Rightarrow> nat" where
  "cnt f ts = sum_list (map f ts)"

lemma cnt_simps [simp]: "cnt f [] = 0" "cnt f (t # ts) = f t + cnt f ts" "cnt f (ts @ us) = cnt f ts + cnt f us"
  by (simp_all add: cnt_def)

lemma cnt_update: "i < length ts \<Longrightarrow> cnt f (ts[i := t]) + f (ts ! i) = cnt f ts + f t"
  by (induction ts arbitrary: i) (auto split: nat.splits)

lemma cnt_ge: "i < length ts \<Longrightarrow> f (ts ! i) \<le> cnt f ts"
  by (induction ts arbitrary: i) (auto simp: less_Suc_eq_0_disj trans_le_add2)

lemma cnt_ge2: "i < length ts \<Longrightarrow> j < length ts \<Longrightarrow> i \<noteq> j \<Longrightarrow> f (ts ! i) + f (ts ! j) \<le> cnt f ts"
proof (induction ts arbitrary: i j)
  case Nil
  then show ?case by simp
next
  case (Cons t ts)
  show ?case
  proof (cases i)
    case 0
    then obtain j' where "j = Suc j'" using Cons.prems by (cases j) auto
    then show ?thesis using 0 Cons.prems cnt_ge [of j' ts f] by simp
  next
    case (Suc i')
    then show ?thesis using Cons.prems Cons.IH [of i' "j - 1"] cnt_ge [of i' ts f]
      by (cases j) auto
  qed
qed

lemma cnt_pos: "0 < cnt f ts \<longleftrightarrow> (\<exists>i < length ts. 0 < f (ts ! i))"
proof (induction ts)
  case Nil
  then show ?case by simp
next
  case (Cons t ts)
  show ?case unfolding cnt_simps Ex_less_Suc2 length_Cons using Cons.IH by simp
qed

lemma cnt_zero: "(\<And>t. t \<in> set ts \<Longrightarrow> f t = 0) \<Longrightarrow> cnt f ts = 0"
  by (induction ts) auto

section \<open>Tokens\<close>

text \<open>
  A goroutine owns a process when it supervises it or is going to start its supervise
  goroutine; it holds the restart lock of a process between \<open>TryLock\<close> and \<open>Unlock\<close>; it watches
  a child it has started until the child is dead.
\<close>

fun owner :: "nat \<Rightarrow> task \<Rightarrow> nat" where
  "owner a (TSetLog b cfg) = of_bool (b = a)"
| "owner a (TSpawn b) = of_bool (b = a)"
| "owner a (TRespawn b) = of_bool (b = a)"
| "owner a (TGo b) = of_bool (b = a)"
| "owner a (TSup b dn l) = of_bool (b = a \<and> l_pc l \<noteq> PHalt)"
| "owner a t = 0"

fun holder :: "nat \<Rightarrow> task \<Rightarrow> nat" where
  "holder a (TClose k b) = of_bool (k = KRestartCmd \<and> b = a)"
| "holder a (TKill k b c) = of_bool (k = KRestartCmd \<and> b = a)"
| "holder a (TWait k b) = of_bool (k = KRestartCmd \<and> b = a)"
| "holder a (TBlocked k b dn) = of_bool (k = KRestartCmd \<and> b = a)"
| "holder a (TReplace b) = of_bool (b = a)"
| "holder a (TRespawn b) = of_bool (b = a)"
| "holder a (TUnlock b r) = of_bool (b = a)"
| "holder a t = 0"

fun watches :: "nat \<Rightarrow> task \<Rightarrow> nat" where
  "watches c (TSup b dn l) = of_bool (child_of (l_pc l) = Some c)"
| "watches c t = 0"

fun addrs :: "task \<Rightarrow> nat set" where
  "addrs (TSetConfig a cfg) = {a}" | "addrs (TSetLog a cfg) = {a}" | "addrs (TSpawn a) = {a}"
| "addrs (TTryLock a) = {a}"
| "addrs (TClose k a) = insert a (case k of KShutdown as \<Rightarrow> set as | _ \<Rightarrow> {})"
| "addrs (TKill k a c) = insert a (case k of KShutdown as \<Rightarrow> set as | _ \<Rightarrow> {})"
| "addrs (TWait k a) = insert a (case k of KShutdown as \<Rightarrow> set as | _ \<Rightarrow> {})"
| "addrs (TBlocked k a dn) = insert a (case k of KShutdown as \<Rightarrow> set as | _ \<Rightarrow> {})"
| "addrs (TReplace a) = {a}" | "addrs (TRespawn a) = {a}" | "addrs (TUnlock a r) = {a}"
| "addrs (TShut as) = set as" | "addrs (TGo a) = {a}" | "addrs (TSup a dn l) = {a}"
| "addrs t = {}"

lemma owner_addrs: "a \<notin> addrs t \<Longrightarrow> owner a t = 0"
  by (cases t) auto

lemma holder_addrs: "a \<notin> addrs t \<Longrightarrow> holder a t = 0"
  by (cases t) auto

lemma owner_le: "owner a t \<le> 1"
  by (cases t) auto

section \<open>The invariant\<close>

definition done_closed :: "gopm \<Rightarrow> nat \<Rightarrow> bool" where
  "done_closed s a \<longleftrightarrow> a < g_nextID s \<and> mp_done (g_mps s a) \<in> g_doneClosed s"

definition inv_own :: "gopm \<Rightarrow> bool" where
  "inv_own s \<longleftrightarrow> (\<forall>a. cnt (owner a) (g_tasks s) + of_bool (done_closed s a) = of_bool (a < g_nextID s))"

definition locked :: "gopm \<Rightarrow> nat \<Rightarrow> bool" where
  "locked s a \<longleftrightarrow> a < g_nextID s \<and> mp_restartMu (g_mps s a)"

definition inv_lock :: "gopm \<Rightarrow> bool" where
  "inv_lock s \<longleftrightarrow> (\<forall>a. cnt (holder a) (g_tasks s) = of_bool (locked s a))"

definition inv_child :: "gopm \<Rightarrow> bool" where
  "inv_child s \<longleftrightarrow> (\<forall>c. cnt (watches c) (g_tasks s) \<le> 1
     \<and> (c \<in> g_alive s \<longrightarrow> cnt (watches c) (g_tasks s) = 1 \<and> c < g_nextChild s)
     \<and> (g_nextChild s \<le> c \<longrightarrow> cnt (watches c) (g_tasks s) = 0))"

definition inv_heap :: "gopm \<Rightarrow> bool" where
  "inv_heap s \<longleftrightarrow> \<not> g_panic s
     \<and> (\<forall>ch \<in> g_doneClosed s. ch < g_nextCh s) \<and> (\<forall>ch \<in> g_stopClosed s. ch < g_nextCh s)
     \<and> (\<forall>a < g_nextID s. mp_ID (g_mps s a) = a \<and> mp_done (g_mps s a) < g_nextCh s
          \<and> mp_stopCh (g_mps s a) < g_nextCh s \<and> 0 \<le> mp_restarts (g_mps s a))
     \<and> (\<forall>a < g_nextID s. \<forall>b < g_nextID s. mp_done (g_mps s a) = mp_done (g_mps s b) \<longrightarrow> a = b)"

definition app_name :: "gopm \<Rightarrow> nat \<Rightarrow> string" where
  "app_name s a = ac_Name (mp_Config (g_mps s a))"

definition inv_reg :: "gopm \<Rightarrow> bool" where
  "inv_reg s \<longleftrightarrow> distinct (map fst (g_procs s))
     \<and> (\<forall>(n, a) \<in> set (g_procs s). a < g_nextID s \<and> app_name s a = n)"

fun task_ok :: "gopm \<Rightarrow> task \<Rightarrow> bool" where
  "task_ok s (TSetConfig a cfg) = (ac_Name cfg = app_name s a)"
| "task_ok s (TKill k a c) = (k = KRestartCmd \<longrightarrow> mp_stopCh (g_mps s a) \<in> g_stopClosed s)"
| "task_ok s (TWait k a) = (k = KRestartCmd \<longrightarrow> mp_stopCh (g_mps s a) \<in> g_stopClosed s)"
| "task_ok s (TBlocked k a dn) =
     (k = KRestartCmd \<longrightarrow> mp_stopCh (g_mps s a) \<in> g_stopClosed s \<and> dn = mp_done (g_mps s a))"
| "task_ok s (TReplace a) = (mp_done (g_mps s a) \<in> g_doneClosed s)"
| "task_ok s (TSup a dn l) = (l_pc l \<noteq> PHalt \<longrightarrow> dn = mp_done (g_mps s a) \<and> sup_inv (g_mps s a, l))"
| "task_ok s t = True"

definition inv_tasks :: "gopm \<Rightarrow> bool" where
  "inv_tasks s \<longleftrightarrow> (\<forall>t \<in> set (g_tasks s). addrs t \<subseteq> {..< g_nextID s} \<and> task_ok s t)"

definition sys_inv :: "gopm \<Rightarrow> bool" where
  "sys_inv s \<longleftrightarrow> inv_own s \<and> inv_lock s \<and> inv_child s \<and> inv_heap s \<and> inv_reg s \<and> inv_tasks s"

text \<open>
  What a step may do to the heap without disturbing the other goroutines: names stay, a process
  with a holder keeps its channels, a process with an owner keeps its done channel and what its
  supervise goroutine relies on.
\<close>

definition keeps :: "gopm \<Rightarrow> gopm \<Rightarrow> task \<Rightarrow> bool" where
  "keeps s s' t \<longleftrightarrow> g_nextID s \<le> g_nextID s' \<and> g_stopClosed s \<subseteq> g_stopClosed s' \<and> g_doneClosed s \<subseteq> g_doneClosed s'
     \<and> (\<forall>a < g_nextID s. app_name s' a = app_name s a
          \<and> (0 < holder a t \<longrightarrow> mp_done (g_mps s' a) = mp_done (g_mps s a) \<and> mp_stopCh (g_mps s' a) = mp_stopCh (g_mps s a))
          \<and> (0 < owner a t \<longrightarrow> mp_done (g_mps s' a) = mp_done (g_mps s a)
               \<and> (\<forall>l. sup_inv (g_mps s a, l) \<longrightarrow> sup_inv (g_mps s' a, l))))"

lemma task_ok_keeps:
  assumes "task_ok s t" and "addrs t \<subseteq> {..< g_nextID s}" and "keeps s s' t"
  shows "task_ok s' t \<and> addrs t \<subseteq> {..< g_nextID s'}"
  using assms by (cases t) (auto simp: keeps_def)


section \<open>Client commands keep the invariant\<close>

lemmas op_defs = register_def request_stop_def close_stop_def unlock_def renew_def
  set_mp_def emit_def found_def stopped_to_def timed_out_to_def newManagedProcess_def Let_def

lemma request_stop_simps [simp]:
  "g_procs (request_stop a s) = g_procs s" "g_nextID (request_stop a s) = g_nextID s"
  "g_mps (request_stop a s) = g_mps s" "g_nextCh (request_stop a s) = g_nextCh s"
  "g_doneClosed (request_stop a s) = g_doneClosed s" "g_tasks (request_stop a s) = g_tasks s"
  "g_alive (request_stop a s) = g_alive s" "g_nextChild (request_stop a s) = g_nextChild s"
  "g_panic (request_stop a s) = g_panic s"
  "g_stopClosed (request_stop a s) = insert (mp_stopCh (g_mps s a)) (g_stopClosed s)"
  by (auto simp: request_stop_def close_stop_def Let_def)

lemma set_mp_simps [simp]:
  "g_procs (set_mp a mp s) = g_procs s" "g_nextID (set_mp a mp s) = g_nextID s"
  "g_mps (set_mp a mp s) = (g_mps s)(a := mp)" "g_nextCh (set_mp a mp s) = g_nextCh s"
  "g_doneClosed (set_mp a mp s) = g_doneClosed s" "g_stopClosed (set_mp a mp s) = g_stopClosed s"
  "g_tasks (set_mp a mp s) = g_tasks s" "g_alive (set_mp a mp s) = g_alive s"
  "g_nextChild (set_mp a mp s) = g_nextChild s" "g_panic (set_mp a mp s) = g_panic s"
  by (simp_all add: set_mp_def)

lemma emit_simps [simp]:
  "g_procs (emit os s) = g_procs s" "g_nextID (emit os s) = g_nextID s"
  "g_mps (emit os s) = g_mps s" "g_nextCh (emit os s) = g_nextCh s"
  "g_doneClosed (emit os s) = g_doneClosed s" "g_stopClosed (emit os s) = g_stopClosed s"
  "g_tasks (emit os s) = g_tasks s" "g_alive (emit os s) = g_alive s"
  "g_nextChild (emit os s) = g_nextChild s" "g_panic (emit os s) = g_panic s"
  by (simp_all add: emit_def)

lemma op_tr_tasks: "op_tr e t s s' t' ts \<Longrightarrow> g_tasks s' = g_tasks s"
  by (induction rule: op_tr.induct) (auto simp: register_def renew_def unlock_def)

lemma tokens_of_targets [simp]:
  "owner a (found s n (TClose k)) = 0" "owner a (found s n TTryLock) = 0"
  "owner a (stopped_to k b) = 0" "owner a (timed_out_to k b) = 0"
  "watches c (found s n (TClose k)) = 0" "watches c (found s n TTryLock) = 0"
  "watches c (stopped_to k b) = 0" "watches c (timed_out_to k b) = 0"
  "k \<noteq> KRestartCmd \<Longrightarrow> holder a (found s n (TClose k)) = 0" "holder a (found s n TTryLock) = 0"
  "holder a (stopped_to k b) = of_bool (k = KRestartCmd \<and> b = a)"
  "holder a (timed_out_to k b) = of_bool (k = KRestartCmd \<and> b = a)"
  by (auto simp: found_def stopped_to_def timed_out_to_def split: option.splits stop_kont.splits)

lemma op_tr_children:
  "op_tr e t s s' t' ts \<Longrightarrow>
     g_alive s' = g_alive s \<and> g_nextChild s' = g_nextChild s
     \<and> watches c t = 0 \<and> watches c t' = 0 \<and> cnt (watches c) ts = 0"
  by (induction rule: op_tr.induct) (auto simp: register_def renew_def unlock_def)

lemma lookup_reg: "inv_reg s \<Longrightarrow> lookup s n = Some a \<Longrightarrow> a < g_nextID s \<and> app_name s a = n"
  by (auto simp: inv_reg_def lookup_def dest!: map_of_SomeD)

lemma new_channel_open: "inv_heap s \<Longrightarrow> g_nextCh s \<notin> g_doneClosed s \<and> g_nextCh s \<notin> g_stopClosed s"
  by (auto simp: inv_heap_def)

lemma op_tr_owner:
  "op_tr e t s s' t' ts \<Longrightarrow> inv_heap s \<Longrightarrow> task_ok s t \<Longrightarrow> addrs t \<subseteq> {..< g_nextID s} \<Longrightarrow>
   owner a t' + cnt (owner a) ts + of_bool (done_closed s' a) + of_bool (a < g_nextID s)
    = owner a t + of_bool (done_closed s a) + of_bool (a < g_nextID s')"
proof (induction rule: op_tr.induct)
  case (start_new s cfg os busy)
  then show ?case using new_channel_open [of s] by (auto simp: done_closed_def op_defs less_Suc_eq)
next
  case (replace b s)
  then show ?case using new_channel_open [of s] by (auto simp: done_closed_def renew_def)
qed (auto simp: done_closed_def unlock_def)

lemma op_tr_holder:
  "op_tr e t s s' t' ts \<Longrightarrow> addrs t \<subseteq> {..< g_nextID s} \<Longrightarrow> (\<And>a. 0 < holder a t \<Longrightarrow> mp_restartMu (g_mps s a)) \<Longrightarrow>
   holder a t' + cnt (holder a) ts + of_bool (locked s a) = of_bool (locked s' a) + holder a t"
proof (induction rule: op_tr.induct)
  case (start_new s cfg os busy)
  then show ?case by (auto simp: locked_def op_defs less_Suc_eq)
next
  case (unlock b r s)
  then show ?case by (auto simp: locked_def unlock_def)
qed (auto simp: locked_def renew_def)

text \<open>Changes of one process or of the registry that keep the heap well-formed.\<close>

lemma inv_heap_set_mp:
  assumes "inv_heap s" and "mp_ID mp = mp_ID (g_mps s a)" and "mp_done mp = mp_done (g_mps s a)"
    and "mp_stopCh mp = mp_stopCh (g_mps s a)" and "0 \<le> mp_restarts (g_mps s a) \<Longrightarrow> 0 \<le> mp_restarts mp"
  shows "inv_heap (set_mp a mp s)"
proof -
  let ?f = "(g_mps s)(a := mp)"
  have "mp_ID (?f b) = mp_ID (g_mps s b)" "mp_done (?f b) = mp_done (g_mps s b)"
    "mp_stopCh (?f b) = mp_stopCh (g_mps s b)" "0 \<le> mp_restarts (g_mps s b) \<Longrightarrow> 0 \<le> mp_restarts (?f b)" for b
    using assms by (cases "b = a"; simp)+
  then show ?thesis using assms(1) unfolding inv_heap_def set_mp_simps by presburger
qed

lemma inv_heap_register:
  assumes "inv_heap s"
  shows "inv_heap (register cfg s)"
proof -
  have "g_nextCh s \<noteq> mp_done (g_mps s a) \<and> mp_done (g_mps s a) \<noteq> g_nextCh s" if "a < g_nextID s" for a
    using assms that unfolding inv_heap_def by fastforce
  then show ?thesis using assms unfolding inv_heap_def register_def newManagedProcess_def
    by (simp add: less_Suc_eq fun_upd_def)
qed

lemma inv_heap_renew:
  assumes "inv_heap s"
  shows "inv_heap (renew b s)"
proof -
  have "g_nextCh s \<noteq> mp_done (g_mps s a) \<and> mp_done (g_mps s a) \<noteq> g_nextCh s" if "a < g_nextID s" for a
    using assms that unfolding inv_heap_def by fastforce
  then show ?thesis using assms unfolding inv_heap_def renew_def
    by (simp add: less_Suc_eq fun_upd_def)
qed

lemma inv_heap_same:
  "inv_heap s \<Longrightarrow> g_panic s' = g_panic s \<Longrightarrow> g_doneClosed s' = g_doneClosed s \<Longrightarrow> g_stopClosed s' = g_stopClosed s
   \<Longrightarrow> g_nextCh s' = g_nextCh s \<Longrightarrow> g_nextID s' = g_nextID s \<Longrightarrow> g_mps s' = g_mps s \<Longrightarrow> inv_heap s'"
  by (simp add: inv_heap_def)

lemma inv_heap_other [simp]:
  "inv_heap (emit os s) = inv_heap s" "inv_heap (s\<lparr>g_saved := v\<rparr>) = inv_heap s"
  "inv_heap (s\<lparr>g_procs := ps\<rparr>) = inv_heap s" "inv_heap (s\<lparr>g_stopped := b\<rparr>) = inv_heap s"
  "inv_heap (s\<lparr>g_ctx := b\<rparr>) = inv_heap s" "inv_heap (s\<lparr>g_tasks := ts\<rparr>) = inv_heap s"
  by (simp_all add: inv_heap_def)

lemma inv_heap_request_stop: "inv_heap s \<Longrightarrow> a < g_nextID s \<Longrightarrow> inv_heap (request_stop a s)"
  unfolding inv_heap_def by simp

lemma op_tr_heap:
  "op_tr e t s s' t' ts \<Longrightarrow> inv_heap s \<Longrightarrow> addrs t \<subseteq> {..< g_nextID s} \<Longrightarrow>
   \<forall>a. 0 < holder a t \<longrightarrow> mp_restartMu (g_mps s a) \<Longrightarrow> inv_heap s'"
  by (induction rule: op_tr.induct)
    (simp_all add: inv_heap_register inv_heap_renew inv_heap_set_mp inv_heap_request_stop unlock_def
      split: if_splits)

lemma app_name_simps [simp]:
  "app_name (emit os s) = app_name s" "app_name (request_stop a s) = app_name s"
  "app_name (set_mp a mp s) b = (if b = a then ac_Name (mp_Config mp) else app_name s b)"
  by (auto simp: app_name_def)

text \<open>A command changes the registry and the names in only two ways.\<close>

lemma inv_reg_same:
  "inv_reg s \<Longrightarrow> g_procs s' = g_procs s \<Longrightarrow> g_nextID s' = g_nextID s \<Longrightarrow> app_name s' = app_name s \<Longrightarrow> inv_reg s'"
  by (simp add: inv_reg_def)

lemma inv_reg_emit [simp]: "inv_reg (emit os s) = inv_reg s"
  by (simp add: inv_reg_def)

lemma app_name_register:
  "a < g_nextID s \<Longrightarrow> app_name (register cfg s) a = app_name s a"
  "app_name (register cfg s) (g_nextID s) = ac_Name cfg"
  by (simp_all add: app_name_def register_def newManagedProcess_def)

lemma inv_reg_register:
  assumes "inv_reg s" and "lookup s (ac_Name cfg) = None"
  shows "inv_reg (register cfg s)"
proof -
  have "g_procs (register cfg s) = g_procs s @ [(ac_Name cfg, g_nextID s)]" "g_nextID (register cfg s) = Suc (g_nextID s)"
    by (simp_all add: register_def)
  moreover have "ac_Name cfg \<notin> fst ` set (g_procs s)"
    using assms(2) by (simp add: lookup_def map_of_eq_None_iff)
  ultimately show ?thesis using assms(1) unfolding inv_reg_def
    by (auto simp: app_name_register less_Suc_eq)
qed

lemma app_name_unlock [simp]: "app_name (unlock a s) = app_name s"
  by (auto simp: app_name_def unlock_def)

lemma app_name_renew [simp]: "app_name (renew a s) = app_name s"
  by (auto simp: app_name_def renew_def)

lemma app_name_other [simp]:
  "app_name (s\<lparr>g_saved := v\<rparr>) = app_name s" "app_name (s\<lparr>g_procs := ps\<rparr>) = app_name s"
  "app_name (s\<lparr>g_stopped := b\<rparr>) = app_name s" "app_name (s\<lparr>g_ctx := b\<rparr>) = app_name s"
  "app_name (s\<lparr>g_tasks := ts\<rparr>) = app_name s"
  by (simp_all add: app_name_def fun_eq_iff)

lemma op_tr_reg:
  "op_tr e t s s' t' ts \<Longrightarrow> inv_reg s \<Longrightarrow> task_ok s t \<Longrightarrow> inv_reg s'"
proof (induction rule: op_tr.induct)
  case (start_new s cfg os busy)
  then show ?case by (auto intro!: inv_reg_register inv_reg_same [of s "emit os s"] simp: lookup_def)
next
  case (remove n s)
  then show ?case by (auto simp: inv_reg_def distinct_map inj_on_def)
next
  case (unlock b r s)
  then show ?case by (auto intro: inv_reg_same simp: unlock_def app_name_def fun_eq_iff)
next
  case (replace b s)
  then show ?case by (auto intro: inv_reg_same simp: renew_def app_name_def fun_eq_iff)
qed (auto intro: inv_reg_same simp: app_name_def fun_eq_iff)

text \<open>The goroutine that moved is well-formed afterwards, and so are those it starts.\<close>

lemma found_ok: "inv_reg s \<Longrightarrow> (\<And>a. addrs (t a) = {a} \<and> task_ok s (t a)) \<Longrightarrow>
    addrs (found s n t) \<subseteq> {..< g_nextID s} \<and> task_ok s (found s n t)"
  by (auto simp: found_def dest: lookup_reg split: option.splits)

lemma addr_of_bound: "inv_reg s \<Longrightarrow> range_order s ns \<Longrightarrow> n \<in> set ns \<Longrightarrow> addr_of s n < g_nextID s"
proof -
  assume r: "inv_reg s" and "range_order s ns" "n \<in> set ns"
  then have "n \<in> fst ` set (g_procs s)" by (auto simp: range_order_def)
  then obtain a where "lookup s n = Some a" unfolding lookup_def by (metis map_of_eq_None_iff not_None_eq)
  then show ?thesis using lookup_reg [OF r] by (auto simp: addr_of_def)
qed

lemma op_tr_self:
  "op_tr e t s s' t' ts \<Longrightarrow> inv_reg s \<Longrightarrow> task_ok s t \<Longrightarrow> addrs t \<subseteq> {..< g_nextID s} \<Longrightarrow>
   \<forall>u \<in> set (t' # ts). addrs u \<subseteq> {..< g_nextID s'} \<and> task_ok s' u"
proof (induction rule: op_tr.induct)
  case (start_old s cfg a busy)
  then show ?case by (auto dest: lookup_reg)
next
  case (start_new s cfg os busy)
  then show ?case by (auto simp: register_def)
next
  case (stop n s)
  then show ?case using found_ok [of s "TClose KStopCmd" n] by simp
next
  case (restart n s)
  then show ?case using found_ok [of s TTryLock n] by simp
next
  case (delete n s)
  then show ?case using found_ok [of s "TClose (KDeleteCmd n)" n] by simp
next
  case (shutdown s ns)
  then show ?case by (auto simp: addr_of_bound)
next
  case (unlock a r s)
  then show ?case by (auto simp: unlock_def)
next
  case (replace a s)
  then show ?case by (auto simp: renew_def)
qed (auto simp: stopped_to_def timed_out_to_def split: stop_kont.splits)

text \<open>What a command does to the heap leaves the other goroutines' processes alone.\<close>

lemma keepsI:
  assumes "g_nextID s \<le> g_nextID s'" and "g_stopClosed s \<subseteq> g_stopClosed s'" and "g_doneClosed s \<subseteq> g_doneClosed s'"
    and "\<And>a. a < g_nextID s \<Longrightarrow> app_name s' a = app_name s a"
    and "\<And>a. a < g_nextID s \<Longrightarrow> mp_done (g_mps s' a) = mp_done (g_mps s a) \<and> mp_stopCh (g_mps s' a) = mp_stopCh (g_mps s a)"
    and "\<And>a l. a < g_nextID s \<Longrightarrow> sup_inv (g_mps s a, l) \<Longrightarrow> sup_inv (g_mps s' a, l)"
  shows "keeps s s' u"
  using assms by (simp add: keeps_def)

lemma sup_inv_frame [simp]:
  "sup_inv (mp\<lparr>mp_Config := cfg\<rparr>, l) = sup_inv (mp, l)"
  "sup_inv (mp\<lparr>mp_restartMu := b\<rparr>, l) = sup_inv (mp, l)"
  "sup_inv (mp\<lparr>mp_rebuildCh := b\<rparr>, l) = sup_inv (mp, l)"
  by (simp_all add: sup_inv_def)

lemma op_tr_keeps:
  "op_tr e t s s' t' ts \<Longrightarrow> task_ok s t \<Longrightarrow> 
   (\<forall>a. 0 < holder a t \<longrightarrow> holder a u = 0) \<Longrightarrow> (\<forall>a. done_closed s a \<longrightarrow> owner a u = 0) \<Longrightarrow> keeps s s' u"
proof (induction rule: op_tr.induct)
  case (start_new s cfg os busy)
  then show ?case
    by (intro keepsI) (auto simp: register_def app_name_def)
next
  case (replace b s)
  then show ?case by (auto simp: renew_def keeps_def app_name_def done_closed_def)
next
  case (unlock b r s)
  then show ?case by (intro keepsI) (auto simp: unlock_def app_name_def)
qed (intro keepsI; auto simp: app_name_def)+

section \<open>Supervise goroutines keep the invariant\<close>

lemma no_close_acts [simp]:
  "ACloseDone \<notin> set (pre_start_acts c r)" "ACloseDone \<notin> set (pipe_log w o1)" "ACloseDone \<notin> set (hc_started v cfg)"
  "ACloseDone \<notin> set (leave_acts l)" "ACloseDone \<notin> set (kill_timeout_acts k n)" "log_msg t m \<noteq> ACloseDone" "ACloseDone \<noteq> log_msg t m"
  by (auto simp: pre_start_acts_def pipe_log_def hc_started_def leave_acts_def kill_timeout_acts_def log_msg_def
      split: run_result.splits option.splits)

lemma sup_tr_close: "sup_tr v e mp l mp' l' as \<Longrightarrow> ACloseDone \<in> set as \<longleftrightarrow> l_pc l' = PHalt"
proof (induction rule: sup_tr.induct)
  case (start_fail l m mp mp' l' as v)
  then show ?case by (auto simp: branches split: branch_splits)
next
  case (run_exit l c v mp mp' l' bs)
  then show ?case by (auto simp: branches split: branch_splits)
next
  case (killed l r c v mp mp' l')
  then show ?case by (auto simp: branches split: branch_splits)
next
  case (forced l r c v mp mp' l')
  then show ?case by (auto simp: branches split: branch_splits)
qed (auto simp: build_done_def return_acts_def split: if_splits)

lemma sup_tr_running: "sup_tr v e mp l mp' l' as \<Longrightarrow> l_pc l \<noteq> PHalt"
  by (induction rule: sup_tr.induct) auto

text \<open>A child is gained by starting it and given up only when it is dead.\<close>

definition child_change :: "view \<Rightarrow> ev \<Rightarrow> loc \<Rightarrow> loc \<Rightarrow> bool" where
  "child_change v e l l' \<longleftrightarrow>
     (case e of
        EStarted c pid \<Rightarrow> child_of (l_pc l) = None \<and> child_of (l_pc l') = Some c
      | _ \<Rightarrow> child_of (l_pc l') = child_of (l_pc l)
          \<or> (child_of (l_pc l') = None \<and> (\<exists>c. child_of (l_pc l) = Some c \<and> v_dead v c)))"

lemma sup_tr_child: "sup_tr v e mp l mp' l' as \<Longrightarrow> child_change v e l l'"
proof (induction rule: sup_tr.induct)
  case (start_fail l m mp mp' l' as v)
  then show ?case by (auto simp: child_change_def branches split: branch_splits)
next
  case (run_exit l c v mp mp' l' bs)
  then show ?case by (auto simp: child_change_def branches split: branch_splits)
next
  case (killed l r c v mp mp' l')
  then show ?case by (auto simp: child_change_def branches split: branch_splits)
next
  case (forced l r c v mp mp' l')
  then show ?case by (auto simp: child_change_def branches split: branch_splits)
qed (auto simp: child_change_def build_done_def)

text \<open>The state after a step of a supervise goroutine, as one rule.\<close>

lemma sup_task_cases:
  assumes "sup_task_step pd e t s = Some (s', t', ts)"
  obtains (starts) a where "t = TGo a" "e = ETau" "s' = s" "t' = TSup a (mp_done (g_mps s a)) init_loc" "ts = []"
  | (moves) a dn l mp' l' as s1 where "t = TSup a dn l" "t' = TSup a dn l'" "ts = []"
      "sup_tr (view_of pd s a) e (g_mps s a) l mp' l' as" "child_started e s = Some s1"
      "s' = (if l_pc l' = PHalt then close_done dn else (\<lambda>s. s)) (emit (map (OAct a) as) (set_mp a mp' s1))"
proof (cases t)
  case (TGo a)
  then show ?thesis using assms starts by (auto split: if_splits)
next
  case (TSup a dn l)
  then obtain mp' l' as s1 where st: "sup_step (view_of pd s a) e (g_mps s a, l) = Some ((mp', l'), as)"
    "child_started e s = Some s1" "t' = TSup a dn l'" "ts = []"
    and s': "s' = (if ACloseDone \<in> set as then close_done dn else (\<lambda>s. s)) (emit (map (OAct a) as) (set_mp a mp' s1))"
    using assms by (auto split: option.splits prod.splits)
  have tr: "sup_tr (view_of pd s a) e (g_mps s a) l mp' l' as" using st(1) by (simp add: sup_step_iff)
  have "ACloseDone \<in> set as \<longleftrightarrow> l_pc l' = PHalt" using tr by (rule sup_tr_close)
  then show ?thesis using s' by (intro moves [OF TSup st(3,4) tr st(2)]) simp
qed (use assms in auto)

lemma child_started_simps:
  assumes "child_started e s = Some s1"
  shows "g_procs s1 = g_procs s" "g_nextID s1 = g_nextID s" "g_mps s1 = g_mps s" "g_nextCh s1 = g_nextCh s"
    "g_doneClosed s1 = g_doneClosed s" "g_stopClosed s1 = g_stopClosed s" "g_tasks s1 = g_tasks s"
    "g_panic s1 = g_panic s"
  using assms by (auto simp: child_started_def split: ev.splits if_splits)

lemma close_done_simps [simp]:
  "g_procs (close_done ch s) = g_procs s" "g_nextID (close_done ch s) = g_nextID s"
  "g_mps (close_done ch s) = g_mps s" "g_nextCh (close_done ch s) = g_nextCh s"
  "g_doneClosed (close_done ch s) = insert ch (g_doneClosed s)" "g_stopClosed (close_done ch s) = g_stopClosed s"
  "g_tasks (close_done ch s) = g_tasks s" "g_alive (close_done ch s) = g_alive s"
  "g_nextChild (close_done ch s) = g_nextChild s"
  "g_panic (close_done ch s) = (g_panic s \<or> ch \<in> g_doneClosed s)"
  by (auto simp: close_done_def)

text \<open>
  For the step of goroutine \<open>i\<close> in a good state: it is the only owner of its process, whose done
  channel is open.
\<close>

lemma only_owner:
  assumes "sys_inv s" and "i < length (g_tasks s)" and "0 < owner a (g_tasks s ! i)"
  shows "a < g_nextID s" "mp_done (g_mps s a) \<notin> g_doneClosed s"
    "\<And>j. j < length (g_tasks s) \<Longrightarrow> j \<noteq> i \<Longrightarrow> owner a (g_tasks s ! j) = 0"
proof -
  have eq: "cnt (owner a) (g_tasks s) + of_bool (done_closed s a) = of_bool (a < g_nextID s)"
    using assms(1) by (simp add: sys_inv_def inv_own_def)
  have ge: "0 < cnt (owner a) (g_tasks s)" using assms(2,3) cnt_pos by blast
  show a: "a < g_nextID s" using eq ge by (cases "a < g_nextID s") auto
  show "mp_done (g_mps s a) \<notin> g_doneClosed s" using eq ge a by (auto simp: done_closed_def)
  fix j assume "j < length (g_tasks s)" "j \<noteq> i"
  then show "owner a (g_tasks s ! j) = 0"
    using cnt_ge2 [of i "g_tasks s" j "owner a"] assms(2,3) eq a by auto
qed

lemma only_holder:
  assumes "sys_inv s" and "i < length (g_tasks s)" and "0 < holder a (g_tasks s ! i)"
  shows "locked s a" "\<And>j. j < length (g_tasks s) \<Longrightarrow> j \<noteq> i \<Longrightarrow> holder a (g_tasks s ! j) = 0"
proof -
  have eq: "cnt (holder a) (g_tasks s) = of_bool (locked s a)"
    using assms(1) by (simp add: sys_inv_def inv_lock_def)
  have ge: "0 < cnt (holder a) (g_tasks s)" using assms(2,3) cnt_pos by blast
  show a: "locked s a" using eq ge by (cases "locked s a") auto
  fix j assume "j < length (g_tasks s)" "j \<noteq> i"
  then show "holder a (g_tasks s ! j) = 0"
    using cnt_ge2 [of i "g_tasks s" j "holder a"] assms(2,3) eq a by auto
qed

lemma done_closed_no_owner:
  assumes "sys_inv s" and "done_closed s a" and "j < length (g_tasks s)"
  shows "owner a (g_tasks s ! j) = 0"
  using only_owner(2) [OF assms(1,3)] assms(2) by (force simp: done_closed_def)

lemma task_inv:
  "sys_inv s \<Longrightarrow> i < length (g_tasks s) \<Longrightarrow> addrs (g_tasks s ! i) \<subseteq> {..< g_nextID s} \<and> task_ok s (g_tasks s ! i)"
  by (auto simp: sys_inv_def inv_tasks_def)

text \<open>The facts about the process of a supervise goroutine that moves.\<close>

lemma sup_moves:
  assumes "sys_inv s" and "i < length (g_tasks s)" and "g_tasks s ! i = TSup a dn l"
    and "sup_tr v e (g_mps s a) l mp' l' as"
  shows "a < g_nextID s" "dn = mp_done (g_mps s a)" "dn \<notin> g_doneClosed s" "sup_inv (mp', l')"
    "mp_ID mp' = mp_ID (g_mps s a)" "mp_Config mp' = mp_Config (g_mps s a)" "mp_done mp' = dn"
    "mp_stopCh mp' = mp_stopCh (g_mps s a)" "mp_restartMu mp' = mp_restartMu (g_mps s a)" "0 \<le> mp_restarts mp'"
proof -
  have pc: "l_pc l \<noteq> PHalt" using assms(4) by (rule sup_tr_running)
  have own: "0 < owner a (g_tasks s ! i)" using assms(3) pc by simp
  show "a < g_nextID s" using only_owner(1) [OF assms(1,2) own] .
  have ok: "dn = mp_done (g_mps s a)" "sup_inv (g_mps s a, l)"
    using task_inv [OF assms(1,2)] assms(3) pc by simp_all
  show "dn = mp_done (g_mps s a)" by fact
  show "dn \<notin> g_doneClosed s" using only_owner(2) [OF assms(1,2) own] ok by simp
  show inv: "sup_inv (mp', l')" using sup_tr_inv [OF assms(4) ok(2)] .
  then show "0 \<le> mp_restarts mp'" by (simp add: sup_inv_def)
  show "mp_ID mp' = mp_ID (g_mps s a)" "mp_Config mp' = mp_Config (g_mps s a)" "mp_done mp' = dn"
    "mp_stopCh mp' = mp_stopCh (g_mps s a)" "mp_restartMu mp' = mp_restartMu (g_mps s a)"
    using sup_tr_frame [OF assms(4)] ok by (simp_all add: same_frame_def)
qed

lemma done_inject:
  "inv_heap s \<Longrightarrow> a < g_nextID s \<Longrightarrow> b < g_nextID s \<Longrightarrow> mp_done (g_mps s a) = mp_done (g_mps s b) \<longleftrightarrow> a = b"
  unfolding inv_heap_def by blast

lemma done_below: "inv_heap s \<Longrightarrow> a < g_nextID s \<Longrightarrow> mp_done (g_mps s a) < g_nextCh s"
  unfolding inv_heap_def by blast

lemma inv_heap_close_done:
  "inv_heap s \<Longrightarrow> ch < g_nextCh s \<Longrightarrow> ch \<notin> g_doneClosed s \<Longrightarrow> inv_heap (close_done ch s)"
  unfolding inv_heap_def by simp

lemma sup_task_owner:
  assumes "sup_task_step pd e t s = Some (s', t', ts)" and "sys_inv s" and "i < length (g_tasks s)" and "t = g_tasks s ! i"
  shows "owner b t' + cnt (owner b) ts + of_bool (done_closed s' b) + of_bool (b < g_nextID s)
    = owner b t + of_bool (done_closed s b) + of_bool (b < g_nextID s')"
  using assms(1)
proof (cases rule: sup_task_cases)
  case (starts a)
  then show ?thesis by (simp add: init_loc_def)
next
  case (moves a dn l mp' l' as s1)
  note f = sup_moves [OF assms(2,3) _ moves(4), of dn, folded assms(4), OF moves(1)]
  have heap: "inv_heap s" using assms(2) by (simp add: sys_inv_def)
  have pc: "l_pc l \<noteq> PHalt" using moves(4) by (rule sup_tr_running)
  have closed: "done_closed s' b \<longleftrightarrow> done_closed s b \<or> (l_pc l' = PHalt \<and> b = a)"
    using f(1-3,7) done_inject [OF heap _ f(1), of b] by (auto simp: moves(6) done_closed_def child_started_simps [OF moves(5)])
  show ?thesis using f(1-3) pc unfolding moves(1,2,3) closed
    by (auto simp: moves(6) child_started_simps [OF moves(5)] done_closed_def)
qed

lemma sup_task_holder:
  assumes "sup_task_step pd e t s = Some (s', t', ts)" and "sys_inv s" and "i < length (g_tasks s)" and "t = g_tasks s ! i"
  shows "holder b t' = 0 \<and> holder b t = 0 \<and> cnt (holder b) ts = 0 \<and> locked s' b = locked s b"
  using assms(1)
proof (cases rule: sup_task_cases)
  case (starts a)
  then show ?thesis by simp
next
  case (moves a dn l mp' l' as s1)
  note f = sup_moves [OF assms(2,3) _ moves(4), of dn, folded assms(4), OF moves(1)]
  show ?thesis using f(9) by (auto simp: moves(1,2,3,6) child_started_simps [OF moves(5)] locked_def)
qed

lemma sup_task_heap:
  assumes "sup_task_step pd e t s = Some (s', t', ts)" and "sys_inv s" and "i < length (g_tasks s)" and "t = g_tasks s ! i"
  shows "inv_heap s' \<and> inv_reg s' \<and> g_tasks s' = g_tasks s"
  using assms(1)
proof (cases rule: sup_task_cases)
  case (starts a)
  then show ?thesis using assms(2) by (simp add: sys_inv_def)
next
  case (moves a dn l mp' l' as s1)
  note f = sup_moves [OF assms(2,3) _ moves(4), of dn, folded assms(4), OF moves(1)]
  note s1 = child_started_simps [OF moves(5)]
  have heap: "inv_heap s" and reg: "inv_reg s" using assms(2) by (simp_all add: sys_inv_def)
  have "inv_heap s1" by (rule inv_heap_same [OF heap]) (simp_all add: s1)
  then have heap1: "inv_heap (set_mp a mp' s1)" using f by (intro inv_heap_set_mp) (simp_all add: s1)
  have "inv_heap (close_done dn (set_mp a mp' s1))"
    using f(2,3) done_below [OF heap f(1)] by (intro inv_heap_close_done heap1) (simp_all add: s1)
  moreover have "close_done dn (emit os s) = emit os (close_done dn s)" for os s
    by (simp add: close_done_def emit_def)
  ultimately have "inv_heap s'" using heap1 by (simp add: moves(6))
  moreover have "app_name s' = app_name s"
    by (rule ext) (simp add: moves(6) s1 app_name_def f(6))
  then have "inv_reg s'"
    by (intro inv_reg_same [OF reg]) (simp_all add: moves(6) s1)
  ultimately show ?thesis by (simp add: moves(6) s1)
qed

lemma sup_task_self:
  assumes "sup_task_step pd e t s = Some (s', t', ts)" and "sys_inv s" and "i < length (g_tasks s)" and "t = g_tasks s ! i"
  shows "\<forall>u \<in> set (t' # ts). addrs u \<subseteq> {..< g_nextID s'} \<and> task_ok s' u"
  using assms(1)
proof (cases rule: sup_task_cases)
  case (starts a)
  moreover have "a < g_nextID s" using task_inv [OF assms(2,3)] starts assms(4) by simp
  moreover have "0 \<le> mp_restarts (g_mps s a)" using calculation assms(2) by (simp add: sys_inv_def inv_heap_def)
  ultimately show ?thesis by (simp add: sup_inv_def init_loc_def)
next
  case (moves a dn l mp' l' as s1)
  note f = sup_moves [OF assms(2,3) _ moves(4), of dn, folded assms(4), OF moves(1)]
  show ?thesis using f by (simp add: moves(2,3,6) child_started_simps [OF moves(5)])
qed

lemma sup_task_keeps:
  assumes "sup_task_step pd e t s = Some (s', t', ts)" and "sys_inv s" and "i < length (g_tasks s)" and "t = g_tasks s ! i"
    and "\<forall>a. 0 < owner a t \<longrightarrow> owner a u = 0"
  shows "keeps s s' u"
  using assms(1)
proof (cases rule: sup_task_cases)
  case (starts a)
  then show ?thesis by (simp add: keeps_def)
next
  case (moves a dn l mp' l' as s1)
  note f = sup_moves [OF assms(2,3) _ moves(4), of dn, folded assms(4), OF moves(1)]
  have "owner a u = 0" using assms(5) moves(1) sup_tr_running [OF moves(4)] by simp
  then show ?thesis using f
    by (auto simp: keeps_def moves(6) child_started_simps [OF moves(5)] app_name_def)
qed

section \<open>The invariant holds in every reachable state\<close>

definition put_task :: "nat \<Rightarrow> task \<Rightarrow> task list \<Rightarrow> gopm \<Rightarrow> gopm" where
  "put_task i t' ts s = s\<lparr>g_tasks := (g_tasks s)[i := t'] @ ts\<rparr>"

lemma put_task_simps [simp]:
  "g_procs (put_task i t ts s) = g_procs s" "g_nextID (put_task i t ts s) = g_nextID s"
  "g_mps (put_task i t ts s) = g_mps s" "g_nextCh (put_task i t ts s) = g_nextCh s"
  "g_doneClosed (put_task i t ts s) = g_doneClosed s" "g_stopClosed (put_task i t ts s) = g_stopClosed s"
  "g_tasks (put_task i t ts s) = (g_tasks s)[i := t] @ ts" "g_alive (put_task i t ts s) = g_alive s"
  "g_nextChild (put_task i t ts s) = g_nextChild s" "g_panic (put_task i t ts s) = g_panic s"
  by (simp_all add: put_task_def)

lemma task_ok_other: "g_mps s' = g_mps s \<Longrightarrow> g_stopClosed s' = g_stopClosed s \<Longrightarrow> g_doneClosed s' = g_doneClosed s
    \<Longrightarrow> task_ok s' t = task_ok s t"
  by (cases t) (simp_all add: app_name_def)

lemma cnt_put: "i < length ts \<Longrightarrow> cnt f (ts[i := t'] @ us) + f (ts ! i) = cnt f ts + f t' + cnt f us"
  using cnt_update [of i ts f t'] by simp

lemma put_task_inv:
  assumes inv: "sys_inv s" and i: "i < length (g_tasks s)" and tasks: "g_tasks s' = g_tasks s"
    and own: "\<And>b. owner b t' + cnt (owner b) ts + of_bool (done_closed s' b) + of_bool (b < g_nextID s)
      = owner b (g_tasks s ! i) + of_bool (done_closed s b) + of_bool (b < g_nextID s')"
    and lock: "\<And>b. holder b t' + cnt (holder b) ts + of_bool (locked s b) = of_bool (locked s' b) + holder b (g_tasks s ! i)"
    and heap: "inv_heap s'" and reg: "inv_reg s'"
    and self: "\<forall>u \<in> set (t' # ts). addrs u \<subseteq> {..< g_nextID s'} \<and> task_ok s' u"
    and others: "\<And>j. j < length (g_tasks s) \<Longrightarrow> j \<noteq> i \<Longrightarrow> keeps s s' (g_tasks s ! j)"
    and child: "inv_child (put_task i t' ts s')"
  shows "sys_inv (put_task i t' ts s')"
proof -
  let ?s = "put_task i t' ts s'"
  have "inv_own ?s" unfolding inv_own_def
  proof
    fix b
    show "cnt (owner b) (g_tasks ?s) + of_bool (done_closed ?s b) = of_bool (b < g_nextID ?s)"
      using cnt_put [OF i, of "owner b" t' ts] own [of b] inv
      by (auto simp: sys_inv_def inv_own_def tasks done_closed_def dest!: spec [of _ b])
  qed
  moreover have "inv_lock ?s" unfolding inv_lock_def
  proof
    fix b
    show "cnt (holder b) (g_tasks ?s) = of_bool (locked ?s b)"
      using cnt_put [OF i, of "holder b" t' ts] lock [of b] inv
      by (auto simp: sys_inv_def inv_lock_def tasks locked_def dest!: spec [of _ b])
  qed
  moreover have "inv_heap ?s" using heap by (rule inv_heap_same) simp_all
  moreover have "inv_reg ?s" using reg by (rule inv_reg_same) (simp_all add: app_name_def fun_eq_iff)
  moreover have "inv_tasks ?s" unfolding inv_tasks_def
  proof
    fix u assume "u \<in> set (g_tasks ?s)"
    then have "u \<in> set (t' # ts) \<or> (\<exists>j < length (g_tasks s). j \<noteq> i \<and> u = g_tasks s ! j)"
    proof -
      assume "u \<in> set (g_tasks ?s)"
      then consider "u \<in> set ts" | j where "j < length (g_tasks s)" "u = (g_tasks s)[i := t'] ! j"
        by (auto simp: tasks in_set_conv_nth)
      then show ?thesis by cases (use i in \<open>auto simp: nth_list_update split: if_splits\<close>)
    qed
    then have "addrs u \<subseteq> {..< g_nextID s'} \<and> task_ok s' u"
    proof
      assume "\<exists>j < length (g_tasks s). j \<noteq> i \<and> u = g_tasks s ! j"
      then obtain j where j: "j < length (g_tasks s)" "j \<noteq> i" "u = g_tasks s ! j" by blast
      show ?thesis using task_ok_keeps [OF _ _ others [OF j(1,2)]] task_inv [OF inv j(1)] j(3) by simp
    qed (use self in blast)
    then show "addrs u \<subseteq> {..< g_nextID ?s} \<and> task_ok ?s u" using task_ok_other [of ?s s' u] by simp
  qed
  ultimately show ?thesis using child by (simp add: sys_inv_def)
qed

lemma op_step_inv [inv_intros]:
  assumes inv: "sys_inv s" and i: "i < length (g_tasks s)" and op: "op_step e (g_tasks s ! i) s = Some (s', t', ts)"
  shows "sys_inv (put_task i t' ts s')"
proof -
  let ?t = "g_tasks s ! i"
  note tr = op_step_tr [OF op]
  have ok: "task_ok s ?t" "addrs ?t \<subseteq> {..< g_nextID s}" using task_inv [OF inv i] by simp_all
  have hold: "mp_restartMu (g_mps s a)" if "0 < holder a ?t" for a
    using only_holder(1) [OF inv i that] by (simp add: locked_def)
  have parts: "inv_heap s" "inv_reg s" "inv_child s" using inv by (simp_all add: sys_inv_def)
  have "inv_child (put_task i t' ts s')" unfolding inv_child_def
  proof
    fix c
    have "cnt (watches c) ((g_tasks s)[i := t'] @ ts) = cnt (watches c) (g_tasks s)"
      using cnt_put [OF i, of "watches c" t' ts] op_tr_children [OF tr, of c] by simp
    then show "cnt (watches c) (g_tasks (put_task i t' ts s')) \<le> 1
      \<and> (c \<in> g_alive (put_task i t' ts s') \<longrightarrow> cnt (watches c) (g_tasks (put_task i t' ts s')) = 1
           \<and> c < g_nextChild (put_task i t' ts s'))
      \<and> (g_nextChild (put_task i t' ts s') \<le> c \<longrightarrow> cnt (watches c) (g_tasks (put_task i t' ts s')) = 0)"
      using parts(3) op_tr_children [OF tr, of c] op_tr_tasks [OF tr] by (simp add: inv_child_def)
  qed
  moreover have "keeps s s' (g_tasks s ! j)" if "j < length (g_tasks s)" "j \<noteq> i" for j
    using op_tr_keeps [OF tr ok(1)] only_holder(2) [OF inv i _ that] done_closed_no_owner [OF inv _ that(1)] by blast
  ultimately show ?thesis
    using put_task_inv [OF inv i op_tr_tasks [OF tr] op_tr_owner [OF tr parts(1) ok] op_tr_holder [OF tr ok(2) hold]
        op_tr_heap [OF tr parts(1) ok(2)] op_tr_reg [OF tr parts(2) ok(1)] op_tr_self [OF tr parts(2) ok]] hold by blast
qed

lemma sup_task_child:
  assumes inv: "sys_inv s" and i: "i < length (g_tasks s)" and st: "sup_task_step pd e (g_tasks s ! i) s = Some (s', t', ts)"
  shows "inv_child (put_task i t' ts s')"
  using st
proof (cases rule: sup_task_cases)
  case (starts a)
  have "cnt (watches c) ((g_tasks s)[i := t'] @ ts) = cnt (watches c) (g_tasks s)" for c
    using cnt_put [OF i, of "watches c" t' ts] starts by (simp add: init_loc_def)
  then show ?thesis using inv starts(3) by (simp add: sys_inv_def inv_child_def)
next
  case (moves a dn l mp' l' as s1)
  have old: "cnt (watches c) (g_tasks s) \<le> 1" "c \<in> g_alive s \<Longrightarrow> cnt (watches c) (g_tasks s) = 1 \<and> c < g_nextChild s"
    "g_nextChild s \<le> c \<Longrightarrow> cnt (watches c) (g_tasks s) = 0" for c
    using inv by (simp_all add: sys_inv_def inv_child_def)
  have new: "cnt (watches c) ((g_tasks s)[i := t'] @ ts) + of_bool (child_of (l_pc l) = Some c)
      = cnt (watches c) (g_tasks s) + of_bool (child_of (l_pc l') = Some c)" for c
    using cnt_put [OF i, of "watches c" t' ts] moves(1,2,3) by simp
  have s': "g_tasks s' = g_tasks s" "g_alive s' = g_alive s1" "g_nextChild s' = g_nextChild s1"
    by (simp_all add: moves(6) child_started_simps [OF moves(5)])
  note ch = sup_tr_child [OF moves(4)]
  show ?thesis
  proof (cases "\<exists>c pid. e = EStarted c pid")
    case True
    then obtain c0 pid where "e = EStarted c0 pid" by blast
    then have "child_of (l_pc l) = None" "child_of (l_pc l') = Some (g_nextChild s)"
      "g_alive s1 = insert (g_nextChild s) (g_alive s)" "g_nextChild s1 = Suc (g_nextChild s)"
      using ch moves(5) by (auto simp: child_change_def child_started_def split: if_splits)
    then show ?thesis using old new unfolding inv_child_def put_task_simps s' by (auto simp: less_Suc_eq)
  next
    case False
    then have e1: "g_alive s1 = g_alive s" "g_nextChild s1 = g_nextChild s"
      using moves(5) by (auto simp: child_started_def split: ev.splits)
    have e2: "child_of (l_pc l') = child_of (l_pc l)
        \<or> (child_of (l_pc l') = None \<and> (\<exists>c. child_of (l_pc l) = Some c \<and> c \<notin> g_alive s))"
      using False ch by (auto simp: child_change_def view_of_def split: ev.splits)
    show ?thesis unfolding inv_child_def put_task_simps s' e1
    proof (intro allI conjI impI)
      fix c
      show "cnt (watches c) ((g_tasks s)[i := t'] @ ts) \<le> 1"
        using e2 new [of c] old(1) [of c] by auto
      show "cnt (watches c) ((g_tasks s)[i := t'] @ ts) = 1" if "c \<in> g_alive s"
        using e2 new [of c] old(2) [OF that] that by (auto split: if_splits simp: of_bool_def)
      show "c < g_nextChild s" if "c \<in> g_alive s" using old(2) [OF that] by simp
      show "cnt (watches c) ((g_tasks s)[i := t'] @ ts) = 0" if "g_nextChild s \<le> c"
        using e2 new [of c] old(3) [OF that] by auto
    qed
  qed
qed

lemma sup_task_inv [inv_intros]:
  assumes inv: "sys_inv s" and i: "i < length (g_tasks s)" and st: "sup_task_step pd e (g_tasks s ! i) s = Some (s', t', ts)"
  shows "sys_inv (put_task i t' ts s')"
proof (rule put_task_inv [OF inv i])
  fix j assume "j < length (g_tasks s)" "j \<noteq> i"
  then show "keeps s s' (g_tasks s ! j)"
    using sup_task_keeps [OF st inv i refl] only_owner(3) [OF inv i] by blast
next
  fix b
  show "holder b t' + cnt (holder b) ts + of_bool (locked s b) = of_bool (locked s' b) + holder b (g_tasks s ! i)"
    using sup_task_holder [OF st inv i refl, of b] by simp
qed (use sup_task_heap [OF st inv i refl] sup_task_owner [OF st inv i refl] sup_task_self [OF st inv i refl]
    sup_task_child [OF inv i st] in auto)

text \<open>Requests, dying children and file changes.\<close>

lemma request_inv [inv_intros]:
  assumes "sys_inv s" and "is_request t"
  shows "sys_inv (s\<lparr>g_tasks := g_tasks s @ [t]\<rparr>)"
proof -
  have "owner b t = 0" "holder b t = 0" "watches c t = 0" "addrs t = {}" "task_ok u t" for b c u
    using assms(2) by (auto simp: is_request_def split: task.splits)
  moreover have "task_ok (s\<lparr>g_tasks := g_tasks s @ [t]\<rparr>) u = task_ok s u" for u
    by (rule task_ok_other) simp_all
  ultimately show ?thesis using assms(1)
    by (simp add: sys_inv_def inv_own_def inv_lock_def inv_child_def inv_tasks_def done_closed_def locked_def
        inv_reg_def)
qed

lemma exit_inv [inv_intros]:
  assumes "sys_inv s"
  shows "sys_inv (s\<lparr>g_alive := g_alive s - {c}\<rparr>)"
proof -
  have "task_ok (s\<lparr>g_alive := g_alive s - {c}\<rparr>) u = task_ok s u" for u
    by (rule task_ok_other) simp_all
  moreover have "inv_heap (s\<lparr>g_alive := g_alive s - {c}\<rparr>)"
    by (rule inv_heap_same [of s]) (use assms in \<open>simp_all add: sys_inv_def\<close>)
  ultimately show ?thesis using assms
    by (simp add: sys_inv_def inv_own_def inv_lock_def inv_child_def inv_tasks_def done_closed_def locked_def
        inv_reg_def app_name_def)
qed

lemma rebuild_inv [inv_intros]:
  assumes "sys_inv s"
  shows "sys_inv (set_mp a ((g_mps s a)\<lparr>mp_rebuildCh := True\<rparr>) s)"
proof -
  define s' where "s' = set_mp a ((g_mps s a)\<lparr>mp_rebuildCh := True\<rparr>) s"
  have same: "g_nextID s' = g_nextID s" "g_tasks s' = g_tasks s" "g_doneClosed s' = g_doneClosed s"
    "g_alive s' = g_alive s" "g_nextChild s' = g_nextChild s" "g_stopClosed s' = g_stopClosed s"
    "g_procs s' = g_procs s"
    by (simp_all add: s'_def)
  have mps: "mp_done (g_mps s' b) = mp_done (g_mps s b)" "mp_restartMu (g_mps s' b) = mp_restartMu (g_mps s b)"
    "mp_stopCh (g_mps s' b) = mp_stopCh (g_mps s b)" "app_name s' b = app_name s b"
    "sup_inv (g_mps s' b, l) = sup_inv (g_mps s b, l)" for b l
    by (simp_all add: s'_def app_name_def)
  have parts: "inv_own s" "inv_lock s" "inv_child s" "inv_heap s" "inv_reg s" "inv_tasks s"
    using assms by (simp_all add: sys_inv_def)
  have "task_ok s' u \<and> addrs u \<subseteq> {..< g_nextID s'}" if "u \<in> set (g_tasks s)" for u
  proof (rule task_ok_keeps)
    show "keeps s s' u" by (rule keepsI) (simp_all add: same mps)
  qed (use parts(6) that in \<open>simp_all add: inv_tasks_def\<close>)
  then have "inv_tasks s'" by (simp add: inv_tasks_def same)
  moreover have "inv_heap s'" unfolding s'_def by (rule inv_heap_set_mp [OF parts(4)]) simp_all
  moreover have "inv_reg s'" by (rule inv_reg_same [OF parts(5)]) (simp_all add: same mps fun_eq_iff)
  moreover have "done_closed s' b = done_closed s b" "locked s' b = locked s b" for b
    by (simp_all add: done_closed_def locked_def same mps)
  then have "inv_own s'" "inv_lock s'" "inv_child s'"
    using parts(1-3) by (simp_all add: inv_own_def inv_lock_def inv_child_def same)
  ultimately have "sys_inv s'" by (simp add: sys_inv_def)
  then show ?thesis by (simp add: s'_def)
qed

lemma commit_put:
  "commit i r = Some s' \<longleftrightarrow> (\<exists>s1 t' ts. r = Some (s1, t', ts) \<and> s' = put_task i t' ts s1)"
  by (auto simp: commit_def put_task_def)

lemma sys_step_inv:
  assumes "sys_step pd lb s = Some s'" and "sys_inv s"
  shows "sys_inv s'"
proof (cases lb)
  case (LCmd t)
  then show ?thesis using assms request_inv [of s t] by (simp add: sys_step_def split: if_splits)
next
  case (LOp i e)
  then obtain s1 t' ts where "i < length (g_tasks s)" "op_step e (g_tasks s ! i) s = Some (s1, t', ts)"
    "s' = put_task i t' ts s1"
    using assms(1) by (auto simp: sys_step_def commit_put split: if_splits)
  then show ?thesis using op_step_inv [OF assms(2)] by simp
next
  case (LSup i e)
  then obtain s1 t' ts where "i < length (g_tasks s)" "sup_task_step pd e (g_tasks s ! i) s = Some (s1, t', ts)"
    "s' = put_task i t' ts s1"
    using assms(1) by (auto simp: sys_step_def commit_put split: if_splits)
  then show ?thesis using sup_task_inv [OF assms(2)] by simp
next
  case (LExit c)
  then show ?thesis using assms exit_inv [of s c] by (simp add: sys_step_def split: if_splits)
next
  case (LRebuild a)
  then show ?thesis using assms rebuild_inv [of s a] by (simp add: sys_step_def split: if_splits)
qed

lemma New_inv: "sys_inv New"
  by (simp add: New_def sys_inv_def inv_own_def inv_lock_def inv_child_def inv_heap_def inv_reg_def inv_tasks_def
      done_closed_def locked_def)

interpretation daemon: transition_system "\<lambda>s. s = New" "sys_step pd" sys_inv
  by unfold_locales (auto intro: New_inv sys_step_inv)

end
