(* ===== verification/System_Props.thy ===== *)
theory System_Props
  imports System_Inv
begin

text \<open>
  What the concurrent supervisor guarantees in every reachable state, whatever the clients, the
  scheduler and the children do, and runs that show where it does not do what it means to.
\<close>

section \<open>Guarantees\<close>

abbreviation run_sys :: "(string \<Rightarrow> int option) \<Rightarrow> label list \<Rightarrow> gopm option" where
  "run_sys pd ls \<equiv> run_steps (sys_step pd) ls New"

definition supervises :: "gopm \<Rightarrow> nat \<Rightarrow> nat \<Rightarrow> bool" where
  "supervises s i a \<longleftrightarrow> i < length (g_tasks s) \<and> (\<exists>dn l. g_tasks s ! i = TSup a dn l \<and> l_pc l \<noteq> PHalt)"

definition has_child :: "gopm \<Rightarrow> nat \<Rightarrow> nat \<Rightarrow> bool" where
  "has_child s a c \<longleftrightarrow> c \<in> g_alive s
     \<and> list_ex (\<lambda>t. case t of TSup b dn l \<Rightarrow> b = a \<and> child_of (l_pc l) = Some c | _ \<Rightarrow> False) (g_tasks s)"

lemma has_child_iff:
  "has_child s a c \<longleftrightarrow> c \<in> g_alive s
     \<and> (\<exists>i < length (g_tasks s). \<exists>dn l. g_tasks s ! i = TSup a dn l \<and> child_of (l_pc l) = Some c)"
proof -
  have "(case t of TSup b dn l \<Rightarrow> b = a \<and> child_of (l_pc l) = Some c | _ \<Rightarrow> False)
      \<longleftrightarrow> (\<exists>dn l. t = TSup a dn l \<and> child_of (l_pc l) = Some c)" for t
    by (cases t) auto
  then show ?thesis by (simp add: has_child_def list_ex_length)
qed

lemma reach_sys_inv: "run_sys pd ls = Some s \<Longrightarrow> sys_inv s"
  by (rule daemon.reach_inv) simp_all

lemma supervises_owner: "supervises s i a \<Longrightarrow> i < length (g_tasks s) \<and> 0 < owner a (g_tasks s ! i)"
  by (auto simp: supervises_def)

lemma supervises_unique: "sys_inv s \<Longrightarrow> supervises s i a \<Longrightarrow> supervises s j a \<Longrightarrow> i = j"
  using only_owner(3) supervises_owner by (metis less_irrefl)

lemma watches_pos: "0 < watches c t \<longleftrightarrow> (\<exists>a dn l. t = TSup a dn l \<and> child_of (l_pc l) = Some c)"
  by (cases t) auto

lemma has_child_unique_process:
  assumes "sys_inv s" and "has_child s a c" and "has_child s b c"
  shows "a = b"
proof -
  obtain i dn l where i: "i < length (g_tasks s)" "g_tasks s ! i = TSup a dn l" "child_of (l_pc l) = Some c"
    using assms(2) by (auto simp: has_child_iff)
  obtain j dm m where j: "j < length (g_tasks s)" "g_tasks s ! j = TSup b dm m" "child_of (l_pc m) = Some c"
    using assms(3) by (auto simp: has_child_iff)
  have "cnt (watches c) (g_tasks s) \<le> 1" using assms(1) by (simp add: sys_inv_def inv_child_def)
  then have "i = j" using cnt_ge2 [of i "g_tasks s" j "watches c"] i j by fastforce
  then show ?thesis using i j by simp
qed

lemma has_child_unique_child:
  assumes "sys_inv s" and "has_child s a c" and "has_child s a d"
  shows "c = d"
proof -
  obtain i dn l where i: "i < length (g_tasks s)" "g_tasks s ! i = TSup a dn l" "child_of (l_pc l) = Some c"
    using assms(2) by (auto simp: has_child_iff)
  obtain j dm m where j: "j < length (g_tasks s)" "g_tasks s ! j = TSup a dm m" "child_of (l_pc m) = Some d"
    using assms(3) by (auto simp: has_child_iff)
  have "supervises s i a" "supervises s j a"
    using i j by (auto simp: supervises_def)
  then have "i = j" using supervises_unique [OF assms(1)] by blast
  then show ?thesis using i j by simp
qed

lemma alive_has_child:
  assumes "sys_inv s" and "c \<in> g_alive s"
  shows "\<exists>a. has_child s a c"
proof -
  have "0 < cnt (watches c) (g_tasks s)" using assms by (simp add: sys_inv_def inv_child_def)
  then obtain i where "i < length (g_tasks s)" "0 < watches c (g_tasks s ! i)" using cnt_pos by blast
  then show ?thesis using assms(2) by (auto simp: watches_pos has_child_iff)
qed

text \<open>C1. At any moment a managed process has at most one supervise goroutine, whatever commands
  run at the same time: two restarts, a restart and a start of the same app, or any other mix
  never leave two control loops competing for one process.\<close>

theorem one_supervisor_per_process:
  assumes "run_sys pd ls = Some s" and "supervises s i a" and "supervises s j a"
  shows "i = j"
  using supervises_unique [OF reach_sys_inv [OF assms(1)] assms(2,3)] .

text \<open>C8. Every child that runs is watched by the goroutine of exactly one managed process, and a
  managed process has at most one child running.\<close>

theorem one_child_per_process:
  assumes "run_sys pd ls = Some s" and "c \<in> g_alive s"
  shows "\<exists>!a. has_child s a c \<and> (\<forall>d. has_child s a d \<longrightarrow> d = c)"
proof -
  have inv: "sys_inv s" using assms(1) by (rule reach_sys_inv)
  obtain a where a: "has_child s a c" using alive_has_child [OF inv assms(2)] by blast
  show ?thesis
  proof (rule ex1I [of _ a])
    show "has_child s a c \<and> (\<forall>d. has_child s a d \<longrightarrow> d = c)"
      using a has_child_unique_child [OF inv] by blast
    show "b = a" if "has_child s b c \<and> (\<forall>d. has_child s b d \<longrightarrow> d = c)" for b
      using a that has_child_unique_process [OF inv] by blast
  qed
qed

text \<open>C4. No interleaving of commands, goroutines and children closes a channel twice or unlocks a
  restart lock that is not held: the daemon has no run-time panic there.\<close>

theorem no_channel_panic:
  assumes "run_sys pd ls = Some s"
  shows "\<not> g_panic s"
  using reach_sys_inv [OF assms] by (simp add: sys_inv_def inv_heap_def)


text \<open>A \<open>Restart\<close> that waits waits on the channel its process's goroutine will close, and
  that goroutine has been told to stop.\<close>

theorem restart_waits_for_its_goroutine:
  assumes "run_sys pd ls = Some s" and "i < length (g_tasks s)" and "g_tasks s ! i = TBlocked KRestartCmd a dn"
  shows "dn = mp_done (g_mps s a) \<and> v_stop (view_of pd s a)"
  using task_inv [OF reach_sys_inv [OF assms(1)] assms(2)] assms(3) by (simp add: view_of_def)

text \<open>C9. The registry leads from a name to a process configured under that name, the IDs are the
  order of registration, and no two names share a process.\<close>

theorem registry_consistent:
  assumes "run_sys pd ls = Some s"
  shows "distinct (map fst (g_procs s)) \<and> distinct (map snd (g_procs s))
     \<and> (\<forall>(n, a) \<in> set (g_procs s). a < g_nextID s \<and> mp_ID (g_mps s a) = a \<and> ac_Name (mp_Config (g_mps s a)) = n)"
proof -
  have inv: "sys_inv s" using assms by (rule reach_sys_inv)
  then have reg: "distinct (map fst (g_procs s))" "\<forall>(n, a) \<in> set (g_procs s). a < g_nextID s \<and> app_name s a = n"
    and ids: "\<forall>a < g_nextID s. mp_ID (g_mps s a) = a"
    by (simp_all add: sys_inv_def inv_reg_def inv_heap_def)
  have "inj_on snd (set (g_procs s))"
  proof (rule inj_onI)
    fix p q assume "p \<in> set (g_procs s)" "q \<in> set (g_procs s)" "snd p = snd q"
    then have "fst p = app_name s (snd p)" "fst q = app_name s (snd q)" using reg(2) by fastforce+
    with \<open>snd p = snd q\<close> show "p = q" by (simp add: prod_eq_iff)
  qed
  moreover have "distinct (g_procs s)" using reg(1) by (simp add: distinct_map)
  ultimately show ?thesis using reg ids by (auto simp: distinct_map app_name_def)
qed

section \<open>Runs\<close>

definition job :: AppConfig where
  "job = zero_app\<lparr>ac_Name := ''a'', ac_Command := ''x'', ac_AutoRestart := True\<rparr>"

definition no_dur :: "string \<Rightarrow> int option" where
  "no_dur s = None"

text \<open>A first \<open>start\<close>, the goroutine that brings its child up, and a stop that ends it.\<close>

definition start_run :: "label list" where
  "start_run = [LCmd (TStart job), LOp 0 (OPort False), LOp 0 OGo, LOp 0 OGo, LOp 0 (OOrder [''a'']), LOp 0 (OSaved True)]"

definition up_run :: "nat \<Rightarrow> nat \<Rightarrow> label list" where
  "up_run i c = map (LSup i) [ETau, ETau, ETau, ETau, EPipes None None, EStarted c 100, EPublish 5, ETau]"

definition down_run :: "nat \<Rightarrow> nat \<Rightarrow> label list" where
  "down_run i c = [LSup i EStop, LExit c, LSup i EExit, LSup i ETau]"

lemmas run_defs = start_run_def up_run_def down_run_def job_def no_dur_def zero_app_def New_def sys_step_def
  is_request_def commit_def start_app_def lookup_def register_def newManagedProcess_def emit_def range_order_def
  take_snapshot_def addr_of_def set_mp_def init_loc_def sup_defs goto_def setStatus_def view_of_def
  child_started_def close_done_def close_stop_def request_stop_def found_def try_lock_def unlock_def renew_def
  stopped_to_def timed_out_to_def pipe_log_def leave_run_def leave_acts_def after_kill_def
  hc_started_def Let_def return_acts_def

lemma up_state:
  "\<exists>s. run_sys no_dur (start_run @ up_run 1 0) = Some s \<and> g_alive s = {0} \<and> g_procs s = [(''a'', 0)]
     \<and> (\<exists>l. g_tasks s = [TDone None, TSup 0 0 l] \<and> l_pc l = PRun 0)"
  by (simp add: run_defs)

theorem one_supervisor_per_process_witness:
  "\<exists>s. run_sys no_dur (start_run @ up_run 1 0) = Some s \<and> supervises s 1 0
     \<and> (\<forall>j. supervises s j 0 \<longrightarrow> j = 1)"
proof -
  obtain s l where s: "run_sys no_dur (start_run @ up_run 1 0) = Some s"
    "g_tasks s = [TDone None, TSup 0 0 l]" "l_pc l = PRun 0"
    using up_state by blast
  have "supervises s 1 0" using s by (simp add: supervises_def)
  with s(1) show ?thesis using one_supervisor_per_process [OF s(1)] by blast
qed

theorem one_child_per_process_witness:
  "\<exists>s. run_sys no_dur (start_run @ up_run 1 0) = Some s \<and> 0 \<in> g_alive s
     \<and> (\<exists>!a. has_child s a 0 \<and> (\<forall>d. has_child s a d \<longrightarrow> d = 0))"
proof -
  obtain s where s: "run_sys no_dur (start_run @ up_run 1 0) = Some s" "g_alive s = {0}"
    using up_state by blast
  then show ?thesis using one_child_per_process [OF s(1), of 0] by auto
qed

theorem no_channel_panic_witness:
  "\<exists>s. run_sys no_dur (start_run @ up_run 1 0 @ [LCmd (TStop ''a''), LCmd (TDelete ''a'')]
       @ map (\<lambda>i. LOp i OGo) [2, 3, 2, 3]) = Some s
     \<and> 0 \<in> g_stopClosed s \<and> \<not> g_panic s"
proof -
  obtain s where s: "run_sys no_dur (start_run @ up_run 1 0 @ [LCmd (TStop ''a''), LCmd (TDelete ''a'')]
       @ map (\<lambda>i. LOp i OGo) [2, 3, 2, 3]) = Some s" "0 \<in> g_stopClosed s"
    by (simp add: run_defs)
  then show ?thesis using no_channel_panic [OF s(1)] by blast
qed

text \<open>A command up to the point where it waits for the goroutine: it finds the process, (locks
  it,) closes the stop channel, kills the child and reads the done channel.\<close>

definition stop_cmd :: "nat \<Rightarrow> task \<Rightarrow> label list" where
  "stop_cmd i t = LCmd t # map (LOp i) [OGo, OGo, OGo, OGo]"

lemma stop_waits:
  "\<exists>s s'. run_sys no_dur (start_run @ up_run 1 0 @ stop_cmd 2 (TStop ''a'') @ down_run 1 0) = Some s
     \<and> length (g_tasks s) = 3 \<and> g_tasks s ! 2 = TBlocked KStopCmd 0 0 \<and> mp_done (g_mps s 0) = 0
     \<and> sys_step no_dur (LOp 2 OGo) s = Some s'"
  by (simp add: run_defs stop_cmd_def)


definition restart_cmd :: "nat \<Rightarrow> label list" where
  "restart_cmd i = LCmd (TRestart ''a'') # map (LOp i) [OGo, OGo, OGo, OGo, OGo]"

theorem restart_waits_for_its_goroutine_witness:
  "\<exists>s. run_sys no_dur (start_run @ up_run 1 0 @ restart_cmd 2) = Some s
     \<and> g_tasks s ! 2 = TBlocked KRestartCmd 0 0 \<and> v_stop (view_of no_dur s 0)"
proof -
  obtain s where s: "run_sys no_dur (start_run @ up_run 1 0 @ restart_cmd 2) = Some s"
    "length (g_tasks s) = 3" "g_tasks s ! 2 = TBlocked KRestartCmd 0 0"
    by (simp add: run_defs restart_cmd_def)
  then show ?thesis using restart_waits_for_its_goroutine [OF s(1), of 2] by simp
qed

theorem registry_consistent_witness:
  "\<exists>s. run_sys no_dur (start_run @ up_run 1 0) = Some s \<and> g_procs s = [(''a'', 0)] \<and> mp_ID (g_mps s 0) = 0"
proof -
  obtain s where s: "run_sys no_dur (start_run @ up_run 1 0) = Some s" "g_procs s = [(''a'', 0)]"
    using up_state by blast
  then show ?thesis using registry_consistent [OF s(1)] by auto
qed

section \<open>Where the commands interfere\<close>

definition orphan_run :: "label list" where
  "orphan_run = start_run @ up_run 1 0 @ restart_cmd 2 @ stop_cmd 3 (TDelete ''a'') @ down_run 1 0
     @ map (LOp 2) [OGo, OGo, OGo, OGo] @ map (LOp 3) [OGo, OGo, OGo, OOrder [], OSaved True] @ up_run 4 1"


definition stale_run :: "label list" where
  "stale_run = start_run @ up_run 1 0 @ restart_cmd 2 @ (LCmd (TStop ''a'') # map (LOp 3) [OGo, OGo, OGo]) @ down_run 1 0
     @ map (LOp 2) [OGo, OGo, OGo, OGo] @ [LOp 3 OGo] @ up_run 4 1"

text \<open>A \<open>stop\<close> during a \<open>restart\<close> can wait on the wrong channel: it closes the old stop channel,
  \<open>Restart\<close> replaces the channels, and \<open>stopProcess\<close> then reads the new done channel, whose
  goroutine was never told to stop. The child stays online until the 30 s run out and the user
  gets a timeout.\<close>

theorem stop_during_restart_times_out:
  "\<exists>ls s s'. run_sys no_dur ls = Some s
     \<and> g_tasks s ! 3 = TBlocked KStopCmd 0 (mp_done (g_mps s 0)) \<and> mp_done (g_mps s 0) \<notin> g_doneClosed s
     \<and> \<not> v_stop (view_of no_dur s 0) \<and> has_child s 0 1 \<and> mp_status (g_mps s 0) = StatusOnline
     \<and> sys_step no_dur (LOp 3 OTimeout) s = Some s' \<and> g_tasks s' ! 3 = TDone (Some StopTimeout)"
  by (rule exI [of _ stale_run])
    (simp add: stale_run_def run_defs restart_cmd_def has_child_def)

text \<open>Starting an app that is registered replaces its configuration and restarts it, but does
  not write the state file: after every command has finished and the app runs with its new
  configuration, the saved state still has the old one, which is what a reboot restores.\<close>

definition job2 :: AppConfig where
  "job2 = job\<lparr>ac_Command := ''y''\<rparr>"

definition reconfigure_run :: "label list" where
  "reconfigure_run = start_run @ up_run 1 0 @ [LCmd (TStart job2), LOp 2 (OPort False), LOp 2 OGo]
     @ map (LOp 3) [OGo, OGo, OGo, OGo, OGo] @ down_run 1 0 @ map (LOp 3) [OGo, OGo, OGo, OGo] @ up_run 4 1"

theorem reconfigured_app_not_saved:
  "\<exists>ls s. run_sys no_dur ls = Some s
     \<and> g_tasks s ! 2 = TDone None \<and> g_tasks s ! 3 = TDone None
     \<and> g_procs s = [(''a'', 0)] \<and> mp_Config (g_mps s 0) = job2 \<and> has_child s 0 1
     \<and> g_saved s = Some [(job, 0)] \<and> job \<noteq> job2"
  by (rule exI [of _ reconfigure_run])
    (simp add: reconfigure_run_def job2_def run_defs has_child_def)

text \<open>Two commands that persist at the same time can leave the older snapshot on disk: the
  registry is read under its lock, but the snapshots are written in any order.\<close>

definition job_b :: AppConfig where
  "job_b = job\<lparr>ac_Name := ''b''\<rparr>"

definition save_race_run :: "label list" where
  "save_race_run = [LCmd (TStart job), LOp 0 (OPort False), LOp 0 OGo, LOp 0 OGo, LOp 0 (OOrder [''a'']),
     LCmd (TStart job_b), LOp 2 (OPort False), LOp 2 OGo, LOp 2 OGo, LOp 2 (OOrder [''a'', ''b'']),
     LOp 2 (OSaved True), LOp 0 (OSaved True)]"

theorem concurrent_saves_lose_an_app:
  "\<exists>ls s. run_sys no_dur ls = Some s
     \<and> g_tasks s ! 0 = TDone None \<and> g_tasks s ! 2 = TDone None
     \<and> map fst (g_procs s) = [''a'', ''b''] \<and> g_saved s = Some [(job, 0)]"
  by (rule exI [of _ save_race_run])
    (simp add: save_race_run_def job_b_def run_defs insert_commute)

end
