(* ===== verification/Env_File.thy ===== *)
theory Env_File
  imports Config "HOL-Library.Multiset"
begin

text \<open>
  The environment of a child (\<open>parseEnvFile\<close>, \<open>isAbsPath\<close> and \<open>buildCmd\<close> of
  \<open>internal/supervisor/supervisor.go\<close>, and the same merge in \<open>handleExec\<close> of \<open>rpc.go\<close>). A Go
  map is an association list with distinct keys, in the order Go happens to range over it. An
  environment is a list of \<open>key=value\<close> strings, of which \<open>os/exec\<close> gives the child the last one
  for each key.
\<close>

section \<open>The file\<close>

definition eq_sign :: char where
  "eq_sign = CHR ''=''"

definition strip_quotes :: "string \<Rightarrow> string" where
  "strip_quotes v =
     (if 2 \<le> length v \<and> ((hd v = CHR 0x22 \<and> last v = CHR 0x22) \<or> (hd v = CHR 0x27 \<and> last v = CHR 0x27))
      then butlast (tl v) else v)"

text \<open>One iteration of the scan loop: \<open>None\<close> is \<open>continue\<close>.\<close>

definition parse_env_line :: "string \<Rightarrow> (string \<times> string) option" where
  "parse_env_line raw =
     (let line = trim_space raw in
      if line = [] \<or> has_prefix line ''#'' then None
      else (case index_byte line eq_sign of None \<Rightarrow> None
            | Some i \<Rightarrow> Some (trim_space (take i line), strip_quotes (trim_space (drop (i + 1) line)))))"

text \<open>\<open>result[key] = val\<close>.\<close>

fun map_put :: "string \<Rightarrow> string \<Rightarrow> (string \<times> string) list \<Rightarrow> (string \<times> string) list" where
  "map_put k v [] = [(k, v)]"
| "map_put k v ((k', v') # m) = (if k' = k then (k, v) # m else (k', v') # map_put k v m)"

fun put_lines :: "(string \<times> string) list \<Rightarrow> string list \<Rightarrow> (string \<times> string) list" where
  "put_lines m [] = m"
| "put_lines m (l # ls) =
     (case parse_env_line l of None \<Rightarrow> put_lines m ls | Some (k, v) \<Rightarrow> put_lines (map_put k v m) ls)"

text \<open>\<open>readFile\<close> is \<open>os.Open\<close> and reading the file; the scanner's error makes the call fail too.\<close>

datatype env_error = EnvOpen string | EnvTooLong

definition parseEnvFile :: "(string \<Rightarrow> string + string) \<Rightarrow> string \<Rightarrow> env_error + (string \<times> string) list" where
  "parseEnvFile readFile path =
     (case readFile path of Inl e \<Rightarrow> Inl (EnvOpen e)
      | Inr body \<Rightarrow> (let (ls, too_long) = scan_lines 65536 body in
          if too_long then Inl EnvTooLong else Inr (put_lines [] ls)))"

definition isAbsPath :: "string \<Rightarrow> bool" where
  "isAbsPath p =
     (if length p = 0 then False
      else if p ! 0 = slash then True
      else if 3 \<le> length p \<and> p ! 1 = CHR '':'' then True
      else 2 \<le> length p \<and> p ! 0 = CHR 0x5C \<and> p ! 1 = CHR 0x5C)"

section \<open>The child's environment\<close>

definition env_entry :: "string \<times> string \<Rightarrow> string" where
  "env_entry kv = fst kv @ eq_sign # snd kv"

definition env_file_path :: "string \<Rightarrow> string \<Rightarrow> string" where
  "env_file_path envFile cwd = (if \<not> isAbsPath envFile \<and> cwd \<noteq> [] then cwd @ slash # envFile else envFile)"

text \<open>The entries of the file that the inline environment does not override.\<close>

definition file_extra :: "(string \<times> string) list \<Rightarrow> (string \<times> string) list \<Rightarrow> string list" where
  "file_extra inline file = map env_entry (filter (\<lambda>(k, v). map_of inline k = None) file)"

text \<open>
  \<open>cmd.Env\<close>, where \<open>None\<close> is nil: the child then inherits the daemon's environment \<open>base\<close>. The
  argument \<open>order\<close> is the order in which Go ranges over the map of the file.
\<close>

definition extra_env ::
  "(string \<Rightarrow> string + string) \<Rightarrow> ((string \<times> string) list \<Rightarrow> (string \<times> string) list) \<Rightarrow> AppConfig \<Rightarrow> string list"
where
  "extra_env readFile order cfg =
     (if ac_EnvFile cfg \<noteq> [] then
        (case parseEnvFile readFile (env_file_path (ac_EnvFile cfg) (ac_Cwd cfg)) of
           Inl e \<Rightarrow> [] | Inr m \<Rightarrow> file_extra (ac_Env cfg) (order m))
      else [])
     @ map env_entry (ac_Env cfg)"

definition cmd_env ::
  "(string \<Rightarrow> string + string) \<Rightarrow> ((string \<times> string) list \<Rightarrow> (string \<times> string) list) \<Rightarrow> string list \<Rightarrow> AppConfig \<Rightarrow> string list option"
where
  "cmd_env readFile order base cfg =
     (let extra = extra_env readFile order cfg in if extra = [] then None else Some (base @ extra))"

text \<open>What the command has beside its environment.\<close>

record Cmd =
  cm_Path :: string
  cm_Args :: "string list"
  cm_Dir :: string
  cm_Env :: "string list option"

definition buildCmd ::
  "(string \<Rightarrow> string + string) \<Rightarrow> ((string \<times> string) list \<Rightarrow> (string \<times> string) list) \<Rightarrow> string list \<Rightarrow> AppConfig \<Rightarrow> Cmd"
where
  "buildCmd readFile order base cfg =
     \<lparr>cm_Path = ac_Command cfg, cm_Args = ac_Args cfg, cm_Dir = ac_Cwd cfg, cm_Env = cmd_env readFile order base cfg\<rparr>"

text \<open>The value the child reads: the last entry of the key.\<close>

definition env_of :: "string list \<Rightarrow> string option \<Rightarrow> (string \<Rightarrow> string option)" where
  "env_of es none k =
     (case find (\<lambda>e. has_prefix e (k @ [eq_sign])) (rev es) of
        None \<Rightarrow> none | Some e \<Rightarrow> Some (drop (length k + 1) e))"

definition child_env :: "string list \<Rightarrow> string list option \<Rightarrow> string \<Rightarrow> string option" where
  "child_env base env k = env_of (case env of None \<Rightarrow> base | Some es \<Rightarrow> es) None k"

section \<open>Lemmas\<close>

lemma map_of_map_put: "map_of (map_put k v m) = (map_of m)(k \<mapsto> v)"
  by (induction m) (auto simp: fun_eq_iff)

lemma map_put_keys: "fst ` set (map_put k v m) = insert k (fst ` set m)"
proof (induction m)
  case (Cons p m)
  then show ?case by (cases p; cases "fst p = k") (simp_all add: insert_commute)
qed simp

lemma map_put_distinct: "distinct (map fst m) \<Longrightarrow> distinct (map fst (map_put k v m))"
proof (induction m)
  case (Cons p m)
  then show ?case using map_put_keys [of k v m] by (cases p) (auto simp: image_iff)
qed simp

lemma put_lines_distinct: "distinct (map fst m) \<Longrightarrow> distinct (map fst (put_lines m ls))"
  by (induction ls arbitrary: m) (auto simp: map_put_distinct split: option.splits)

lemma put_lines_map_of:
  "map_of (put_lines m ls) = map_of m ++ map_of (rev (List.map_filter parse_env_line ls))"
proof (induction ls arbitrary: m)
  case Nil
  then show ?case by (simp add: map_filter_simps)
next
  case (Cons l ls)
  then show ?case
    by (cases "parse_env_line l") (auto simp: map_filter_simps map_of_map_put map_add_def fun_eq_iff split: option.splits)
qed

text \<open>Keys without an equals sign: an entry is one of the key exactly when it was made for it.\<close>

lemma env_entry_prefix:
  assumes "eq_sign \<notin> set k" and "eq_sign \<notin> set k'"
  shows "has_prefix (env_entry (k', v)) (k @ [eq_sign]) \<longleftrightarrow> k = k'"
proof
  assume "has_prefix (env_entry (k', v)) (k @ [eq_sign])"
  then obtain t where t: "k' @ eq_sign # v = k @ eq_sign # t"
    by (auto simp: has_prefix_iff env_entry_def)
  have "takeWhile (\<lambda>c. c \<noteq> eq_sign) (k' @ eq_sign # v) = k'" using assms(2) by (induction k') auto
  moreover have "takeWhile (\<lambda>c. c \<noteq> eq_sign) (k @ eq_sign # t) = k" using assms(1) by (induction k) auto
  ultimately show "k = k'" using t by simp
qed (simp add: env_entry_def has_prefix_def)

lemma find_append: "find P (xs @ ys) = (case find P xs of None \<Rightarrow> find P ys | Some x \<Rightarrow> Some x)"
  by (induction xs) auto

text \<open>The lookup in a list of entries is the lookup in the association list, the last one first.\<close>

lemma env_of_entries:
  assumes "eq_sign \<notin> set k" and "\<And>k' v. (k', v) \<in> set m \<Longrightarrow> eq_sign \<notin> set k'" and "distinct (map fst m)"
  shows "env_of (base @ map env_entry m) none k
    = (case map_of m k of Some v \<Rightarrow> Some v | None \<Rightarrow> env_of base none k)"
  using assms(2,3)
proof (induction m arbitrary: base rule: list.induct)
  case Nil
  then show ?case by simp
next
  case (Cons p m)
  obtain k' v where p: "p = (k', v)" by (cases p)
  have IH: "env_of ((base @ [env_entry p]) @ map env_entry m) none k
    = (case map_of m k of Some v \<Rightarrow> Some v | None \<Rightarrow> env_of (base @ [env_entry p]) none k)"
  proof (rule Cons.IH)
    show "eq_sign \<notin> set k'" if "(k', v) \<in> set m" for k' v using Cons.prems(1) that by auto
  qed (use Cons.prems(2) in simp)
  have "eq_sign \<notin> set k'" using Cons.prems p by auto
  then have "env_of (base @ [env_entry p]) none k = (if k = k' then Some v else env_of base none k)"
    using env_entry_prefix [OF assms(1), of k' v] by (simp add: env_of_def p env_entry_def)
  moreover have "map_of m k' = None" using Cons.prems(2) p by (simp add: map_of_eq_None_iff image_iff)
  ultimately show ?case using IH by (auto simp: p split: option.splits)
qed

text \<open>The rendering of an entry with its value in double quotes.\<close>

definition env_key :: "string \<Rightarrow> bool" where
  "env_key k \<longleftrightarrow> k \<noteq> [] \<and> no_space_byte (hd k) \<and> no_space_byte (last k) \<and> hd k \<noteq> CHR ''#''
     \<and> eq_sign \<notin> set k \<and> CHR 0x0A \<notin> set k"

definition quoted_line :: "string \<times> string \<Rightarrow> string" where
  "quoted_line kv = fst kv @ eq_sign # CHR 0x22 # snd kv @ [CHR 0x22]"

lemma no_space_quote: "no_space_byte CHR 0x22"
  by (simp add: no_space_byte_code spaces_def ascii_spaces_def wide_spaces_def)

lemma parse_quoted_line:
  assumes "env_key k"
  shows "parse_env_line (quoted_line (k, v)) = Some (k, v)"
proof -
  let ?q = "CHR 0x22 # v @ [CHR 0x22]"
  have k: "k \<noteq> []" "no_space_byte (hd k)" "no_space_byte (last k)" "eq_sign \<notin> set k" "hd k \<noteq> CHR ''#''"
    using assms by (simp_all add: env_key_def)
  have line: "trim_space (quoted_line (k, v)) = k @ eq_sign # ?q"
    unfolding quoted_line_def using k no_space_quote by (subst trim_space_id) simp_all
  have "\<not> has_prefix (k @ eq_sign # ?q) ''#''" using k by (cases k) (auto simp: has_prefix_def)
  moreover have "index_byte (k @ eq_sign # ?q) eq_sign = Some (length k)" using k by (intro index_byte_append)
  moreover have "trim_space k = k" using k by (intro trim_space_id)
  moreover have "trim_space ?q = ?q" using no_space_quote by (intro trim_space_id) simp_all
  moreover have "strip_quotes ?q = v" by (simp add: strip_quotes_def)
  ultimately show ?thesis using line k by (simp add: parse_env_line_def Let_def)
qed

lemma parse_quoted_lines:
  "(\<And>k v. (k, v) \<in> set es \<Longrightarrow> env_key k) \<Longrightarrow> List.map_filter parse_env_line (map quoted_line es) = es"
proof (induction es)
  case (Cons e es)
  obtain k v where e: "e = (k, v)" by (cases e)
  have "env_key k" using Cons.prems [of k v] e by simp
  moreover have "List.map_filter parse_env_line (map quoted_line es) = es"
    using Cons.IH Cons.prems by (meson list.set_intros(2))
  ultimately show ?case using e by (simp add: map_filter_simps parse_quoted_line)
qed (simp add: map_filter_simps)

section \<open>Properties\<close>

text \<open>C35. An env file made of lines \<open>KEY="value"\<close> gives exactly these variables, the last one of
  a key winning: the value may hold any byte but a newline, quotes, spaces, \<open>#\<close> and \<open>=\<close>
  included.\<close>

theorem env_file_roundtrip:
  assumes "\<And>k v. (k, v) \<in> set es \<Longrightarrow> env_key k \<and> CHR 0x0A \<notin> set v \<and> length k + length v < 65533"
    and "readFile path = Inr (concat (map (\<lambda>e. quoted_line e @ [CHR 0x0A]) es))"
  shows "\<exists>m. parseEnvFile readFile path = Inr m \<and> distinct (map fst m) \<and> map_of m = map_of (rev es)"
proof -
  let ?ls = "map quoted_line es"
  have lines: "CHR 0x0A \<notin> set l \<and> length l < 65536" if "l \<in> set ?ls" for l
    using that assms(1) by (fastforce simp: quoted_line_def env_key_def eq_sign_def)
  have no_cr: "map drop_cr ?ls = ?ls" by (simp add: drop_cr_def quoted_line_def)
  have "concat (map (\<lambda>e. quoted_line e @ [CHR 0x0A]) es) = concat (map (\<lambda>l. l @ [CHR 0x0A]) ?ls)"
    by (simp add: comp_def)
  then have "scan_lines 65536 (concat (map (\<lambda>e. quoted_line e @ [CHR 0x0A]) es)) = (?ls, False)"
    using scan_lines_text [of ?ls 65536 "[]"] lines no_cr by (metis append.right_neutral fst_conv scan_lines_Nil snd_conv)
  then have "parseEnvFile readFile path = Inr (put_lines [] ?ls)"
    by (simp add: parseEnvFile_def assms(2))
  moreover have "map_of (put_lines [] ?ls) = map_of (rev es)"
    using parse_quoted_lines [of es] assms(1) by (simp add: put_lines_map_of)
  ultimately show ?thesis using put_lines_distinct [of "[]" ?ls] by simp
qed

theorem env_file_roundtrip_witness:
  "\<exists>m. parseEnvFile (\<lambda>p. Inr (concat (map (\<lambda>e. quoted_line e @ [CHR 0x0A]) [(''A'', ''x = 1''), (''A'', ''# 2'')]))) ''f'' = Inr m
     \<and> map_of m ''A'' = Some ''# 2''"
proof -
  have "no_space_byte CHR ''A''" by (simp add: no_space_byte_code spaces_def ascii_spaces_def wide_spaces_def)
  then have "env_key ''A''" by (simp add: env_key_def eq_sign_def)
  then show ?thesis
    using env_file_roundtrip [of "[(''A'', ''x = 1''), (''A'', ''# 2'')]" _ "''f''", OF _ refl] by fastforce
qed

definition file_env :: "(string \<Rightarrow> string + string) \<Rightarrow> AppConfig \<Rightarrow> (string \<times> string) list" where
  "file_env readFile cfg =
     (if ac_EnvFile cfg = [] then []
      else (case parseEnvFile readFile (env_file_path (ac_EnvFile cfg) (ac_Cwd cfg)) of Inl e \<Rightarrow> [] | Inr m \<Rightarrow> m))"

lemma parse_env_line_key:
  assumes "parse_env_line l = Some (k, v)"
  shows "eq_sign \<notin> set k"
proof -
  obtain i where "index_byte (trim_space l) eq_sign = Some i" "k = trim_space (take i (trim_space l))"
    using assms by (auto simp: parse_env_line_def Let_def split: if_splits option.splits)
  then show ?thesis using index_byte_Some set_trim_space by blast
qed

lemma put_lines_keys:
  "\<forall>k \<in> fst ` set m. eq_sign \<notin> set k \<Longrightarrow> \<forall>k \<in> fst ` set (put_lines m ls). eq_sign \<notin> set k"
proof (induction ls arbitrary: m)
  case (Cons l ls)
  show ?case
  proof (cases "parse_env_line l")
    case None
    then show ?thesis using Cons.IH [OF Cons.prems] by simp
  next
    case (Some p)
    then obtain k' v where p: "parse_env_line l = Some (k', v)" by (cases p) auto
    have "\<forall>x \<in> fst ` set (map_put k' v m). eq_sign \<notin> set x"
      using Cons.prems parse_env_line_key [OF p] unfolding map_put_keys by blast
    from Cons.IH [OF this] p show ?thesis by simp
  qed
qed simp

lemma file_env_keys:
  "distinct (map fst (file_env readFile cfg)) \<and> (\<forall>k \<in> fst ` set (file_env readFile cfg). eq_sign \<notin> set k)"
proof -
  have "file_env readFile cfg = [] \<or> (\<exists>ls. file_env readFile cfg = put_lines [] ls)"
    by (auto simp: file_env_def parseEnvFile_def split: sum.split prod.split)
  then show ?thesis
  proof
    assume "\<exists>ls. file_env readFile cfg = put_lines [] ls"
    then obtain ls where ls: "file_env readFile cfg = put_lines [] ls" by blast
    show ?thesis unfolding ls using put_lines_distinct [of "[]" ls] put_lines_keys [of "[]" ls] by simp
  qed simp
qed

lemma child_env_cmd: "child_env base (if es = [] then None else Some (base @ es)) k = env_of (base @ es) None k"
  by (simp add: child_env_def)

lemma map_of_filter_key: "map_of (filter (\<lambda>(k, v). Q k) xs) k = (if Q k then map_of xs k else None)"
  by (induction xs) auto

lemma extra_env_entries:
  assumes "order [] = []"
  shows "extra_env readFile order cfg =
    map env_entry (filter (\<lambda>(k, v). map_of (ac_Env cfg) k = None) (order (file_env readFile cfg)) @ ac_Env cfg)"
  using assms by (auto simp: extra_env_def file_env_def file_extra_def split: sum.splits)


definition env_demo :: AppConfig where
  "env_demo = zero_app\<lparr>ac_Env := [(''A'', ''1'')], ac_EnvFile := ''/f''\<rparr>"


end
