(* ===== verification/Rpc.thy ===== *)
theory Rpc
  imports System_Props Logger Env_File Ipc
begin

text \<open>
  The remote commands of the daemon (\<open>internal/supervisor/rpc.go\<close>: \<open>Handler\<close>, \<open>StreamHandler\<close>,
  \<open>handleLogStream\<close>, \<open>handleExec\<close>, \<open>listInfos\<close>, \<open>formatUptime\<close>, and \<open>List\<close> of \<open>supervisor.go\<close>). The
  supervisor's own operations are arguments of the dispatch, as a record of functions on its
  state: what they do is the subject of the system model.
\<close>

section \<open>The process list\<close>

text \<open>\<open>order\<close> is the order in which Go ranges over the registry before \<open>List\<close> sorts by ID.\<close>

definition List_procs :: "gopm \<Rightarrow> string list \<Rightarrow> ManagedProcess list" where
  "List_procs s order = sort_key mp_ID (map (\<lambda>n. g_mps s (addr_of s n)) order)"

text \<open>
  A duration in nanoseconds as \<open>formatUptime\<close> prints it. \<open>int(d.Hours())\<close> goes through a
  \<open>float64\<close>; it is truncation as long as the hours are fewer than 4096.
\<close>

definition formatUptime :: "int \<Rightarrow> string" where
  "formatUptime d =
     (if d < 60 * second then int_dec (d sdiv second) @ ''s''
      else if d < 3600 * second then int_dec (d sdiv (60 * second)) @ ''m''
      else if d < 24 * (3600 * second) then
        (let h = d sdiv (3600 * second); m = d sdiv (60 * second) - h * 60 in
         int_dec h @ ''h'' @ int_dec m @ ''m'')
      else
        (let days = (d sdiv (3600 * second)) sdiv 24; h = d sdiv (3600 * second) - days * 24 in
         int_dec days @ ''d'' @ int_dec h @ ''h''))"

definition process_info :: "int \<Rightarrow> (int \<Rightarrow> nat) \<Rightarrow> (int \<Rightarrow> rat) \<Rightarrow> ManagedProcess \<Rightarrow> ProcessInfo" where
  "process_info now memory_rss cpu_percent mp =
     (let up = mp_status mp = StatusOnline \<or> mp_status mp = StatusReady \<or> mp_status mp = StatusUnhealthy;
          pid = (if \<not> up then 0 else mp_pid mp)
      in \<lparr>pi_ID = int (mp_ID mp), pi_Name = ac_Name (mp_Config mp), pi_Status = status_string (mp_status mp), pi_PID = pid,
          pi_Restarts = mp_restarts mp,
          pi_Uptime = (if up \<and> mp_startedAt mp \<noteq> 0 then formatUptime (now - mp_startedAt mp) else ''-''),
          pi_Watching = wc_Enabled (ac_Watch (mp_Config mp)),
          pi_Memory = (if pid > 0 then memory_rss pid else 0), pi_CPU = (if pid > 0 then cpu_percent pid else 0)\<rparr>)"

definition listInfos :: "int \<Rightarrow> (int \<Rightarrow> nat) \<Rightarrow> (int \<Rightarrow> rat) \<Rightarrow> gopm \<Rightarrow> string list \<Rightarrow> ProcessInfo list" where
  "listInfos now memory_rss cpu_percent s order = map (process_info now memory_rss cpu_percent) (List_procs s order)"

section \<open>The dispatch\<close>

record 's sup_api =
  api_StartApp :: "AppConfig \<Rightarrow> 's \<Rightarrow> 's \<times> string option"
  api_Stop :: "string \<Rightarrow> 's \<Rightarrow> 's \<times> string option"
  api_Restart :: "string \<Rightarrow> 's \<Rightarrow> 's \<times> string option"
  api_Delete :: "string \<Rightarrow> 's \<Rightarrow> 's \<times> string option"
  api_known :: "'s \<Rightarrow> string \<Rightarrow> bool"
  api_names :: "'s \<Rightarrow> string list"
  api_infos :: "'s \<Rightarrow> ProcessInfo list"
  api_logger :: "'s \<Rightarrow> Logger"

text \<open>The clock and the standard library's parsers of durations and times.\<close>

record clock =
  ck_now :: int
  ck_duration :: "string \<Rightarrow> int option"
  ck_rfc3339 :: "string \<Rightarrow> int option"

text \<open>The loop over the apps of a start request: it returns at the first error.\<close>

fun start_apps :: "'s sup_api \<Rightarrow> nat \<Rightarrow> AppConfig list \<Rightarrow> 's \<Rightarrow> 's \<times> Response" where
  "start_apps api n [] s = (s, ok_resp (''started '' @ nat_dec n @ '' app(s)''))"
| "start_apps api n (a # as) s =
     (case api_StartApp api a s of
        (s', Some e) \<Rightarrow> (s', errResp e)
      | (s', None) \<Rightarrow> start_apps api (Suc n) as s')"

definition handle_start :: "'s sup_api \<Rightarrow> Request \<Rightarrow> 's \<Rightarrow> 's \<times> Response" where
  "handle_start api req s =
     (if rq_Apps req = [] \<and> rq_Config req = None then (s, errResp ''start: no app config provided'')
      else start_apps api 0 ((case rq_Config req of None \<Rightarrow> [] | Some c \<Rightarrow> [c]) @ rq_Apps req) s)"

definition named ::
  "string \<Rightarrow> string \<Rightarrow> (string \<Rightarrow> 's \<Rightarrow> 's \<times> string option) \<Rightarrow> string \<Rightarrow> 's \<Rightarrow> 's \<times> Response"
where
  "named cmd past f name s =
     (if name = [] then (s, errResp (cmd @ '': app name required''))
      else (case f name s of (s', Some e) \<Rightarrow> (s', errResp e) | (s', None) \<Rightarrow> (s', ok_resp (past @ '' '' @ name))))"

text \<open>A \<open>since\<close> that is neither a duration nor a time leaves the zero time: no filter.\<close>

definition since_time :: "clock \<Rightarrow> string \<Rightarrow> int" where
  "since_time ck s =
     (if s = [] then 0
      else (case ck_duration ck s of Some d \<Rightarrow> ck_now ck + - d
            | None \<Rightarrow> (case ck_rfc3339 ck s of Some t \<Rightarrow> t | None \<Rightarrow> 0)))"

definition logs_resp :: "string list \<Rightarrow> Response" where
  "logs_resp ls = \<lparr>rs_OK = True, rs_Error = [], rs_Message = [], rs_Processes = [], rs_Logs = ls\<rparr>"

definition handle_logs :: "'s sup_api \<Rightarrow> clock \<Rightarrow> Request \<Rightarrow> 's \<Rightarrow> Response option" where
  "handle_logs api ck req s =
     (if rq_AppName req = [] then Some (errResp ''logs: app name required'')
      else if \<not> api_known api s (rq_AppName req) then Some (errResp (''no such process: '' @ rq_AppName req))
      else
        (let n = (if rq_Lines req \<le> 0 then 50 else rq_Lines req) in
         if rq_Since req \<noteq> [] \<or> rq_Grep req \<noteq> []
         then map_option logs_resp (TailFiltered (api_logger api s) (rq_AppName req) n (since_time ck (rq_Since req)) (rq_Grep req))
         else map_option logs_resp (Tail (api_logger api s) (rq_AppName req) n)))"

fun tails :: "Logger \<Rightarrow> int \<Rightarrow> string list \<Rightarrow> string list option" where
  "tails lg n [] = Some []"
| "tails lg n (p # ps) = do {
     ls \<leftarrow> Tail lg p n;
     more_ls \<leftarrow> tails lg n ps;
     Some (map (\<lambda>l. ''['' @ p @ ''] '' @ l) ls @ more_ls)
   }"

definition handle_logs_all :: "'s sup_api \<Rightarrow> Request \<Rightarrow> 's \<Rightarrow> Response option" where
  "handle_logs_all api req s =
     map_option logs_resp (tails (api_logger api s) (if rq_Lines req \<le> 0 then 20 else rq_Lines req) (api_names api s))"

text \<open>\<open>None\<close> would be a panic of the logger.\<close>

definition Handler :: "'s sup_api \<Rightarrow> clock \<Rightarrow> Request \<Rightarrow> 's \<Rightarrow> ('s \<times> Response) option" where
  "Handler api ck req s =
     (let cmd = rq_Command req; name = rq_AppName req in
      if cmd = ''ping'' then Some (s, ok_resp ''pong'')
      else if cmd = ''start'' then Some (handle_start api req s)
      else if cmd = ''stop'' then Some (named ''stop'' ''stopped'' (api_Stop api) name s)
      else if cmd = ''restart'' then Some (named ''restart'' ''restarted'' (api_Restart api) name s)
      else if cmd = ''delete'' then Some (named ''delete'' ''deleted'' (api_Delete api) name s)
      else if cmd = ''list'' then Some (s, (ok_resp [])\<lparr>rs_Processes := api_infos api s\<rparr>)
      else if cmd = ''logs'' then map_option (Pair s) (handle_logs api ck req s)
      else if cmd = ''logsall'' then map_option (Pair s) (handle_logs_all api req s)
      else Some (s, errResp (''unknown command: '' @ cmd)))"

section \<open>Streams\<close>

text \<open>\<open>handleLogStream\<close>: events go out until the channel is closed or a write fails.\<close>

fun forward :: "(nat \<Rightarrow> bool) \<Rightarrow> nat \<Rightarrow> LogEvent list \<Rightarrow> LogEvent list" where
  "forward writable n [] = []"
| "forward writable n (ev # evs) = (if writable n then ev # forward writable (Suc n) evs else [])"

definition handleLogStream :: "Request \<Rightarrow> Logger \<Rightarrow> (Logger \<times> nat) option option" where
  "handleLogStream req lg =
     (if rq_All req then Some (Some (SubscribeAll lg))
      else if rq_AppName req = [] then Some None
      else map_option Some (Subscribe (rq_AppName req) lg))"

text \<open>The inner loop of \<open>stream\<close>: the complete lines of the data, and the bytes left over.\<close>

definition exec_line :: "string \<Rightarrow> string \<Rightarrow> string" where
  "exec_line pre l = (let t = trim_right_char CHR 0x0D l in if pre \<noteq> [] then pre @ t else t)"

function take_lines :: "string \<Rightarrow> string \<Rightarrow> string list \<times> string" where
  "take_lines pre data =
     (case index_byte data newline of
        None \<Rightarrow> ([], data)
      | Some i \<Rightarrow> (case take_lines pre (drop (i + 1) data) of (ls, rest) \<Rightarrow> (exec_line pre (take i data) # ls, rest)))"
  by pat_completeness auto
termination
  by (relation "measure (\<lambda>(pre, data). length data)") (auto dest: index_byte_Some)

declare take_lines.simps [simp del]

fun stream_chunks :: "string \<Rightarrow> string \<Rightarrow> string list \<Rightarrow> string list" where
  "stream_chunks pre leftover [] = (if leftover \<noteq> [] then [exec_line pre leftover] else [])"
| "stream_chunks pre leftover (buf # bufs) =
     (if buf = [] then stream_chunks pre leftover bufs
      else (case take_lines pre (leftover @ buf) of (ls, rest) \<Rightarrow> ls @ stream_chunks pre rest bufs))"

text \<open>What \<open>handleExec\<close> answers before it runs anything, and the command it runs.\<close>

definition exec_env ::
  "(string \<Rightarrow> string + string) \<Rightarrow> ((string \<times> string) list \<Rightarrow> (string \<times> string) list) \<Rightarrow> string list \<Rightarrow> AppConfig \<Rightarrow> string list"
where
  "exec_env readFile order base cfg =
     base @
     (if ac_EnvFile cfg \<noteq> [] then
        (case parseEnvFile readFile (env_file_path (ac_EnvFile cfg) (ac_Cwd cfg)) of
           Inl e \<Rightarrow> [] | Inr m \<Rightarrow> file_extra (ac_Env cfg) (order m))
      else [])
     @ map env_entry (ac_Env cfg)"

definition handleExec ::
  "(string \<Rightarrow> string + string) \<Rightarrow> ((string \<times> string) list \<Rightarrow> (string \<times> string) list) \<Rightarrow> string list \<Rightarrow> gopm \<Rightarrow> Request \<Rightarrow> LogEvent + Cmd"
where
  "handleExec readFile order base s req =
     (if rq_AppName req = [] \<or> rq_ExecArgs req = []
      then Inl \<lparr>ev_Name = ''gopm'', ev_Line = ''[error] exec: app name and args required''\<rparr>
      else (case lookup s (rq_AppName req) of
          None \<Rightarrow> Inl \<lparr>ev_Name = ''gopm'', ev_Line = ''[error] no such process: '' @ rq_AppName req\<rparr>
        | Some a \<Rightarrow>
            (let cfg = mp_Config (g_mps s a) in
             Inr \<lparr>cm_Path = hd (rq_ExecArgs req), cm_Args = tl (rq_ExecArgs req), cm_Dir = ac_Cwd cfg,
                  cm_Env = Some (exec_env readFile order base cfg)\<rparr>)))"

text \<open>
  The events an \<open>exec\<close> sends: \<open>run\<close> starts the command and gives the error, or what the reads of its
  two pipes return. The two streams are forwarded by two goroutines: their lines interleave.
\<close>

definition exec_sends ::
  "(string \<Rightarrow> string + string) \<Rightarrow> ((string \<times> string) list \<Rightarrow> (string \<times> string) list) \<Rightarrow> string list \<Rightarrow> gopm
   \<Rightarrow> (Cmd \<Rightarrow> string + string list \<times> string list) \<Rightarrow> Request \<Rightarrow> LogEvent list \<Rightarrow> bool"
where
  "exec_sends readFile order base s run req evs =
     (let ev = (\<lambda>l. \<lparr>ev_Name = rq_AppName req, ev_Line = l\<rparr>) in
      case handleExec readFile order base s req of Inl e \<Rightarrow> evs = [e]
      | Inr cmd \<Rightarrow>
          (case run cmd of Inl e \<Rightarrow> evs = [ev (''[error] '' @ e)]
           | Inr (outs, errs) \<Rightarrow>
               evs \<in> shuffles (map ev (stream_chunks [] [] outs)) (map ev (stream_chunks ''[stderr] '' [] errs))))"

text \<open>\<open>StreamHandler\<close>, as what it may send: \<open>received\<close> comes from the channel it subscribes to, write
  number \<open>n\<close> succeeds when \<open>writable n\<close>.\<close>

definition StreamHandler ::
  "(Request \<Rightarrow> LogEvent list \<Rightarrow> bool) \<Rightarrow> Logger \<Rightarrow> LogEvent list \<Rightarrow> (nat \<Rightarrow> bool) \<Rightarrow> Request \<Rightarrow> LogEvent list \<Rightarrow> bool"
where
  "StreamHandler exec lg received writable req evs =
     (if rq_Command req = ''logstream'' then
        (case handleLogStream req lg of None \<Rightarrow> False
         | Some None \<Rightarrow> evs = []
         | Some (Some (lg', ch)) \<Rightarrow> evs = forward writable 0 received)
      else if rq_Command req = ''exec'' then exec req evs
      else evs = [])"

section \<open>Lemmas\<close>

lemma take_lines_None: "newline \<notin> set d \<Longrightarrow> take_lines pre d = ([], d)"
  using index_byte_None [of d newline] by (simp add: take_lines.simps)

lemma take_lines_line:
  "newline \<notin> set l \<Longrightarrow> take_lines pre (l @ newline # t) = (exec_line pre l # fst (take_lines pre t), snd (take_lines pre t))"
  by (subst take_lines.simps) (simp add: index_byte_append case_prod_beta)

lemma split_newline: "newline \<in> set d \<Longrightarrow> \<exists>l t. d = l @ newline # t \<and> newline \<notin> set l"
  using split_list_first by metis

text \<open>Splitting the data of a stream anywhere gives the same lines and the same rest.\<close>

lemma take_lines_append:
  "take_lines pre (a @ b) = (fst (take_lines pre a) @ fst (take_lines pre (snd (take_lines pre a) @ b)),
     snd (take_lines pre (snd (take_lines pre a) @ b)))"
proof (induction "length a" arbitrary: a rule: less_induct)
  case less
  show ?case
  proof (cases "newline \<in> set a")
    case False
    then show ?thesis by (simp add: take_lines_None)
  next
    case True
    then obtain l t where a: "a = l @ newline # t" "newline \<notin> set l" using split_newline by blast
    then show ?thesis using less [of t] by (simp add: take_lines_line)
  qed
qed

lemma take_lines_rest: "newline \<notin> set (snd (take_lines pre d))"
proof (induction "length d" arbitrary: d rule: less_induct)
  case less
  show ?case
  proof (cases "newline \<in> set d")
    case True
    then obtain l t where d: "d = l @ newline # t" "newline \<notin> set l" using split_newline by blast
    then show ?thesis using less [of t] by (simp add: take_lines_line)
  qed (simp add: take_lines_None)
qed

definition stream_all :: "string \<Rightarrow> string \<Rightarrow> string list" where
  "stream_all pre d = fst (take_lines pre d) @ (if snd (take_lines pre d) \<noteq> [] then [exec_line pre (snd (take_lines pre d))] else [])"

lemma stream_chunks_all: "newline \<notin> set left \<Longrightarrow> stream_chunks pre left bufs = stream_all pre (left @ concat bufs)"
proof (induction pre left bufs rule: stream_chunks.induct)
  case (1 pre left)
  then show ?case by (simp add: stream_all_def take_lines_None)
next
  case (2 pre left buf bufs)
  show ?case
  proof (cases "buf = []")
    case True
    then show ?thesis using 2 by simp
  next
    case False
    obtain ls rest where t: "take_lines pre (left @ buf) = (ls, rest)" by fastforce
    have rest: "newline \<notin> set rest" using take_lines_rest [of pre "left @ buf"] t by simp
    have "stream_all pre (left @ concat (buf # bufs)) = ls @ stream_all pre (rest @ concat bufs)"
      using take_lines_append [of pre "left @ buf" "concat bufs"] t by (simp add: stream_all_def)
    then show ?thesis using 2 False t rest by simp
  qed
qed

lemma registry_address:
  assumes "inv_reg s" and "(n, a) \<in> set (g_procs s)"
  shows "addr_of s n = a"
  using assms by (simp add: addr_of_def lookup_def inv_reg_def)

text \<open>The addresses in range order are the registry's, each once.\<close>

lemma range_addresses:
  assumes "inv_reg s" and "range_order s ns"
  shows "distinct (map (addr_of s) ns) \<and> set (map (addr_of s) ns) = snd ` set (g_procs s)"
proof -
  have reg: "addr_of s n = a \<and> app_name s a = n" if "(n, a) \<in> set (g_procs s)" for n a
    using registry_address [OF assms(1) that] assms(1) that unfolding inv_reg_def by blast
  have dom: "set ns = fst ` set (g_procs s)" "distinct ns" using assms(2) by (simp_all add: range_order_def)
  have name: "app_name s (addr_of s n) = n" if n: "n \<in> set ns" for n
  proof -
    have "n \<in> fst ` set (g_procs s)" using n by (simp only: dom)
    then obtain a where "(n, a) \<in> set (g_procs s)" by (auto simp: image_iff)
    then show ?thesis using reg [of n a] by simp
  qed
  have "inj_on (addr_of s) (set ns)" using name by (metis inj_onI)
  moreover have "addr_of s ` set ns = (\<lambda>p. addr_of s (fst p)) ` set (g_procs s)" by (simp add: dom image_image)
  moreover have "(\<lambda>p. addr_of s (fst p)) ` set (g_procs s) = snd ` set (g_procs s)"
  proof (rule image_cong [OF refl])
    fix p assume "p \<in> set (g_procs s)"
    then show "addr_of s (fst p) = snd p" using reg [of "fst p" "snd p"] by simp
  qed
  ultimately show ?thesis using dom(2) by (simp add: distinct_map)
qed

lemma strict_sorted: "sorted xs \<Longrightarrow> distinct xs \<Longrightarrow> sorted_wrt (<) (xs :: nat list)"
  by (simp add: strict_sorted_iff)

lemma div_minus_div_mult:
  assumes "0 < a" and "0 < b"
  shows "d div a - d div (a * b) * b = d mod (a * b) div (a :: int)"
proof -
  have "d mod (a * b) = a * (d div a mod b) + d mod a" using assms by (simp add: zmod_zmult2_eq)
  then have "d mod (a * b) div a = d div a mod b" using assms by simp
  also have "\<dots> = d div a - d div a div b * b" by (rule minus_div_mult_eq_mod [symmetric])
  finally show ?thesis using assms by (simp add: zdiv_zmult2_eq)
qed

section \<open>Properties\<close>

text \<open>\<open>List\<close> is a stable snapshot: in every reachable state it shows every registered process
  once, by strictly increasing ID, whatever the order in which Go ranges over the registry.\<close>

theorem list_is_stable:
  assumes "run_sys pd ls = Some s" and "range_order s ns" and "range_order s ms"
  shows "sorted_wrt (<) (map mp_ID (List_procs s ns)) \<and> set (map mp_ID (List_procs s ns)) = snd ` set (g_procs s)
     \<and> List_procs s ns = List_procs s ms"
proof -
  have inv: "sys_inv s" using assms(1) by (rule reach_sys_inv)
  then have reg: "inv_reg s" and heap: "\<And>a. a < g_nextID s \<Longrightarrow> mp_ID (g_mps s a) = a"
    by (simp_all add: sys_inv_def inv_heap_def)
  have ids: "map mp_ID (map (\<lambda>n. g_mps s (addr_of s n)) xs) = map (addr_of s) xs" if "range_order s xs" for xs
    using that heap addr_of_bound [OF reg that] by simp
  note ns = range_addresses [OF reg assms(2)] and ms = range_addresses [OF reg assms(3)]
  let ?ns = "map (\<lambda>n. g_mps s (addr_of s n)) ns" and ?ms = "map (\<lambda>n. g_mps s (addr_of s n)) ms"
  have key: "distinct (map mp_ID ?ns)" "set (map mp_ID ?ns) = snd ` set (g_procs s)" "distinct (map mp_ID ?ms)"
    unfolding ids [OF assms(2)] ids [OF assms(3)] using ns ms by blast+
  have "mset (map mp_ID (sort_key mp_ID ?ns)) = mset (map mp_ID ?ns)" by (simp only: mset_map mset_sort)
  then have "distinct (map mp_ID (sort_key mp_ID ?ns))" using key(1) mset_eq_imp_distinct_iff by blast
  moreover have "sorted (map mp_ID (sort_key mp_ID ?ns))" by simp
  ultimately have srt: "sorted_wrt (<) (map mp_ID (List_procs s ns))"
    unfolding List_procs_def by (intro strict_sorted)
  have "set ns = set ms" "distinct ns" "distinct ms" using assms(2,3) by (simp_all add: range_order_def)
  then have "mset ns = mset ms" using set_eq_iff_mset_eq_distinct by blast
  then have "mset ?ns = mset ?ms" by (metis mset_map)
  moreover have "inj_on mp_ID (set ?ns)" by (rule distinct_map [THEN iffD1, OF key(1), THEN conjunct2])
  ultimately have "sort_key mp_ID ?ns = sort_key mp_ID ?ms"
    by (intro sort_key_inj_key_eq) simp_all
  moreover have "set (map mp_ID (List_procs s ns)) = set (map mp_ID ?ns)"
    unfolding List_procs_def set_map set_sort by (rule refl)
  ultimately show ?thesis using srt key(2) by (simp only: List_procs_def)
qed

theorem list_is_stable_witness:
  "\<exists>s. run_sys no_dur (start_run @ up_run 1 0) = Some s \<and> map mp_ID (List_procs s [''a'']) = [0]"
proof -
  obtain s where s: "run_sys no_dur (start_run @ up_run 1 0) = Some s" "g_procs s = [(''a'', 0)]"
    using up_state by (elim exE conjE) (rule that)
  have "range_order s [''a'']" by (simp add: range_order_def s)
  from conjunct1 [OF conjunct2 [OF list_is_stable [OF s(1) this this]]]
  have "set (map mp_ID (List_procs s [''a''])) = snd ` set (g_procs s)" .
  then have "set (map mp_ID (List_procs s [''a''])) = {0}" by (simp add: s(2))
  moreover have "length (List_procs s [''a'']) = 1" unfolding List_procs_def by simp
  then obtain p where "List_procs s [''a''] = [p]" unfolding One_nat_def length_Suc_conv length_0_conv by blast
  ultimately have "map mp_ID (List_procs s [''a'']) = [0]" by simp
  then show ?thesis using s(1) by (intro exI [of _ s] conjI)
qed

text \<open>The uptime column: seconds below a minute, minutes below an hour, else hours with the
  minutes of the started hour, or days with the hours of the started day.\<close>

theorem uptime_units:
  assumes "0 \<le> d"
  shows "formatUptime d =
    (if d < 60 * second then int_dec (d div second) @ ''s''
     else if d < 3600 * second then int_dec (d div (60 * second)) @ ''m''
     else if d < 86400 * second then int_dec (d div (3600 * second)) @ ''h'' @ int_dec (d mod (3600 * second) div (60 * second)) @ ''m''
     else int_dec (d div (86400 * second)) @ ''d'' @ int_dec (d mod (86400 * second) div (3600 * second)) @ ''h'')"
proof -
  have q: "a sdiv b = a div b" if "0 \<le> a" "0 < b" for a b :: int
    using that by (cases "a = 0") (simp_all add: signed_divide_int_def)
  have e: "d sdiv second = d div second" "d sdiv (60 * second) = d div (60 * second)" "d sdiv (3600 * second) = d div (3600 * second)"
    using assms by (simp_all add: q)
  have "0 \<le> d div (3600 * second)" using assms by simp
  then have days: "d sdiv (3600 * second) sdiv 24 = d div (86400 * second)"
    unfolding e using q [of "d div (3600 * second)" 24] zdiv_zmult2_eq [of 24 d "3600 * second"] by simp
  have mins: "d div (60 * second) - d div (3600 * second) * 60 = d mod (3600 * second) div (60 * second)"
    using div_minus_div_mult [of "60 * second" 60 d] by simp
  have hours: "d div (3600 * second) - d div (86400 * second) * 24 = d mod (86400 * second) div (3600 * second)"
    using div_minus_div_mult [of "3600 * second" 24 d] by simp
  show ?thesis unfolding formatUptime_def Let_def days unfolding e mins hours by simp
qed

theorem uptime_units_witness: "formatUptime (90061 * second) = ''1d1h'' \<and> formatUptime (3725 * second) = ''1h2m''"
proof -
  have "formatUptime (90061 * second) = int_dec 1 @ ''d'' @ int_dec 1 @ ''h''"
    using uptime_units [of "90061 * second"] by simp
  moreover have "formatUptime (3725 * second) = int_dec 1 @ ''h'' @ int_dec 2 @ ''m''"
    using uptime_units [of "3725 * second"] by simp
  ultimately show ?thesis by (simp add: int_dec_def nat_dec.simps digit_char_def char_of_def bit_0)
qed

text \<open>The output of an \<open>exec\<close> does not depend on how the reads cut it into chunks: the lines
  sent are those of the whole output, a last line without a newline included.\<close>

theorem exec_output_independent_of_chunks:
  "stream_chunks pre [] bufs = stream_chunks pre [] [concat bufs]"
  using stream_chunks_all [of "[]" pre bufs] stream_chunks_all [of "[]" pre "[concat bufs]"] by simp

text \<open>A command run by \<open>exec\<close> sees the environment its process's child sees.\<close>

theorem exec_environment:
  assumes "handleExec readFile order base s req = Inr cmd" and "lookup s (rq_AppName req) = Some a"
  shows "child_env base (cm_Env cmd) k = child_env base (cm_Env (buildCmd readFile order base (mp_Config (g_mps s a)))) k"
proof -
  let ?cfg = "mp_Config (g_mps s a)"
  have "cm_Env cmd = Some (base @ extra_env readFile order ?cfg)"
    using assms by (auto simp: handleExec_def exec_env_def extra_env_def Let_def split: if_splits)
  then show ?thesis
    using child_env_cmd [of base "extra_env readFile order ?cfg" k]
    by (simp add: buildCmd_def cmd_env_def Let_def child_env_def)
qed

theorem exec_environment_witness:
  "\<exists>s cmd. run_sys no_dur (start_run @ up_run 1 0) = Some s
     \<and> handleExec (\<lambda>_. Inl ''no file'') id [''A=1''] s ((request ''exec'')\<lparr>rq_AppName := ''a'', rq_ExecArgs := [''env'']\<rparr>) = Inr cmd
     \<and> child_env [''A=1''] (cm_Env cmd) ''A'' = child_env [''A=1''] (cm_Env (buildCmd (\<lambda>_. Inl ''no file'') id [''A=1''] (mp_Config (g_mps s 0)))) ''A''"
proof -
  obtain s where s: "run_sys no_dur (start_run @ up_run 1 0) = Some s" "g_procs s = [(''a'', 0)]"
    using up_state by blast
  let ?req = "(request ''exec'')\<lparr>rq_AppName := ''a'', rq_ExecArgs := [''env'']\<rparr>"
  have l: "lookup s (rq_AppName ?req) = Some 0" by (simp add: lookup_def s)
  obtain cmd where "handleExec (\<lambda>_. Inl ''no file'') id [''A=1''] s ?req = Inr cmd"
    using l by (simp add: handleExec_def request_def Let_def)
  from this s(1) exec_environment [OF this l] show ?thesis by blast
qed

lemma filtered_tail:
  assumes "lg_ok lg" and "0 < n"
  shows "TailFiltered lg name n 0 pat = Some (lastn (nat n) (filter (\<lambda>l. pat = [] \<or> str_contains l pat) (lines_of lg name)))"
proof (cases "find_log lg name")
  case (Some b)
  then have "rb_inv (pl_buf (lg_heap lg b))" using assms(1) by (simp add: lg_ok_def)
  then have "rb_tailFiltered (pl_buf (lg_heap lg b)) n 0 pat
      = Some (map le_line (lastn (nat n) (filter (entry_matches 0 pat) (rb_entries (pl_buf (lg_heap lg b))))))"
    using rb_tailFiltered_eq assms(2) by (simp add: limit_last_eq)
  moreover have "entry_matches 0 pat = (\<lambda>l. pat = [] \<or> str_contains l pat) \<circ> le_line"
    by (auto simp: entry_matches_def fun_eq_iff)
  ultimately show ?thesis using Some by (simp add: TailFiltered_def lines_of_def lastn_map filter_map comp_def)
qed (simp add: TailFiltered_def lines_of_def)

lemma logs_answer:
  assumes "lg_ok (api_logger api s)" and "rq_Command req = ''logs''" and "rq_AppName req \<noteq> []"
    and "api_known api s (rq_AppName req)" and "since_time ck (rq_Since req) = 0"
  shows "Handler api ck req s = Some (s, logs_resp (lastn (if rq_Lines req \<le> 0 then 50 else nat (rq_Lines req))
     (filter (\<lambda>l. rq_Grep req = [] \<or> str_contains l (rq_Grep req)) (lines_of (api_logger api s) (rq_AppName req)))))"
proof -
  let ?lg = "api_logger api s" and ?name = "rq_AppName req"
  define n where "n = (if rq_Lines req \<le> 0 then 50 else rq_Lines req)"
  have n: "0 < n" "nat n = (if rq_Lines req \<le> 0 then 50 else nat (rq_Lines req))" by (simp_all add: n_def)
  have "Handler api ck req s = map_option (Pair s) (handle_logs api ck req s)"
    using assms(2) by (simp add: Handler_def Let_def)
  moreover have "handle_logs api ck req s = map_option logs_resp
      (if rq_Since req \<noteq> [] \<or> rq_Grep req \<noteq> [] then TailFiltered ?lg ?name n 0 (rq_Grep req) else Tail ?lg ?name n)"
    using assms by (simp add: handle_logs_def n_def)
  ultimately show ?thesis
    using filtered_tail [OF assms(1) n(1), of ?name "rq_Grep req"] logs.get_ok [OF assms(1), of ?name n] n by simp
qed

text \<open>A \<open>since\<close> the daemon cannot parse is ignored: the answer is that to the request without it.\<close>

lemma bad_since_is_ignored:
  assumes "lg_ok (api_logger api s)" and "ck_duration ck t = None" and "ck_rfc3339 ck t = None"
    and "rq_Command req = ''logs''" and "rq_AppName req \<noteq> []" and "api_known api s (rq_AppName req)"
  shows "Handler api ck (req\<lparr>rq_Since := t\<rparr>) s = Handler api ck (req\<lparr>rq_Since := []\<rparr>) s"
  using logs_answer [of api s "req\<lparr>rq_Since := t\<rparr>" ck] logs_answer [of api s "req\<lparr>rq_Since := []\<rparr>" ck] assms
  by (simp add: since_time_def)

text \<open>\<open>logs\<close> of a known app answers with its last lines that contain the pattern, oldest first:
  as many as asked for, 50 by default, and the filter comes before the limit.\<close>

theorem logs_query:
  assumes "lg_ok (api_logger api s)" and "rq_Command req = ''logs''" and "rq_AppName req \<noteq> []"
    and "api_known api s (rq_AppName req)" and "rq_Since req = []"
  shows "Handler api ck req s = Some (s, logs_resp (lastn (if rq_Lines req \<le> 0 then 50 else nat (rq_Lines req))
     (filter (\<lambda>l. rq_Grep req = [] \<or> str_contains l (rq_Grep req)) (lines_of (api_logger api s) (rq_AppName req)))))"
  using assms by (intro logs_answer) (simp_all add: since_time_def)

definition demo_api :: "Logger sup_api" where
  "demo_api = \<lparr>api_StartApp = (\<lambda>c s. (s, None)), api_Stop = (\<lambda>n s. (s, None)), api_Restart = (\<lambda>n s. (s, None)),
     api_Delete = (\<lambda>n s. (s, None)), api_known = (\<lambda>s n. True), api_names = (\<lambda>s. []), api_infos = (\<lambda>s. []), api_logger = id\<rparr>"

definition demo_lines :: "((string \<times> int) \<times> string \<times> string) list" where
  "demo_lines = [((''t'', 1), ''a'', ''one''), ((''t'', 2), ''a'', ''two'')]"

definition demo_clock :: clock where
  "demo_clock = \<lparr>ck_now = 0, ck_duration = (\<lambda>_. None), ck_rfc3339 = (\<lambda>_. None)\<rparr>"

lemma demo_log:
  "\<exists>lg. write_all good_os demo_lines (logger_New no_files 0) = Some lg \<and> lg_ok lg \<and> lines_of lg ''a'' = [''one'', ''two'']"
proof -
  obtain lg where lg: "write_all good_os demo_lines (logger_New no_files 0) = Some lg"
    "lg_ok lg" "\<And>m. lines_of lg m = lastn (nat (lg_capacity (logger_New no_files 0))) (lines_of (logger_New no_files 0) m
       @ map (\<lambda>w. snd (snd w)) (filter (\<lambda>w. fst (snd w) = m) demo_lines))"
    using logs.puts_lines [OF logger_New_ok(1)] by blast
  have "nat (lg_capacity (logger_New no_files 0)) = 1000" by (simp add: logger_New_def DefaultCapacity_def)
  then have "lines_of lg ''a'' = [''one'', ''two'']"
    using lg(3) [of "''a''"] by (simp add: demo_lines_def logger_New_ok)
  then show ?thesis using lg(1,2) by blast
qed

theorem logs_query_witness:
  "\<exists>lg. write_all good_os demo_lines (logger_New no_files 0) = Some lg
     \<and> Handler demo_api demo_clock ((request ''logs'')\<lparr>rq_AppName := ''a'', rq_Grep := ''w''\<rparr>) lg = Some (lg, logs_resp [''two''])"
proof -
  obtain lg where lg: "write_all good_os demo_lines (logger_New no_files 0) = Some lg" "lg_ok lg" "lines_of lg ''a'' = [''one'', ''two'']"
    using demo_log by blast
  have "str_contains ''two'' ''w''" "\<not> str_contains ''one'' ''w''" by (simp_all add: has_prefix_def)
  then show ?thesis
    using logs_query [of demo_api lg "(request ''logs'')\<lparr>rq_AppName := ''a'', rq_Grep := ''w''\<rparr>" demo_clock] lg
    by (simp add: demo_api_def request_def)
qed

end
