(* ===== verification/Json_Text.thy ===== *)
theory Json_Text
  imports Utf8
begin

text \<open>
  The strings of Go's \<open>encoding/json\<close>, which the wire of \<open>internal/ipc\<close> and the state file of
  \<open>internal/state\<close> are written with: how a byte string is quoted (with the HTML-safe escapes that
  are the default of \<open>Marshal\<close> and of an \<open>Encoder\<close>) and how the quoted text is read. What is read
  back is the string with each byte that is not UTF-8 replaced by U+FFFD.
\<close>

section \<open>Model\<close>

definition dquote :: char where
  "dquote = CHR 0x22"

text \<open>U+FFFD and the two line separators, as UTF-8.\<close>

definition replacement :: string where
  "replacement = [CHR 0xEF, CHR 0xBF, CHR 0xBD]"

definition line_separators :: "string list" where
  "line_separators = [[CHR 0xE2, CHR 0x80, CHR 0xA8], [CHR 0xE2, CHR 0x80, CHR 0xA9]]"

definition escape_byte :: "char \<Rightarrow> string" where
  "escape_byte c =
     (if c = dquote \<or> c = backslash then [backslash, c]
      else if byte_of c = 8 then backslash # ''b'' else if byte_of c = 12 then backslash # ''f''
      else if byte_of c = 10 then backslash # ''n'' else if byte_of c = 13 then backslash # ''r''
      else if byte_of c = 9 then backslash # ''t''
      else if byte_of c < 0x20 \<or> c \<in> set ''<>&'' then backslash # CHR ''u'' # hex 4 (byte_of c)
      else [c])"

definition escape_wide :: "string \<Rightarrow> string" where
  "escape_wide bs = (if bs \<in> set line_separators then backslash # CHR ''u'' # hex 4 (code_point bs) else bs)"

function escape :: "string \<Rightarrow> string" where
  "escape s =
     (case s of [] \<Rightarrow> []
      | c # t \<Rightarrow>
         (case wide_len s of
            Some n \<Rightarrow> escape_wide (take n s) @ escape (drop n s)
          | None \<Rightarrow> (if ascii c then escape_byte c else backslash # CHR ''u'' # hex 4 0xFFFD) @ escape t))"
  by pat_completeness auto
termination
  by (relation "measure length") (auto dest: wide_len_bounds)

declare escape.simps [simp del]

definition json_string_text :: "string \<Rightarrow> string" where
  "json_string_text s = dquote # escape s @ [dquote]"

text \<open>Reading: hexadecimal digits of either case, surrogate pairs, and UTF-8 for a code point.\<close>

definition hex_val :: "char \<Rightarrow> nat option" where
  "hex_val c =
     (let v = byte_of c in
      if 48 \<le> v \<and> v \<le> 57 then Some (v - 48)
      else if 65 \<le> v \<and> v \<le> 70 then Some (v - 55)
      else if 97 \<le> v \<and> v \<le> 102 then Some (v - 87) else None)"

fun hex4 :: "string \<Rightarrow> (nat \<times> string) option" where
  "hex4 (a # b # c # d # r) =
     (case (hex_val a, hex_val b, hex_val c, hex_val d) of
        (Some w, Some x, Some y, Some z) \<Rightarrow> Some (((w * 16 + x) * 16 + y) * 16 + z, r)
      | _ \<Rightarrow> None)"
| "hex4 _ = None"

definition encode_rune :: "nat \<Rightarrow> string" where
  "encode_rune u =
     (if u < 0x80 then [char_of u]
      else if u < 0x800 then [char_of (0xC0 + u div 64), char_of (0x80 + u mod 64)]
      else if u < 0x10000 then
        [char_of (0xE0 + u div 4096), char_of (0x80 + u div 64 mod 64), char_of (0x80 + u mod 64)]
      else [char_of (0xF0 + u div 262144), char_of (0x80 + u div 4096 mod 64), char_of (0x80 + u div 64 mod 64),
            char_of (0x80 + u mod 64)])"

definition second_half :: "string \<Rightarrow> (nat \<times> string) option" where
  "second_half s =
     (case s of b # c # r \<Rightarrow>
        if b = backslash \<and> c = CHR ''u'' then
          (case hex4 r of Some (v, t) \<Rightarrow> if 0xDC00 \<le> v \<and> v < 0xE000 then Some (v, t) else None | None \<Rightarrow> None)
        else None
      | _ \<Rightarrow> None)"

definition unescape_u :: "string \<Rightarrow> (string \<times> string) option" where
  "unescape_u s =
     (case hex4 s of None \<Rightarrow> None
      | Some (u, r) \<Rightarrow>
          if u < 0xD800 \<or> 0xE000 \<le> u then Some (encode_rune u, r)
          else if u < 0xDC00 then
            (case second_half r of
               Some (v, t) \<Rightarrow> Some (encode_rune (0x10000 + (u - 0xD800) * 0x400 + (v - 0xDC00)), t)
             | None \<Rightarrow> Some (replacement, r))
          else Some (replacement, r))"

text \<open>What follows a backslash.\<close>

definition unescape :: "string \<Rightarrow> (string \<times> string) option" where
  "unescape s =
     (case s of [] \<Rightarrow> None
      | c # r \<Rightarrow>
          if c = dquote \<or> c = backslash \<or> c = CHR ''/'' then Some ([c], r)
          else if c = CHR ''b'' then Some ([CHR 0x08], r) else if c = CHR ''f'' then Some ([CHR 0x0C], r)
          else if c = CHR ''n'' then Some ([CHR 0x0A], r) else if c = CHR ''r'' then Some ([CHR 0x0D], r)
          else if c = CHR ''t'' then Some ([CHR 0x09], r)
          else if c = CHR ''u'' then unescape_u r else None)"

lemma hex4_shorter: "hex4 s = Some (u, r) \<Longrightarrow> length r < length s"
  by (cases s rule: hex4.cases) (auto split: option.splits)

lemma second_half_shorter: "second_half s = Some (u, r) \<Longrightarrow> length r < length s"
  by (auto simp: second_half_def split: list.splits if_splits option.splits dest!: hex4_shorter)

lemma unescape_shorter: "unescape s = Some (x, r) \<Longrightarrow> length r < length s"
  by (auto simp: unescape_def unescape_u_def split: list.splits if_splits option.splits dest!: hex4_shorter second_half_shorter)

abbreviation prepend :: "string \<Rightarrow> (string \<times> string) option \<Rightarrow> (string \<times> string) option" where
  "prepend p \<equiv> map_option (apfst (append p))"

text \<open>The part of a string behind its opening quote: the bytes it stands for and what follows it.\<close>

function string_body :: "string \<Rightarrow> (string \<times> string) option" where
  "string_body s =
     (case s of [] \<Rightarrow> None
      | c # t \<Rightarrow>
          if c = dquote then Some ([], t)
          else if c = backslash then
            (case unescape t of None \<Rightarrow> None | Some (bs, r) \<Rightarrow> prepend bs (string_body r))
          else if byte_of c < 0x20 then None
          else (case wide_len s of
                  Some n \<Rightarrow> prepend (take n s) (string_body (drop n s))
                | None \<Rightarrow> prepend (if ascii c then [c] else replacement) (string_body t)))"
  by pat_completeness auto
termination
  by (relation "measure length") (auto dest: wide_len_bounds unescape_shorter)

declare string_body.simps [simp del]

lemma string_body_shorter: "string_body s = Some (v, r) \<Longrightarrow> length r < length s"
proof (induction s arbitrary: v r rule: string_body.induct)
  case (1 s)
  show ?case
  proof (cases s)
    case Nil
    then show ?thesis using 1(4) by (simp add: string_body.simps)
  next
    case (Cons c t)
    then have "string_body (c # t) = Some (v, r)" using 1(4) by simp
    then show ?thesis using 1(1-3) [OF Cons] Cons
      by (subst (asm) string_body.simps) (fastforce split: if_splits option.splits dest: unescape_shorter wide_len_bounds)
  qed
qed

text \<open>The string with its invalid bytes replaced, and the strings that have none.\<close>

function fix_utf8 :: "string \<Rightarrow> string" where
  "fix_utf8 s =
     (case s of [] \<Rightarrow> []
      | c # t \<Rightarrow> (case wide_len s of Some n \<Rightarrow> take n s @ fix_utf8 (drop n s)
          | None \<Rightarrow> (if ascii c then [c] else replacement) @ fix_utf8 t))"
  by pat_completeness auto
termination
  by (relation "measure length") (auto dest: wide_len_bounds)

declare fix_utf8.simps [simp del]

function utf8_ok :: "string \<Rightarrow> bool" where
  "utf8_ok s =
     (case s of [] \<Rightarrow> True
      | c # t \<Rightarrow> (case wide_len s of Some n \<Rightarrow> utf8_ok (drop n s) | None \<Rightarrow> ascii c \<and> utf8_ok t))"
  by pat_completeness auto
termination
  by (relation "measure length") (auto dest: wide_len_bounds)

declare utf8_ok.simps [simp del]

section \<open>A quoted string is read back\<close>

lemma dquote_simps [simp]: "dquote \<noteq> backslash" "backslash \<noteq> dquote" "byte_of dquote = 0x22" "byte_of backslash = 0x5C"
  by (simp_all add: dquote_def backslash_def)

lemma wide_len_take: "wide_len s = Some n \<Longrightarrow> wide_len (take n s @ r) = Some n"
proof -
  assume w: "wide_len s = Some n"
  then obtain c d t where s: "s = c # d # t" and n: "n = seq_len c" "2 \<le> seq_len c" "seq_len c \<le> length s" "second_ok c d"
      "list_all continuation (take (seq_len c - 2) t)"
    by (auto simp: wide_len_def split: list.splits if_splits)
  have t: "take n s = c # d # take (n - 2) t" using n by (simp add: s take_Cons' numeral_2_eq_2)
  have "length (take (n - 2) t) = n - 2" using n s by simp
  then show ?thesis unfolding t using n by (simp add: wide_len_def)
qed

lemma wide_len_ascii: "ascii c \<Longrightarrow> wide_len (c # s) = None"
  by (simp add: wide_len_def ascii_seq_len split: list.splits)

lemma hd_wide: "wide_len (c # t) = Some n \<Longrightarrow> 0x80 \<le> byte_of c"
  using wide_bytes [of "c # t" n] wide_len_bounds [of "c # t" n] by (cases n) auto

lemma byte_neq: "byte_of c \<noteq> byte_of d \<Longrightarrow> c \<noteq> d"
  by auto

lemma hex_val_digit [simp]: "d < 16 \<Longrightarrow> hex_val (hex_digit d) = Some d"
  by (auto simp: hex_val_def hex_digit_def Let_def)

lemma hex4_hex: "n < 65536 \<Longrightarrow> hex4 (hex 4 n @ r) = Some (n, r)"
proof -
  assume n: "n < 65536"
  let ?a = "n div 16 div 16 div 16" and ?b = "n div 16 div 16" and ?c = "n div 16"
  have "(4 :: nat) = Suc (Suc (Suc (Suc 0)))" by simp
  then have h: "hex 4 n = [hex_digit (?a mod 16), hex_digit (?b mod 16), hex_digit (?c mod 16), hex_digit (n mod 16)]"
    by (simp only: hex.simps append.simps)
  have "?a < 16" using n by linarith
  then have "((?a mod 16 * 16 + ?b mod 16) * 16 + ?c mod 16) * 16 + n mod 16 = n" by simp
  then show ?thesis unfolding h by (simp only: append.simps hex4.simps) simp
qed

lemma string_body_Cons:
  "string_body (c # t) =
     (if c = dquote then Some ([], t)
      else if c = backslash then (case unescape t of None \<Rightarrow> None | Some (bs, r) \<Rightarrow> prepend bs (string_body r))
      else if byte_of c < 0x20 then None
      else (case wide_len (c # t) of
              Some n \<Rightarrow> prepend (take n (c # t)) (string_body (drop n (c # t)))
            | None \<Rightarrow> prepend (if ascii c then [c] else replacement) (string_body t)))"
  by (subst string_body.simps) simp

lemma string_body_esc: "unescape t = Some (bs, r) \<Longrightarrow> string_body (backslash # t) = prepend bs (string_body r)"
  by (simp add: string_body_Cons)

lemma unescape_simple:
  "unescape (dquote # r) = Some ([dquote], r)" "unescape (backslash # r) = Some ([backslash], r)"
  "unescape (CHR ''b'' # r) = Some ([CHR 0x08], r)" "unescape (CHR ''f'' # r) = Some ([CHR 0x0C], r)"
  "unescape (CHR ''n'' # r) = Some ([CHR 0x0A], r)" "unescape (CHR ''r'' # r) = Some ([CHR 0x0D], r)"
  "unescape (CHR ''t'' # r) = Some ([CHR 0x09], r)"
  by (simp_all add: unescape_def dquote_def backslash_def)

lemma unescape_hex: "u < 0xD800 \<or> 0xE000 \<le> u \<Longrightarrow> u < 65536 \<Longrightarrow> unescape (CHR ''u'' # hex 4 u @ r) = Some (encode_rune u, r)"
  by (simp add: unescape_def unescape_u_def hex4_hex dquote_def backslash_def)

lemma char_of_byte: "byte_of c = k \<Longrightarrow> c = char_of k"
  by auto

lemma control_chars:
  "char_of (8 :: nat) = CHR 0x08" "char_of (9 :: nat) = CHR 0x09" "char_of (10 :: nat) = CHR 0x0A"
  "char_of (12 :: nat) = CHR 0x0C" "char_of (13 :: nat) = CHR 0x0D"
  by (simp_all add: char_of_def bit_0)

lemma escape_byte_short:
  "escape_byte dquote = [backslash, dquote]" "escape_byte backslash = [backslash, backslash]"
  "escape_byte (CHR 0x08) = [backslash, CHR ''b'']" "escape_byte (CHR 0x0C) = [backslash, CHR ''f'']"
  "escape_byte (CHR 0x0A) = [backslash, CHR ''n'']" "escape_byte (CHR 0x0D) = [backslash, CHR ''r'']"
  "escape_byte (CHR 0x09) = [backslash, CHR ''t'']"
  by (simp_all add: escape_byte_def dquote_def backslash_def)

lemma string_body_byte:
  assumes "ascii c"
  shows "string_body (escape_byte c @ r) = prepend [c] (string_body r)"
proof -
  have plain: "string_body (c # r) = prepend [c] (string_body r)" if "c \<noteq> dquote" "c \<noteq> backslash" "\<not> byte_of c < 0x20"
    using that assms wide_len_ascii [OF assms] by (simp add: string_body_Cons)
  have hexed: "string_body (backslash # CHR ''u'' # hex 4 (byte_of c) @ r) = prepend [c] (string_body r)"
    using assms by (subst string_body_esc [OF unescape_hex]) (auto simp: ascii_def encode_rune_def)
  consider "c = dquote" | "c = backslash" | "c = CHR 0x08" | "c = CHR 0x0C" | "c = CHR 0x0A" | "c = CHR 0x0D" | "c = CHR 0x09"
    | "c \<noteq> dquote" "c \<noteq> backslash" "byte_of c \<noteq> 8" "byte_of c \<noteq> 12" "byte_of c \<noteq> 10" "byte_of c \<noteq> 13" "byte_of c \<noteq> 9"
    using char_of_byte control_chars by metis
  then show ?thesis
  proof cases
    case 8
    then show ?thesis using plain hexed by (auto simp: escape_byte_def)
  qed (simp_all add: escape_byte_short unescape_simple [THEN string_body_esc])
qed

lemma string_body_replacement: "string_body (backslash # CHR ''u'' # hex 4 0xFFFD @ r) = prepend replacement (string_body r)"
proof -
  have "encode_rune 0xFFFD = replacement" by (simp add: encode_rune_def replacement_def char_of_def bit_0)
  then show ?thesis by (subst string_body_esc [OF unescape_hex]) simp_all
qed

lemma string_body_raw:
  assumes "wide_len s = Some n"
  shows "string_body (take n s @ r) = prepend (take n s) (string_body r)"
proof -
  have len: "2 \<le> n" "n \<le> length s" using wide_len_bounds [OF assms] by auto
  then obtain c t where s: "take n s = c # t" by (cases "take n s") auto
  have "0x80 \<le> byte_of c" using wide_bytes [OF assms] s by simp
  then have "c \<noteq> dquote" "c \<noteq> backslash" "\<not> byte_of c < 0x20" by auto
  moreover have "wide_len (c # t @ r) = Some n" using wide_len_take [OF assms, of r] s by simp
  moreover have "take n (c # t @ r) = c # t" "drop n (c # t @ r) = r" using len s by (metis append_Cons append_eq_conv_conj length_take min_absorb2)+
  ultimately show ?thesis unfolding s by (simp add: string_body_Cons)
qed

lemma string_body_wide:
  assumes "wide_len s = Some n"
  shows "string_body (escape_wide (take n s) @ r) = prepend (take n s) (string_body r)"
proof (cases "take n s \<in> set line_separators")
  case True
  have "code_point [CHR 0xE2, CHR 0x80, CHR 0xA8] = 0x2028" "code_point [CHR 0xE2, CHR 0x80, CHR 0xA9] = 0x2029"
    by (simp_all add: code_point_def)
  moreover have "encode_rune 0x2028 = [CHR 0xE2, CHR 0x80, CHR 0xA8]" "encode_rune 0x2029 = [CHR 0xE2, CHR 0x80, CHR 0xA9]"
    by (simp_all add: encode_rune_def char_of_def bit_0)
  ultimately have "code_point (take n s) < 0xD800" "encode_rune (code_point (take n s)) = take n s"
    using True by (auto simp: line_separators_def)
  then have "string_body (backslash # CHR ''u'' # hex 4 (code_point (take n s)) @ r) = prepend (take n s) (string_body r)"
    by (subst string_body_esc [OF unescape_hex]) simp_all
  then show ?thesis using True by (simp add: escape_wide_def)
qed (use string_body_raw [OF assms] in \<open>simp add: escape_wide_def\<close>)

lemma prepend_prepend: "prepend p (prepend q m) = prepend (p @ q) m"
  by (cases m) auto

lemma string_body_escape: "string_body (escape s @ r) = prepend (fix_utf8 s) (string_body r)"
proof (induction s rule: escape.induct)
  case (1 s)
  show ?case
  proof (cases s)
    case Nil
    then show ?thesis by (cases "string_body r") (auto simp: escape.simps fix_utf8.simps)
  next
    case (Cons c t)
    then show ?thesis using 1 [OF Cons] string_body_wide [of s]
      by (subst escape.simps, subst fix_utf8.simps)
        (simp split: option.splits add: string_body_byte string_body_replacement prepend_prepend)
  qed
qed

lemma string_text_read: "string_body (escape s @ dquote # r) = Some (fix_utf8 s, r)"
  by (simp add: string_body_escape string_body_Cons)

section \<open>Valid UTF-8\<close>

lemma utf8_induct [consumes 1, case_names Nil ascii wide]:
  assumes "utf8_ok s" and "P []" and "\<And>c t. ascii c \<Longrightarrow> utf8_ok t \<Longrightarrow> P t \<Longrightarrow> P (c # t)"
    and "\<And>t n. wide_len t = Some n \<Longrightarrow> utf8_ok (drop n t) \<Longrightarrow> P (drop n t) \<Longrightarrow> P t"
  shows "P s"
  using assms(1)
proof (induction s rule: utf8_ok.induct)
  case (1 s)
  show ?case
  proof (cases s)
    case (Cons c t)
    then have "case wide_len s of Some n \<Rightarrow> utf8_ok (drop n s) | None \<Rightarrow> ascii c \<and> utf8_ok t"
      using 1(3) by (subst (asm) utf8_ok.simps) simp
    then show ?thesis using 1(1,2) [OF Cons] assms(3,4) Cons by (auto split: option.splits)
  qed (use assms(2) in simp)
qed

lemma fix_utf8_id: "utf8_ok s \<Longrightarrow> fix_utf8 s = s"
proof (induction s rule: utf8_induct)
  case (ascii c t)
  then show ?case by (subst fix_utf8.simps) (simp add: wide_len_ascii)
next
  case (wide t n)
  then obtain c u where "t = c # u" using wide_len_bounds [of t n] by (cases t) auto
  then show ?case using wide by (subst fix_utf8.simps) (metis (no_types, lifting) append_take_drop_id list.simps(5) option.simps(5))
qed (simp add: fix_utf8.simps)

lemma utf8_ok_ascii: "list_all ascii s \<Longrightarrow> utf8_ok s"
  by (induction s) (simp_all add: utf8_ok.simps wide_len_ascii)

lemma utf8_ok_wide: "wide_len s = Some n \<Longrightarrow> utf8_ok (take n s @ r) = utf8_ok r"
proof -
  assume s: "wide_len s = Some n"
  then obtain c t where ct: "take n s = c # t" using wide_len_bounds [OF s] by (cases "take n s") auto
  have "n \<le> length s" using wide_len_bounds [OF s] by simp
  then have "length (take n s) = n" by simp
  then have "drop n (take n s @ r) = r" by simp
  then show ?thesis using wide_len_take [OF s, of r] ct by (subst utf8_ok.simps) simp
qed

lemma utf8_ok_fix: "utf8_ok (fix_utf8 s)"
proof (induction s rule: fix_utf8.induct)
  case (1 s)
  have rep: "utf8_ok (replacement @ r) = utf8_ok r" for r
    using utf8_ok_wide [of replacement 3 r] by (simp add: replacement_def wide_len_def seq_len_def second_ok_def continuation_def)
  have asc: "ascii c \<Longrightarrow> utf8_ok (c # r) = utf8_ok r" for c r by (subst utf8_ok.simps) (simp add: wide_len_ascii)
  show ?case
  proof (cases s)
    case (Cons c t)
    then show ?thesis using 1 [OF Cons] rep asc
      by (subst fix_utf8.simps) (auto split: option.splits simp: utf8_ok_wide)
  qed (simp add: fix_utf8.simps utf8_ok.simps)
qed

section \<open>Quoted text holds no control character\<close>

abbreviation printable :: "char \<Rightarrow> bool" where
  "printable c \<equiv> 0x20 \<le> byte_of c"

lemma printable_hex: "list_all printable (hex k n)"
  by (induction k arbitrary: n) (simp_all add: byte_of_hex_digit)

lemma printable_escape: "list_all printable (escape s)"
proof (induction s rule: escape.induct)
  case (1 s)
  have byte: "list_all printable (escape_byte c)" for c
    using printable_hex by (auto simp: escape_byte_def dquote_def backslash_def)
  have wide: "list_all printable (escape_wide (take n s))" if "wide_len s = Some n" for n
    using wide_bytes [OF that] printable_hex by (auto simp: escape_wide_def list_all_iff)
  show ?case
  proof (cases s)
    case (Cons c t)
    then show ?thesis using 1 [OF Cons] byte wide printable_hex
      by (subst escape.simps) (auto split: option.splits)
  qed (simp add: escape.simps)
qed

end
