(* ===== verification/Json.thy ===== *)
theory Json
  imports Json_Text
begin

text \<open>
  The values of Go's \<open>encoding/json\<close>: the reader of one value (what \<open>Unmarshal\<close> accepts, its limit
  on the nesting included), the compact text of \<open>Marshal\<close> and of an \<open>Encoder\<close>, and the indented text of
  \<open>MarshalIndent\<close> and of an \<open>Encoder\<close> with \<open>SetIndent\<close>. Numbers are kept as their text, as the
  decoder keeps them until it knows the type of the field.
\<close>

section \<open>Values and tokens\<close>

datatype json = JNull | JBool bool | JNum string | JStr string | JArr "json list" | JObj "(string \<times> json) list"

datatype token = TokOpenObj | TokCloseObj | TokOpenArr | TokCloseArr | TokColon | TokComma | TokLit json

datatype lexed = LexEnd | LexBad | Lexed token string

definition json_space :: "char \<Rightarrow> bool" where
  "json_space c \<longleftrightarrow> c = CHR 0x20 \<or> c = CHR 0x09 \<or> c = CHR 0x0A \<or> c = CHR 0x0D"

definition is_digit :: "char \<Rightarrow> bool" where
  "is_digit c \<longleftrightarrow> 48 \<le> byte_of c \<and> byte_of c \<le> 57"

text \<open>
  A number: an integer without superfluous zeros, and a fraction and an exponent if they are
  there. A point or an exponent without digits is left over, and is no token.
\<close>

definition span_digits :: "string \<Rightarrow> string \<times> string" where
  "span_digits s = (takeWhile is_digit s, dropWhile is_digit s)"

definition int_part :: "string \<Rightarrow> (string \<times> string) option" where
  "int_part s =
     (case s of [] \<Rightarrow> None
      | c # t \<Rightarrow> if c = CHR ''0'' then Some ([c], t) else if is_digit c then Some (span_digits s) else None)"

definition starts_digit :: "string \<Rightarrow> bool" where
  "starts_digit s = (case s of [] \<Rightarrow> False | c # t \<Rightarrow> is_digit c)"

definition frac_part :: "string \<Rightarrow> string \<times> string" where
  "frac_part s =
     (case s of [] \<Rightarrow> ([], s)
      | c # t \<Rightarrow> if c = CHR ''.'' \<and> starts_digit t then apfst (Cons c) (span_digits t) else ([], s))"

definition sign_part :: "char set \<Rightarrow> string \<Rightarrow> string \<times> string" where
  "sign_part C s = (case s of [] \<Rightarrow> ([], s) | c # t \<Rightarrow> if c \<in> C then ([c], t) else ([], s))"

definition exp_part :: "string \<Rightarrow> string \<times> string" where
  "exp_part s =
     (case s of [] \<Rightarrow> ([], s)
      | c # t \<Rightarrow>
         if c = CHR ''e'' \<or> c = CHR ''E'' then
           (case sign_part {CHR ''+'', CHR ''-''} t of (sg, u) \<Rightarrow>
              if starts_digit u then apfst (append (c # sg)) (span_digits u) else ([], s))
         else ([], s))"

definition number :: "string \<Rightarrow> (string \<times> string) option" where
  "number s =
     (case sign_part {CHR ''-''} s of (sg, s1) \<Rightarrow>
      (case int_part s1 of None \<Rightarrow> None
       | Some (i, s2) \<Rightarrow>
          (case frac_part s2 of (f, s3) \<Rightarrow> (case exp_part s3 of (e, s4) \<Rightarrow> Some (sg @ i @ f @ e, s4)))))"

definition next_token :: "string \<Rightarrow> lexed" where
  "next_token s =
     (case dropWhile json_space s of [] \<Rightarrow> LexEnd
      | c # t \<Rightarrow>
         if c = CHR 0x7B then Lexed TokOpenObj t else if c = CHR 0x7D then Lexed TokCloseObj t
         else if c = CHR 0x5B then Lexed TokOpenArr t else if c = CHR 0x5D then Lexed TokCloseArr t
         else if c = CHR 0x3A then Lexed TokColon t else if c = CHR 0x2C then Lexed TokComma t
         else if c = dquote then
           (case string_body t of None \<Rightarrow> LexBad | Some (v, r) \<Rightarrow> Lexed (TokLit (JStr v)) r)
         else if has_prefix (c # t) ''null'' then Lexed (TokLit JNull) (drop 3 t)
         else if has_prefix (c # t) ''true'' then Lexed (TokLit (JBool True)) (drop 3 t)
         else if has_prefix (c # t) ''false'' then Lexed (TokLit (JBool False)) (drop 4 t)
         else (case number (c # t) of None \<Rightarrow> LexBad | Some (n, r) \<Rightarrow> Lexed (TokLit (JNum n)) r))"

section \<open>The reader\<close>

text \<open>
  An open array with its elements so far, or an open object with its members so far and the key
  whose value is being read. What the reader expects next, with the stack of what is open.
\<close>

datatype frame = InArr "json list" | InObj "(string \<times> json) list" string

datatype expect =
    EValue "frame list" | EFirst "frame list" | EElem "json list" "frame list"
  | EKeyFirst "frame list" | EKey "(string \<times> json) list" "frame list" | EColon "(string \<times> json) list" string "frame list"
  | EMember "(string \<times> json) list" "frame list" | EDone json

fun completed :: "json \<Rightarrow> frame list \<Rightarrow> expect" where
  "completed v [] = EDone v"
| "completed v (InArr vs # fs) = EElem (vs @ [v]) fs"
| "completed v (InObj ms k # fs) = EMember (ms @ [(k, v)]) fs"

text \<open>The limit of the scanner on the depth of the nesting.\<close>

definition max_depth :: nat where
  "max_depth = 10000"

definition value_token :: "token \<Rightarrow> frame list \<Rightarrow> expect option" where
  "value_token t fs =
     (case t of TokLit v \<Rightarrow> Some (completed v fs)
      | TokOpenArr \<Rightarrow> if length fs < max_depth then Some (EFirst fs) else None
      | TokOpenObj \<Rightarrow> if length fs < max_depth then Some (EKeyFirst fs) else None
      | _ \<Rightarrow> None)"

definition key_token :: "token \<Rightarrow> (string \<times> json) list \<Rightarrow> frame list \<Rightarrow> expect option" where
  "key_token t ms fs = (case t of TokLit (JStr k) \<Rightarrow> Some (EColon ms k fs) | _ \<Rightarrow> None)"

fun feed :: "token \<Rightarrow> expect \<Rightarrow> expect option" where
  "feed t (EValue fs) = value_token t fs"
| "feed t (EFirst fs) = (if t = TokCloseArr then Some (completed (JArr []) fs) else value_token t (InArr [] # fs))"
| "feed t (EElem vs fs) =
     (if t = TokComma then Some (EValue (InArr vs # fs)) else if t = TokCloseArr then Some (completed (JArr vs) fs) else None)"
| "feed t (EKeyFirst fs) = (if t = TokCloseObj then Some (completed (JObj []) fs) else key_token t [] fs)"
| "feed t (EKey ms fs) = key_token t ms fs"
| "feed t (EColon ms k fs) = (if t = TokColon then Some (EValue (InObj ms k # fs)) else None)"
| "feed t (EMember ms fs) =
     (if t = TokComma then Some (EKey ms fs) else if t = TokCloseObj then Some (completed (JObj ms) fs) else None)"
| "feed t (EDone v) = None"

lemma span_digits_length: "span_digits s = (a, r) \<Longrightarrow> length r \<le> length s"
  by (auto simp: span_digits_def length_dropWhile_le)

lemma int_part_shorter: "int_part s = Some (i, r) \<Longrightarrow> length r < length s"
  by (auto simp: int_part_def span_digits_def le_imp_less_Suc length_dropWhile_le split: list.splits if_splits)

lemma apfst_span_length: "apfst f (span_digits s) = (a, r) \<Longrightarrow> length r \<le> length s"
  by (cases "span_digits s") (auto dest: span_digits_length)

lemma frac_part_length: "frac_part s = (f, r) \<Longrightarrow> length r \<le> length s"
  by (auto simp: frac_part_def split: list.splits if_splits dest!: apfst_span_length)

lemma sign_part_length: "sign_part C s = (g, r) \<Longrightarrow> length r \<le> length s"
  by (auto simp: sign_part_def split: list.splits if_splits)

lemma exp_part_length: "exp_part s = (e, r) \<Longrightarrow> length r \<le> length s"
  by (fastforce simp: exp_part_def split: list.splits if_splits prod.splits dest: apfst_span_length sign_part_length)

lemma number_shorter: "number s = Some (n, r) \<Longrightarrow> length r < length s"
  by (force simp: number_def split: option.splits prod.splits
      dest: sign_part_length int_part_shorter frac_part_length exp_part_length)

lemma next_token_shorter: "next_token s = Lexed t r \<Longrightarrow> length r < length s"
proof -
  assume l: "next_token s = Lexed t r"
  then obtain c u where cu: "dropWhile json_space s = c # u" by (cases "dropWhile json_space s") (auto simp: next_token_def)
  have "length (c # u) \<le> length s" unfolding cu [symmetric] by (rule length_dropWhile_le)
  moreover have "length r \<le> length u" using l cu
    by (auto simp: next_token_def split: if_splits option.splits dest!: string_body_shorter number_shorter)
  ultimately show ?thesis by simp
qed

function parse_from :: "expect \<Rightarrow> string \<Rightarrow> json option" where
  "parse_from e s =
     (case next_token s of
        LexEnd \<Rightarrow> (case e of EDone v \<Rightarrow> Some v | _ \<Rightarrow> None)
      | LexBad \<Rightarrow> None
      | Lexed t r \<Rightarrow> (case feed t e of None \<Rightarrow> None | Some e' \<Rightarrow> parse_from e' r))"
  by pat_completeness auto
termination
  by (relation "measure (\<lambda>(e, s). length s)") (auto dest: next_token_shorter)

declare parse_from.simps [simp del]

definition parse_json :: "string \<Rightarrow> json option" where
  "parse_json s = parse_from (EValue []) s"

section \<open>The writer\<close>

text \<open>
  \<open>nl d\<close> is what stands in front of an element at depth \<open>d\<close>, \<open>sp\<close> what follows a colon: both empty in the
  compact text, a new line with its indentation and a blank in the indented one.
\<close>

record layout =
  ly_nl :: "nat \<Rightarrow> string"
  ly_sp :: string

definition compact_layout :: layout where
  "compact_layout = \<lparr>ly_nl = (\<lambda>d. []), ly_sp = []\<rparr>"

definition indented_layout :: layout where
  "indented_layout = \<lparr>ly_nl = (\<lambda>d. CHR 0x0A # replicate (2 * d) CHR 0x20), ly_sp = [CHR 0x20]\<rparr>"

fun separated :: "string \<Rightarrow> string list \<Rightarrow> string" where
  "separated w [] = []"
| "separated w [x] = w @ x"
| "separated w (x # xs) = w @ x @ CHR 0x2C # separated w xs"

fun json_text :: "layout \<Rightarrow> nat \<Rightarrow> json \<Rightarrow> string" where
  "json_text ly d JNull = ''null''"
| "json_text ly d (JBool b) = (if b then ''true'' else ''false'')"
| "json_text ly d (JNum n) = n"
| "json_text ly d (JStr s) = json_string_text s"
| "json_text ly d (JArr vs) =
     CHR 0x5B # separated (ly_nl ly (Suc d)) (map (json_text ly (Suc d)) vs) @ (if vs = [] then [] else ly_nl ly d) @ [CHR 0x5D]"
| "json_text ly d (JObj ms) =
     CHR 0x7B # separated (ly_nl ly (Suc d)) (map (\<lambda>(k, v). json_string_text k @ CHR 0x3A # ly_sp ly @ json_text ly (Suc d) v) ms)
       @ (if ms = [] then [] else ly_nl ly d) @ [CHR 0x7D]"

definition marshal_text :: "json \<Rightarrow> string" where
  "marshal_text = json_text compact_layout 0"

definition indent_text :: "json \<Rightarrow> string" where
  "indent_text = json_text indented_layout 0"

section \<open>What is written is read back\<close>

text \<open>The text after a number must not go on with it.\<close>

definition stops :: "string \<Rightarrow> bool" where
  "stops r \<longleftrightarrow> (case r of [] \<Rightarrow> True | c # t \<Rightarrow> \<not> is_digit c \<and> c \<notin> set ''.eE+-'')"

lemma span_digits_append: "span_digits s = (a, u) \<Longrightarrow> stops r \<Longrightarrow> span_digits (s @ r) = (a, u @ r)"
proof (induction s arbitrary: a)
  case Nil
  then show ?case by (auto simp: span_digits_def stops_def split: list.splits)
qed (auto simp: span_digits_def split: if_splits)

lemma int_part_append: "int_part s = Some (a, u) \<Longrightarrow> stops r \<Longrightarrow> int_part (s @ r) = Some (a, u @ r)"
  using span_digits_append [of s a u r] by (auto simp: int_part_def split: list.splits if_splits)

lemma starts_digit_append: "stops r \<Longrightarrow> starts_digit (s @ r) = starts_digit s"
  by (auto simp: starts_digit_def stops_def split: list.splits)

lemma span_append_apfst: "stops r \<Longrightarrow> apfst f (span_digits (s @ r)) = apsnd (\<lambda>u. u @ r) (apfst f (span_digits s))"
  by (cases "span_digits s") (simp add: span_digits_append)

lemma frac_part_append: "stops r \<Longrightarrow> frac_part (s @ r) = apsnd (\<lambda>u. u @ r) (frac_part s)"
  by (cases s) (auto simp: frac_part_def starts_digit_append span_append_apfst, auto simp: stops_def split: list.splits)

lemma sign_part_append: "stops r \<Longrightarrow> C \<subseteq> {CHR ''+'', CHR ''-''} \<Longrightarrow> sign_part C (s @ r) = apsnd (\<lambda>u. u @ r) (sign_part C s)"
  by (cases s) (auto simp: sign_part_def stops_def split: list.splits)

lemma exp_part_append: "stops r \<Longrightarrow> exp_part (s @ r) = apsnd (\<lambda>u. u @ r) (exp_part s)"
proof (cases s)
  case (Cons c t)
  assume "stops r"
  then show ?thesis unfolding Cons
    by (auto simp: exp_part_def sign_part_append starts_digit_append span_append_apfst split: prod.split)
qed (auto simp: exp_part_def stops_def split: list.splits)

lemma number_append:
  assumes "number s = Some (n, u)" and "stops r"
  shows "number (s @ r) = Some (n, u @ r)"
proof -
  obtain sg s1 i s2 f s3 e s4 where p: "sign_part {CHR ''-''} s = (sg, s1)" "int_part s1 = Some (i, s2)"
      "frac_part s2 = (f, s3)" "exp_part s3 = (e, s4)" "n = sg @ i @ f @ e" "u = s4"
    using assms(1) unfolding number_def by (auto split: prod.splits option.splits)
  then have "sign_part {CHR ''-''} (s @ r) = (sg, s1 @ r)" "int_part (s1 @ r) = Some (i, s2 @ r)"
      "frac_part (s2 @ r) = (f, s3 @ r)" "exp_part (s3 @ r) = (e, s4 @ r)"
    using assms(2) by (simp_all add: sign_part_append int_part_append frac_part_append exp_part_append)
  then show ?thesis unfolding number_def by (simp add: p(5,6))
qed

text \<open>The values whose numbers are numbers and that are nested at most \<open>k\<close> deep, and the value that is
  read back from a text.\<close>

fun writable :: "nat \<Rightarrow> json \<Rightarrow> bool" where
  "writable k (JNum n) = (number n = Some (n, []))"
| "writable k (JArr vs) = (0 < k \<and> list_all (writable (k - 1)) vs)"
| "writable k (JObj ms) = (0 < k \<and> list_all (\<lambda>(_, v). writable (k - 1) v) ms)"
| "writable k v = True"

fun fix_json :: "json \<Rightarrow> json" where
  "fix_json (JStr s) = JStr (fix_utf8 s)"
| "fix_json (JArr vs) = JArr (map fix_json vs)"
| "fix_json (JObj ms) = JObj (map (\<lambda>(k, v). (fix_utf8 k, fix_json v)) ms)"
| "fix_json v = v"

lemma json_space_not [simp]: "json_space c \<Longrightarrow> stops (c # s)"
  by (auto simp: json_space_def stops_def is_digit_def)

lemma next_token_blank: "list_all json_space w \<Longrightarrow> next_token (w @ s) = next_token s"
  by (simp add: next_token_def dropWhile_append3 list_all_iff)

lemma not_space: "byte_of c \<noteq> 0x20 \<Longrightarrow> byte_of c \<noteq> 9 \<Longrightarrow> byte_of c \<noteq> 10 \<Longrightarrow> byte_of c \<noteq> 13 \<Longrightarrow> \<not> json_space c"
  by (auto simp: json_space_def)

lemma next_token_punct:
  "next_token (CHR 0x7B # r) = Lexed TokOpenObj r" "next_token (CHR 0x7D # r) = Lexed TokCloseObj r"
  "next_token (CHR 0x5B # r) = Lexed TokOpenArr r" "next_token (CHR 0x5D # r) = Lexed TokCloseArr r"
  "next_token (CHR 0x3A # r) = Lexed TokColon r" "next_token (CHR 0x2C # r) = Lexed TokComma r"
  by (simp_all add: next_token_def json_space_def)

lemma next_token_word:
  "next_token (''null'' @ r) = Lexed (TokLit JNull) r"
  "next_token (''true'' @ r) = Lexed (TokLit (JBool True)) r"
  "next_token (''false'' @ r) = Lexed (TokLit (JBool False)) r"
  by (simp_all add: next_token_def json_space_def has_prefix_def dquote_def)

lemma next_token_string: "next_token (json_string_text s @ r) = Lexed (TokLit (JStr (fix_utf8 s))) r"
  by (simp add: next_token_def json_string_text_def string_text_read not_space) (simp add: dquote_def)

lemma hd_number: "number (c # t) = Some (n, u) \<Longrightarrow> is_digit c \<or> c = CHR ''-''"
  by (auto simp: number_def sign_part_def int_part_def is_digit_def split: if_splits option.splits)

lemma next_token_number:
  assumes "number n = Some (n, [])" and "stops r"
  shows "next_token (n @ r) = Lexed (TokLit (JNum n)) r"
proof -
  obtain c t where n: "n = c # t" using assms(1) by (cases n) (auto simp: number_def sign_part_def int_part_def)
  have c: "is_digit c \<or> c = CHR ''-''" using assms(1) hd_number n by blast
  then have "\<not> json_space c" "c \<notin> {CHR 0x7B, CHR 0x7D, CHR 0x5B, CHR 0x5D, CHR 0x3A, CHR 0x2C, dquote, CHR ''n'', CHR ''t'', CHR ''f''}"
    by (auto simp: is_digit_def dquote_def json_space_def)
  then show ?thesis using number_append [OF assms] unfolding n by (simp add: next_token_def has_prefix_def)
qed

lemma parse_token: "next_token s = Lexed t r \<Longrightarrow> feed t e = Some e' \<Longrightarrow> parse_from e s = parse_from e' r"
  by (subst parse_from.simps) simp

text \<open>A state of the reader that takes any value into the frames \<open>fs\<close>.\<close>

definition accepts :: "expect \<Rightarrow> frame list \<Rightarrow> bool" where
  "accepts e fs \<longleftrightarrow> (\<forall>t. t \<noteq> TokCloseArr \<longrightarrow> feed t e = value_token t fs)"

lemma accepts_simps [simp]: "accepts (EValue fs) fs" "accepts (EFirst fs) (InArr [] # fs)"
  by (simp_all add: accepts_def)

lemma parse_literal:
  "next_token s = Lexed (TokLit v) r \<Longrightarrow> accepts e fs \<Longrightarrow> parse_from e s = parse_from (completed v fs) r"
  by (rule parse_token) (auto simp: accepts_def value_token_def)

definition blank_layout :: "layout \<Rightarrow> bool" where
  "blank_layout ly \<longleftrightarrow> (\<forall>d. list_all json_space (ly_nl ly d)) \<and> list_all json_space (ly_sp ly)"

lemma blank_layouts [simp]: "blank_layout compact_layout" "blank_layout indented_layout"
  by (simp_all add: blank_layout_def compact_layout_def indented_layout_def json_space_def list_all_iff)

text \<open>What the reader makes of the text of one value, whatever comes after it.\<close>

definition reads :: "layout \<Rightarrow> json \<Rightarrow> bool" where
  "reads ly v \<longleftrightarrow> (\<forall>e fs d w r. accepts e fs \<longrightarrow> list_all json_space w \<longrightarrow> stops r \<longrightarrow> writable (max_depth - length fs) v \<longrightarrow>
     parse_from e (w @ json_text ly d v @ r) = parse_from (completed (fix_json v) fs) r)"

lemma readsD:
  "reads ly v \<Longrightarrow> accepts e fs \<Longrightarrow> list_all json_space w \<Longrightarrow> stops r \<Longrightarrow> writable (max_depth - length fs) v
   \<Longrightarrow> parse_from e (w @ json_text ly d v @ r) = parse_from (completed (fix_json v) fs) r"
  unfolding reads_def by blast

lemma stops_punct [simp]: "stops (CHR 0x2C # r)" "stops (CHR 0x5D # r)" "stops (CHR 0x7D # r)" "stops []"
  by (simp_all add: stops_def is_digit_def)

lemma stops_blank: "list_all json_space w \<Longrightarrow> stops r \<Longrightarrow> stops (w @ r)"
  by (cases w) simp_all

lemma parse_blank: "list_all json_space w \<Longrightarrow> parse_from e (w @ s) = parse_from e s"
  by (subst (1 2) parse_from.simps) (simp add: next_token_blank)

lemma parse_elements:
  assumes "blank_layout ly" and "vs \<noteq> []" and "\<And>v. v \<in> set vs \<Longrightarrow> reads ly v"
    and "accepts e (InArr acc # fs)" and "list_all (writable (max_depth - Suc (length fs))) vs"
  shows "parse_from e (separated (ly_nl ly d) (map (json_text ly d) vs) @ ly_nl ly d' @ CHR 0x5D # r)
    = parse_from (completed (JArr (acc @ map fix_json vs)) fs) r"
  using assms(2-5)
proof (induction vs arbitrary: e acc rule: list_nonempty_induct)
  case (single v)
  have b: "list_all json_space (ly_nl ly d')" "list_all json_space (ly_nl ly d)" using assms(1) by (simp_all add: blank_layout_def)
  have "parse_from e (ly_nl ly d @ json_text ly d v @ ly_nl ly d' @ CHR 0x5D # r)
      = parse_from (EElem (acc @ [fix_json v]) fs) (ly_nl ly d' @ CHR 0x5D # r)"
    using single readsD [of ly v e "InArr acc # fs"] b by (simp add: stops_blank)
  also have "\<dots> = parse_from (completed (JArr (acc @ [fix_json v])) fs) r"
    using parse_token [OF next_token_punct(4)] b by (simp add: parse_blank)
  finally show ?case by simp
next
  case (cons v vs)
  let ?t = "separated (ly_nl ly d) (map (json_text ly d) vs) @ ly_nl ly d' @ CHR 0x5D # r"
  have "list_all json_space (ly_nl ly d)" using assms(1) by (simp add: blank_layout_def)
  then have "parse_from e (ly_nl ly d @ json_text ly d v @ CHR 0x2C # ?t) = parse_from (EElem (acc @ [fix_json v]) fs) (CHR 0x2C # ?t)"
    using cons.prems readsD [of ly v e "InArr acc # fs"] by simp
  also have "\<dots> = parse_from (EValue (InArr (acc @ [fix_json v]) # fs)) ?t"
    by (rule parse_token [OF next_token_punct(6)]) simp
  also have "\<dots> = parse_from (completed (JArr ((acc @ [fix_json v]) @ map fix_json vs)) fs) r"
    using cons.prems by (intro cons.IH) simp_all
  finally show ?case using cons.hyps by (cases vs) simp_all
qed

lemma parse_members:
  assumes "blank_layout ly" and "ms \<noteq> []" and "\<And>k v. (k, v) \<in> set ms \<Longrightarrow> reads ly v"
    and "\<And>k. feed (TokLit (JStr k)) e = Some (EColon acc k fs)" and "list_all (\<lambda>(k, v). writable (max_depth - Suc (length fs)) v) ms"
  shows "parse_from e (separated (ly_nl ly d) (map (\<lambda>(k, v). json_string_text k @ CHR 0x3A # ly_sp ly @ json_text ly d v) ms)
      @ ly_nl ly d' @ CHR 0x7D # r) = parse_from (completed (JObj (acc @ map (\<lambda>(k, v). (fix_utf8 k, fix_json v)) ms)) fs) r"
proof -
  have b: "list_all json_space (ly_nl ly d)" "list_all json_space (ly_nl ly d')" "list_all json_space (ly_sp ly)" for d
    using assms(1) by (simp_all add: blank_layout_def)
  have member: "parse_from e (ly_nl ly d @ (json_string_text k @ CHR 0x3A # ly_sp ly @ json_text ly d v) @ t)
      = parse_from (EMember (acc @ [(fix_utf8 k, fix_json v)]) fs) t"
    if "reads ly v" "\<And>k. feed (TokLit (JStr k)) e = Some (EColon acc k fs)" "writable (max_depth - Suc (length fs)) v" "stops t" for e acc k v t
  proof -
    have "parse_from e (ly_nl ly d @ (json_string_text k @ CHR 0x3A # ly_sp ly @ json_text ly d v) @ t)
        = parse_from (EColon acc (fix_utf8 k) fs) (CHR 0x3A # ly_sp ly @ json_text ly d v @ t)"
      using b that(2) by (simp add: parse_blank parse_token [OF next_token_string])
    also have "\<dots> = parse_from (EValue (InObj acc (fix_utf8 k) # fs)) (ly_sp ly @ json_text ly d v @ t)"
      by (rule parse_token [OF next_token_punct(5)]) simp
    also have "\<dots> = parse_from (EMember (acc @ [(fix_utf8 k, fix_json v)]) fs) t"
      using readsD [OF that(1), of "EValue (InObj acc (fix_utf8 k) # fs)" "InObj acc (fix_utf8 k) # fs"] that(3,4) b by simp
    finally show ?thesis .
  qed
  show ?thesis using assms(2-5)
  proof (induction ms arbitrary: e acc rule: list_nonempty_induct)
    case (single m)
    then show ?case
      using member [of "snd m" e acc] b parse_token [OF next_token_punct(2)]
      by (cases m) (simp add: stops_blank parse_blank)
  next
    case (cons m ms)
    obtain k v where m: "m = (k, v)" by fastforce
    let ?t = "separated (ly_nl ly d) (map (\<lambda>(k, v). json_string_text k @ CHR 0x3A # ly_sp ly @ json_text ly d v) ms) @ ly_nl ly d' @ CHR 0x7D # r"
    have "parse_from e (ly_nl ly d @ (json_string_text k @ CHR 0x3A # ly_sp ly @ json_text ly d v) @ CHR 0x2C # ?t)
        = parse_from (EMember (acc @ [(fix_utf8 k, fix_json v)]) fs) (CHR 0x2C # ?t)"
      using cons.prems m by (intro member) auto
    also have "\<dots> = parse_from (EKey (acc @ [(fix_utf8 k, fix_json v)]) fs) ?t"
      by (rule parse_token [OF next_token_punct(6)]) simp
    also have "\<dots> = parse_from (completed (JObj ((acc @ [(fix_utf8 k, fix_json v)]) @ map (\<lambda>(k, v). (fix_utf8 k, fix_json v)) ms)) fs) r"
      using cons.prems by (intro cons.IH) (auto simp: key_token_def)
    finally show ?case using cons.hyps m by (cases ms) simp_all
  qed
qed

lemma reads_all: "blank_layout ly \<Longrightarrow> reads ly v"
proof (induction v)
  case (JNum n)
  show ?case unfolding reads_def by (simp add: parse_blank parse_literal [OF next_token_number])
next
  case (JStr s)
  show ?case unfolding reads_def by (simp add: parse_blank parse_literal [OF next_token_string])
next
  case (JArr vs)
  have open_arr: "accepts e fs \<Longrightarrow> length fs < max_depth \<Longrightarrow> parse_from e (CHR 0x5B # t) = parse_from (EFirst fs) t" for e fs t
    by (rule parse_token [OF next_token_punct(3)]) (simp add: accepts_def value_token_def)
  have close: "parse_from (EFirst fs) (CHR 0x5D # r) = parse_from (completed (JArr []) fs) r" for fs r
    by (rule parse_token [OF next_token_punct(4)]) simp
  have "max_depth - length fs - 1 = max_depth - Suc (length fs)" for fs :: "frame list" by simp
  then show ?case unfolding reads_def
    using JArr parse_elements [where acc = "[]" and ly = ly and vs = vs]
    by (auto simp: parse_blank open_arr close)
next
  case (JObj ms)
  have open_obj: "accepts e fs \<Longrightarrow> length fs < max_depth \<Longrightarrow> parse_from e (CHR 0x7B # t) = parse_from (EKeyFirst fs) t" for e fs t
    by (rule parse_token [OF next_token_punct(1)]) (simp add: accepts_def value_token_def)
  have close: "parse_from (EKeyFirst fs) (CHR 0x7D # r) = parse_from (completed (JObj []) fs) r" for fs r
    by (rule parse_token [OF next_token_punct(2)]) simp
  have ih: "(k, v) \<in> set ms \<Longrightarrow> reads ly v" for k v using JObj by (auto simp: snds.simps)
  have "max_depth - length fs - 1 = max_depth - Suc (length fs)" for fs :: "frame list" by simp
  then show ?case unfolding reads_def
    using JObj.prems ih parse_members [where acc = "[]" and ly = ly and ms = ms]
    by (auto simp: parse_blank open_obj close key_token_def)
qed (simp_all add: reads_def parse_blank parse_literal [OF next_token_word(1), simplified]
    parse_literal [OF next_token_word(2), simplified] parse_literal [OF next_token_word(3), simplified])

text \<open>Blanks after the value, such as the newline that ends a message, do not matter.\<close>

lemma parse_json_blank:
  assumes "blank_layout ly" and "writable max_depth v" and "list_all json_space w"
  shows "parse_json (json_text ly d v @ w) = Some (fix_json v)"
proof -
  have "stops w" using assms(3) by (cases w) simp_all
  have "parse_from (EValue []) ([] @ json_text ly d v @ w) = parse_from (completed (fix_json v) []) (w @ [])"
    unfolding append_Nil2
    by (rule readsD [OF reads_all [OF assms(1)]]) (use assms(2) \<open>stops w\<close> in simp_all)
  also have "\<dots> = parse_from (EDone (fix_json v)) []" using parse_blank [OF assms(3), of "EDone (fix_json v)" "[]"] by simp
  also have "\<dots> = Some (fix_json v)" by (subst parse_from.simps) (simp add: next_token_def)
  finally show ?thesis by (simp add: parse_json_def)
qed

lemma parse_json_text: "blank_layout ly \<Longrightarrow> writable max_depth v \<Longrightarrow> parse_json (json_text ly d v) = Some (fix_json v)"
  using parse_json_blank [of ly v "[]" d] by simp

end
