(* ===== verification/State_Store.thy ===== *)
theory State_Store
  imports Log_File Config
begin

text \<open>
  The state file (\<open>internal/state/store.go\<close>: \<open>Save\<close>, \<open>Load\<close>, \<open>DefaultPath\<close>) over the file-system
  model of the logs. \<open>Save\<close> returns every state the file system passes through, so that a crash
  of the daemon between two system calls is one of them. The JSON codec is an argument here;
  \<open>Json_Struct\<close> has the one of the program. What fails in a call is decided by a record.
\<close>

section \<open>Model\<close>

record PersistedApp =
  pa_Config :: AppConfig
  pa_Restarts :: int

record State =
  st_Apps :: "PersistedApp list"

text \<open>
  The outcome of each system call of a \<open>Save\<close>: \<open>sv_create\<close> is the error or the name of the
  temporary file, \<open>sv_write\<close> a failed write with the number of bytes that got through.
\<close>

record save_calls =
  sv_mkdir :: "string option"
  sv_create :: "string + string"
  sv_write :: "(nat \<times> string) option"
  sv_sync :: "string option"
  sv_close :: "string option"
  sv_rename :: "string option"

datatype save_error =
    MkdirState string | MarshalState string | CreateTmp string | WriteTmp string
  | FsyncTmp string | CloseTmp string | RenameTmp string

text \<open>The deferred cleanup: the temporary file is removed if its name still exists.\<close>

definition cleanup :: "string \<Rightarrow> fs \<Rightarrow> fs" where
  "cleanup tmp f = (if fs_names f tmp = None then f else fs_remove tmp f)"

text \<open>The write, sync, close and rename of the open temporary file \<open>i\<close>.\<close>

definition save_tmp :: "save_calls \<Rightarrow> string \<Rightarrow> string \<Rightarrow> nat \<Rightarrow> string \<Rightarrow> fs \<Rightarrow> fs list \<times> save_error option" where
  "save_tmp sv path tmp i body f =
     (case sv_write sv of
        Some (k, e) \<Rightarrow> (let f1 = fs_write i (take k body) f in ([f1, cleanup tmp f1], Some (WriteTmp e)))
      | None \<Rightarrow>
        (let f1 = fs_write i body f in
         case sv_sync sv of Some e \<Rightarrow> ([f1, cleanup tmp f1], Some (FsyncTmp e))
         | None \<Rightarrow>
           (case sv_close sv of Some e \<Rightarrow> ([f1, cleanup tmp f1], Some (CloseTmp e))
            | None \<Rightarrow>
              (case sv_rename sv of Some e \<Rightarrow> ([f1, cleanup tmp f1], Some (RenameTmp e))
               | None \<Rightarrow> (let f2 = fs_rename tmp path f1 in ([f1, f2, cleanup tmp f2], None))))))"

definition Save ::
  "(State \<Rightarrow> string + string) \<Rightarrow> save_calls \<Rightarrow> string \<Rightarrow> State \<Rightarrow> fs \<Rightarrow> fs list \<times> save_error option"
where
  "Save marshal sv path st f =
     (if path = [] then ([f], None)
      else (case sv_mkdir sv of Some e \<Rightarrow> ([f], Some (MkdirState e))
        | None \<Rightarrow>
          (case marshal st of Inl e \<Rightarrow> ([f], Some (MarshalState e))
           | Inr body \<Rightarrow>
             (case sv_create sv of Inl e \<Rightarrow> ([f], Some (CreateTmp e))
              | Inr tmp \<Rightarrow>
                (let (i, f1) = fs_create tmp f; (fl, err) = save_tmp sv path tmp i body f1 in (f # f1 # fl, err))))))"

datatype load_error = ReadState string | ParseState string

text \<open>\<open>readErr\<close> is an error of \<open>ReadFile\<close> other than a missing file.\<close>

definition store_Load ::
  "(string \<Rightarrow> string + State) \<Rightarrow> string option \<Rightarrow> string \<Rightarrow> fs \<Rightarrow> load_error + State"
where
  "store_Load unmarshal readErr path f =
     (if path = [] then Inr \<lparr>st_Apps = []\<rparr>
      else (case readErr of Some e \<Rightarrow> Inl (ReadState e)
        | None \<Rightarrow>
          (case file_text f path of None \<Rightarrow> Inr \<lparr>st_Apps = []\<rparr>
           | Some body \<Rightarrow> (case unmarshal body of Inl e \<Rightarrow> Inl (ParseState e) | Inr st \<Rightarrow> Inr st))))"

definition DefaultPath :: "string + string \<Rightarrow> string + string" where
  "DefaultPath home = (case home of Inl e \<Rightarrow> Inl e | Inr h \<Rightarrow> Inr (path_join [h, ''.gopm'', ''state.json'']))"

section \<open>Lemmas\<close>

lemma create_text:
  "fs_ok f \<Longrightarrow> fs_names f a = None \<Longrightarrow> fs_create a f = (i, f') \<Longrightarrow>
     fs_ok f' \<and> i = fs_next f \<and> fs_names f' a = Some i \<and> (\<forall>n. file_text f' n = (if n = a then Some [] else file_text f n))"
  using open_trunc_new [of f a] by (auto simp: fs_create_def)

lemma write_text:
  assumes "fs_ok f" and "fs_names f a = Some i"
  shows "fs_ok (fs_write i t f) \<and> fs_names (fs_write i t f) = fs_names f
    \<and> (\<forall>n. file_text (fs_write i t f) n = (if n = a then map_option (\<lambda>s. s @ t) (file_text f n) else file_text f n))"
proof -
  have "file_text (fs_write i t f) n = (if n = a then map_option (\<lambda>s. s @ t) (file_text f n) else file_text f n)" for n
    using assms by (cases "fs_names f n") (auto simp: fs_write_def file_text_def fs_ok_def)
  then show ?thesis using assms(1) by (simp add: fs_write_def fs_ok_def)
qed

lemma cleanup_text: "file_text (cleanup a f) n = (if n = a then None else file_text f n)"
  by (auto simp: cleanup_def fs_remove_def file_text_def)

text \<open>A save that fails after the temporary file was made leaves everything else alone.\<close>

lemma save_tmp_text:
  assumes "fs_ok f" and "fs_names f tmp = Some i" and "file_text f tmp = Some []" and "tmp \<noteq> path"
    and "save_tmp sv path tmp i body f = (fl, err)"
  shows "fl \<noteq> [] \<and> (\<forall>g \<in> set fl. \<forall>n. n \<noteq> tmp \<longrightarrow> n \<noteq> path \<longrightarrow> file_text g n = file_text f n)
    \<and> (\<forall>g \<in> set fl. file_text g path = file_text f path \<or> (err = None \<and> file_text g path = Some body))
    \<and> file_text (last fl) tmp = None
    \<and> file_text (last fl) path = (if err = None then Some body else file_text f path)"
proof -
  have w: "fs_ok (fs_write i t f)" "fs_names (fs_write i t f) = fs_names f"
    "\<And>n. file_text (fs_write i t f) n = (if n = tmp then Some t else file_text f n)" for t
    using write_text [OF assms(1,2)] assms(3) by auto
  have r: "file_text (fs_rename tmp path (fs_write i body f)) n
    = (if n = path then Some body else if n = tmp then None else file_text f n)" for n
    using file_text_rename [OF w(1) assms(4), of body n] w(2) [of body] w(3) assms(2) by simp
  show ?thesis using assms(4,5)
    by (auto simp: save_tmp_def Let_def cleanup_text w(3) r split: option.splits prod.splits)
qed

lemma Save_texts:
  assumes "fs_ok f" and "path \<noteq> []" and "marshal st = Inr body"
    and "\<And>tmp. sv_create sv = Inr tmp \<Longrightarrow> fs_names f tmp = None \<and> tmp \<noteq> path"
    and "Save marshal sv path st f = (fl, err)"
  shows "(\<forall>g \<in> set fl. file_text g path = file_text f path \<or> file_text g path = Some body)
    \<and> file_text (last fl) path = (if err = None then Some body else file_text f path)
    \<and> (\<forall>n. n \<noteq> path \<longrightarrow> file_text (last fl) n = file_text f n)"
proof (cases "sv_mkdir sv")
  case (Some e)
  then show ?thesis using assms(2,5) by (auto simp: Save_def)
next
  case None
  show ?thesis
  proof (cases "sv_create sv")
    case (Inl e)
    then show ?thesis using assms(2,3,5) None by (auto simp: Save_def)
  next
    case (Inr tmp)
    then have tmp: "fs_names f tmp = None" "tmp \<noteq> path" using assms(4) by auto
    obtain i f1 where c: "fs_create tmp f = (i, f1)" by fastforce
    have f1: "fs_ok f1" "fs_names f1 tmp = Some i" "file_text f1 tmp = Some []"
      "\<And>n. file_text f1 n = (if n = tmp then Some [] else file_text f n)"
      using create_text [OF assms(1) tmp(1) c] by simp_all
    obtain gl err' where g: "save_tmp sv path tmp i body f1 = (gl, err')" by fastforce
    have fl: "fl = f # f1 # gl" "err = err'"
      using assms(2,3,5) None Inr c g by (auto simp: Save_def)
    note s = save_tmp_text [OF f1(1-3) tmp(2) g]
    have "file_text f tmp = None" using tmp(1) by (simp add: file_text_def)
    moreover have "gl \<noteq> []" using s by blast
    moreover have "file_text (last gl) n = file_text f n" if "n \<noteq> path" for n
      using s f1(4) [of n] that \<open>file_text f tmp = None\<close> by (cases "n = tmp") (auto dest: last_in_set)
    ultimately show ?thesis using s f1(4) [of path] tmp(2) by (auto simp: fl)
  qed
qed

section \<open>Properties\<close>

text \<open>C14. Saving is atomic: in every state the file system passes through during a \<open>Save\<close>, where a
  crash of the daemon may leave it, the state file holds its old contents or the complete new
  ones; at the end it holds the new ones exactly when \<open>Save\<close> succeeded, no temporary file is
  left, and no other file has changed.\<close>

theorem save_atomic:
  assumes "fs_ok f" and "path \<noteq> []" and "marshal st = Inr body"
    and "\<And>tmp. sv_create sv = Inr tmp \<Longrightarrow> fs_names f tmp = None \<and> tmp \<noteq> path"
    and "Save marshal sv path st f = (fl, err)"
  shows "(\<forall>g \<in> set fl. file_text g path = file_text f path \<or> file_text g path = Some body)
    \<and> file_text (last fl) path = (if err = None then Some body else file_text f path)
    \<and> (\<forall>n. n \<noteq> path \<longrightarrow> file_text (last fl) n = file_text f n)"
  by (rule Save_texts [OF assms])

definition ok_calls :: save_calls where
  "ok_calls = \<lparr>sv_mkdir = None, sv_create = Inr ''/h/.state-1.json.tmp'', sv_write = None, sv_sync = None, sv_close = None, sv_rename = None\<rparr>"

theorem save_atomic_witness:
  "\<exists>fl. Save (\<lambda>st. Inr ''{}'') (ok_calls\<lparr>sv_write := Some (1, ''disk full'')\<rparr>) ''/h/state.json'' \<lparr>st_Apps = []\<rparr> no_files
       = (fl, Some (WriteTmp ''disk full''))
     \<and> file_text (last fl) ''/h/state.json'' = None \<and> file_text (last fl) ''/h/.state-1.json.tmp'' = None"
proof -
  obtain fl where s: "Save (\<lambda>st. Inr ''{}'') (ok_calls\<lparr>sv_write := Some (1, ''disk full'')\<rparr>) ''/h/state.json'' \<lparr>st_Apps = []\<rparr> no_files
       = (fl, Some (WriteTmp ''disk full''))"
    by (simp add: Save_def save_tmp_def ok_calls_def no_files_def fs_create_def Let_def)
  have "fs_ok no_files" by (simp add: fs_ok_def no_files_def)
  have "file_text (last fl) ''/h/state.json'' = (if Some (WriteTmp ''disk full'') = None then Some ''{}'' else file_text no_files ''/h/state.json'')
     \<and> (\<forall>n. n \<noteq> ''/h/state.json'' \<longrightarrow> file_text (last fl) n = file_text no_files n)"
    using save_atomic [OF \<open>fs_ok no_files\<close> _ _ _ s, of "''{}''"] by (simp add: ok_calls_def no_files_def)
  then show ?thesis using s by (simp add: no_files_def file_text_def)
qed

lemma load_back:
  assumes "fs_ok f" and "path \<noteq> []" and "marshal st = Inr body" and "unmarshal body = Inr st'"
    and "\<And>tmp. sv_create sv = Inr tmp \<Longrightarrow> fs_names f tmp = None \<and> tmp \<noteq> path"
    and "Save marshal sv path st f = (fl, err)"
  shows "store_Load unmarshal None path (last fl) = (if err = None then Inr st' else store_Load unmarshal None path f)"
proof -
  have "file_text (last fl) path = (if err = None then Some body else file_text f path)"
    using Save_texts [OF assms(1,2,3,5,6)] by blast
  then show ?thesis using assms(2,3,4) by (simp add: store_Load_def)
qed

text \<open>What the codec makes of the text that was saved is what the next daemon loads (\<open>Json_Wire\<close> says what
  that is); after a failed save, the next daemon loads what it would have loaded before it.\<close>

theorem load_after_save:
  assumes "fs_ok f" and "path \<noteq> []" and "marshal st = Inr body" and "unmarshal body = Inr st'"
    and "\<And>tmp. sv_create sv = Inr tmp \<Longrightarrow> fs_names f tmp = None \<and> tmp \<noteq> path"
    and "Save marshal sv path st f = (fl, err)"
  shows "store_Load unmarshal None path (last fl) = (if err = None then Inr st' else store_Load unmarshal None path f)"
  using assms by (rule load_back)

text \<open>A codec of the empty state only.\<close>

definition demo_marshal :: "State \<Rightarrow> string + string" where
  "demo_marshal st = (if st_Apps st = [] then Inr ''{}'' else Inl ''unsupported'')"

definition demo_unmarshal :: "string \<Rightarrow> string + State" where
  "demo_unmarshal b = (if b = ''{}'' then Inr \<lparr>st_Apps = []\<rparr> else Inl ''syntax'')"

theorem load_after_save_witness:
  "\<exists>fl. Save demo_marshal ok_calls ''/h/state.json'' \<lparr>st_Apps = []\<rparr> no_files = (fl, None)
     \<and> store_Load demo_unmarshal None ''/h/state.json'' (last fl) = Inr \<lparr>st_Apps = []\<rparr>"
proof -
  obtain fl where s: "Save demo_marshal ok_calls ''/h/state.json'' \<lparr>st_Apps = []\<rparr> no_files = (fl, None)"
    by (simp add: Save_def save_tmp_def ok_calls_def no_files_def fs_create_def Let_def demo_marshal_def)
  have "store_Load demo_unmarshal None ''/h/state.json'' (last fl)
      = (if (None :: save_error option) = None then Inr \<lparr>st_Apps = []\<rparr> else store_Load demo_unmarshal None ''/h/state.json'' no_files)"
    by (rule load_after_save [OF _ _ _ _ _ s])
      (auto simp: fs_ok_def no_files_def demo_marshal_def demo_unmarshal_def ok_calls_def split: if_splits)
  then show ?thesis using s by simp
qed

end
