(* ===== verification/Json_Struct.thy ===== *)
theory Json_Struct
  imports Json State_Store Logger Ipc "HOL-Library.AList" "HOL-Library.List_Lexorder" "HOL-Library.Char_ord"
begin

text \<open>
  How \<open>encoding/json\<close> writes and reads the structs of the program: the messages of
  \<open>internal/ipc/messages.go\<close>, the apps of \<open>pkg/config/config.go\<close> (whose tags are for YAML, so that the
  keys of the JSON are the names of the Go fields) and the state of \<open>internal/state/store.go\<close>. An empty
  list of the model is the nil slice of the program and is written as \<open>null\<close>. The text of a
  \<open>float64\<close> is an argument, the two functions of \<open>strconv\<close> that write and read it.
\<close>

section \<open>Reading into Go values\<close>

text \<open>
  A decoder gets the JSON value and the Go value that is there before it, which \<open>null\<close> leaves alone,
  and which a second member of the same key finds; \<open>None\<close> is an error of \<open>Unmarshal\<close>.
\<close>

definition dec_string :: "json \<Rightarrow> string \<Rightarrow> string option" where
  "dec_string j x = (case j of JStr s \<Rightarrow> Some s | JNull \<Rightarrow> Some x | _ \<Rightarrow> None)"

definition dec_bool :: "json \<Rightarrow> bool \<Rightarrow> bool option" where
  "dec_bool j x = (case j of JBool b \<Rightarrow> Some b | JNull \<Rightarrow> Some x | _ \<Rightarrow> None)"

definition dec_int :: "json \<Rightarrow> int \<Rightarrow> int option" where
  "dec_int j x = (case j of JNum n \<Rightarrow> atoi n | JNull \<Rightarrow> Some x | _ \<Rightarrow> None)"

definition dec_uint :: "json \<Rightarrow> nat \<Rightarrow> nat option" where
  "dec_uint j x = (case j of JNum n \<Rightarrow> map_option unat (parse_uint n) | JNull \<Rightarrow> Some x | _ \<Rightarrow> None)"

fun dec_elems :: "(json \<Rightarrow> 'a \<Rightarrow> 'a option) \<Rightarrow> 'a \<Rightarrow> json list \<Rightarrow> 'a list \<Rightarrow> 'a list option" where
  "dec_elems dec z [] xs = Some []"
| "dec_elems dec z (v # vs) xs =
     (case dec v (case xs of [] \<Rightarrow> z | x # _ \<Rightarrow> x) of None \<Rightarrow> None
      | Some y \<Rightarrow> map_option (Cons y) (dec_elems dec z vs (tl xs)))"

definition dec_slice :: "(json \<Rightarrow> 'a \<Rightarrow> 'a option) \<Rightarrow> 'a \<Rightarrow> json \<Rightarrow> 'a list \<Rightarrow> 'a list option" where
  "dec_slice dec z j xs = (case j of JNull \<Rightarrow> Some [] | JArr vs \<Rightarrow> dec_elems dec z vs xs | _ \<Rightarrow> None)"

definition dec_pointer :: "(json \<Rightarrow> 'a \<Rightarrow> 'a option) \<Rightarrow> 'a \<Rightarrow> json \<Rightarrow> 'a option \<Rightarrow> 'a option option" where
  "dec_pointer dec z j p =
     (if j = JNull then Some None else map_option Some (dec j (case p of None \<Rightarrow> z | Some x \<Rightarrow> x)))"

fun dec_entries :: "(string \<times> json) list \<Rightarrow> (string \<times> string) list \<Rightarrow> (string \<times> string) list option" where
  "dec_entries [] m = Some m"
| "dec_entries ((k, v) # ms) m =
     (case dec_string v [] of None \<Rightarrow> None | Some s \<Rightarrow> dec_entries ms (AList.update k s m))"

definition dec_map :: "json \<Rightarrow> (string \<times> string) list \<Rightarrow> (string \<times> string) list option" where
  "dec_map j m = (case j of JNull \<Rightarrow> Some [] | JObj ms \<Rightarrow> dec_entries ms m | _ \<Rightarrow> None)"

text \<open>
  The member of an object goes to the field of that name, or else to the first whose name is the same
  up to the case of its letters (the long s and the Kelvin sign fold to \<open>s\<close> and \<open>k\<close>); any other is ignored.
\<close>

fun fold_key :: "string \<Rightarrow> string" where
  "fold_key [] = []"
| "fold_key (a # s) =
     (case s of b # t \<Rightarrow>
        if a = CHR 0xC5 \<and> b = CHR 0xBF then CHR ''s'' # fold_key t
        else (case t of c # u \<Rightarrow>
                if a = CHR 0xE2 \<and> b = CHR 0x84 \<and> c = CHR 0xAA then CHR ''k'' # fold_key u else lower_char a # fold_key s
              | [] \<Rightarrow> lower_char a # fold_key s)
      | [] \<Rightarrow> [lower_char a])"

type_synonym 'r field = "string \<times> (json \<Rightarrow> 'r \<Rightarrow> 'r option)"

definition find_field :: "'r field list \<Rightarrow> string \<Rightarrow> (json \<Rightarrow> 'r \<Rightarrow> 'r option) option" where
  "find_field fs k =
     (case map_of fs k of Some f \<Rightarrow> Some f | None \<Rightarrow> map_of (map (\<lambda>(n, f). (fold_key n, f)) fs) (fold_key k))"

fun dec_members :: "'r field list \<Rightarrow> (string \<times> json) list \<Rightarrow> 'r \<Rightarrow> 'r option" where
  "dec_members fs [] r = Some r"
| "dec_members fs ((k, j) # ms) r =
     (case find_field fs k of None \<Rightarrow> dec_members fs ms r
      | Some f \<Rightarrow> (case f j r of None \<Rightarrow> None | Some r' \<Rightarrow> dec_members fs ms r'))"

definition dec_struct :: "'r field list \<Rightarrow> json \<Rightarrow> 'r \<Rightarrow> 'r option" where
  "dec_struct fs j r = (case j of JNull \<Rightarrow> Some r | JObj ms \<Rightarrow> dec_members fs ms r | _ \<Rightarrow> None)"

definition into :: "(json \<Rightarrow> 'a \<Rightarrow> 'a option) \<Rightarrow> ('r \<Rightarrow> 'a) \<Rightarrow> (('a \<Rightarrow> 'a) \<Rightarrow> 'r \<Rightarrow> 'r) \<Rightarrow> json \<Rightarrow> 'r \<Rightarrow> 'r option" where
  "into dec get upd j r = map_option (\<lambda>x. upd (\<lambda>_. x) r) (dec j (get r))"

section \<open>Writing Go values\<close>

definition enc_strings :: "string list \<Rightarrow> json" where
  "enc_strings xs = (if xs = [] then JNull else JArr (map JStr xs))"

definition enc_int :: "int \<Rightarrow> json" where
  "enc_int i = JNum (int_dec i)"

text \<open>The keys of a map are sorted.\<close>

definition enc_map :: "(string \<times> string) list \<Rightarrow> json" where
  "enc_map m = (if m = [] then JNull else JObj (map (\<lambda>(k, v). (k, JStr v)) (sort_key fst m)))"

text \<open>\<open>omitempty\<close>.\<close>

definition opt :: "bool \<Rightarrow> string \<Rightarrow> json \<Rightarrow> (string \<times> json) list" where
  "opt b k j = (if b then [(k, j)] else [])"

section \<open>The apps\<close>

definition enc_watch :: "WatchConfig \<Rightarrow> json" where
  "enc_watch w = JObj [
     (''Enabled'', JBool (wc_Enabled w)), (''Dirs'', enc_strings (wc_Dirs w)), (''Extensions'', enc_strings (wc_Extensions w)),
     (''Ignore'', enc_strings (wc_Ignore w)), (''BuildCmd'', JStr (wc_BuildCmd w)), (''DebounceMs'', enc_int (wc_DebounceMs w))]"

definition enc_health :: "HealthCheckConfig \<Rightarrow> json" where
  "enc_health h = JObj [
     (''URL'', JStr (hcc_URL h)), (''Interval'', JStr (hcc_Interval h)), (''Timeout'', JStr (hcc_Timeout h)),
     (''Retries'', enc_int (hcc_Retries h))]"

definition enc_on_crash :: "OnCrashConfig \<Rightarrow> json" where
  "enc_on_crash c = JObj [(''Webhook'', JStr (oc_Webhook c))]"

definition enc_app :: "AppConfig \<Rightarrow> json" where
  "enc_app a = JObj [
     (''Name'', JStr (ac_Name a)), (''Command'', JStr (ac_Command a)), (''Args'', enc_strings (ac_Args a)),
     (''Cwd'', JStr (ac_Cwd a)), (''Env'', enc_map (ac_Env a)), (''EnvFile'', JStr (ac_EnvFile a)),
     (''AutoRestart'', JBool (ac_AutoRestart a)), (''MaxRestarts'', enc_int (ac_MaxRestarts a)),
     (''LogFile'', JStr (ac_LogFile a)), (''Watch'', enc_watch (ac_Watch a)), (''PreStart'', JStr (ac_PreStart a)),
     (''DependsOn'', enc_strings (ac_DependsOn a)), (''HealthCheck'', enc_health (ac_HealthCheck a)),
     (''OnCrash'', enc_on_crash (ac_OnCrash a)), (''Groups'', enc_strings (ac_Groups a)), (''Port'', enc_int (ac_Port a)),
     (''LogMaxSizeMB'', enc_int (ac_LogMaxSizeMB a)), (''LogMaxBackups'', enc_int (ac_LogMaxBackups a))]"

abbreviation dec_strings :: "json \<Rightarrow> string list \<Rightarrow> string list option" where
  "dec_strings \<equiv> dec_slice dec_string []"

definition watch_fields :: "WatchConfig field list" where
  "watch_fields = [
     (''Enabled'', into dec_bool wc_Enabled wc_Enabled_update), (''Dirs'', into dec_strings wc_Dirs wc_Dirs_update),
     (''Extensions'', into dec_strings wc_Extensions wc_Extensions_update), (''Ignore'', into dec_strings wc_Ignore wc_Ignore_update),
     (''BuildCmd'', into dec_string wc_BuildCmd wc_BuildCmd_update), (''DebounceMs'', into dec_int wc_DebounceMs wc_DebounceMs_update)]"

definition health_fields :: "HealthCheckConfig field list" where
  "health_fields = [
     (''URL'', into dec_string hcc_URL hcc_URL_update), (''Interval'', into dec_string hcc_Interval hcc_Interval_update),
     (''Timeout'', into dec_string hcc_Timeout hcc_Timeout_update), (''Retries'', into dec_int hcc_Retries hcc_Retries_update)]"

definition on_crash_fields :: "OnCrashConfig field list" where
  "on_crash_fields = [(''Webhook'', into dec_string oc_Webhook oc_Webhook_update)]"

definition app_fields :: "AppConfig field list" where
  "app_fields = [
     (''Name'', into dec_string ac_Name ac_Name_update), (''Command'', into dec_string ac_Command ac_Command_update),
     (''Args'', into dec_strings ac_Args ac_Args_update), (''Cwd'', into dec_string ac_Cwd ac_Cwd_update),
     (''Env'', into dec_map ac_Env ac_Env_update), (''EnvFile'', into dec_string ac_EnvFile ac_EnvFile_update),
     (''AutoRestart'', into dec_bool ac_AutoRestart ac_AutoRestart_update),
     (''MaxRestarts'', into dec_int ac_MaxRestarts ac_MaxRestarts_update), (''LogFile'', into dec_string ac_LogFile ac_LogFile_update),
     (''Watch'', into (dec_struct watch_fields) ac_Watch ac_Watch_update), (''PreStart'', into dec_string ac_PreStart ac_PreStart_update),
     (''DependsOn'', into dec_strings ac_DependsOn ac_DependsOn_update),
     (''HealthCheck'', into (dec_struct health_fields) ac_HealthCheck ac_HealthCheck_update),
     (''OnCrash'', into (dec_struct on_crash_fields) ac_OnCrash ac_OnCrash_update), (''Groups'', into dec_strings ac_Groups ac_Groups_update),
     (''Port'', into dec_int ac_Port ac_Port_update), (''LogMaxSizeMB'', into dec_int ac_LogMaxSizeMB ac_LogMaxSizeMB_update),
     (''LogMaxBackups'', into dec_int ac_LogMaxBackups ac_LogMaxBackups_update)]"

definition dec_app :: "json \<Rightarrow> AppConfig \<Rightarrow> AppConfig option" where
  "dec_app = dec_struct app_fields"

definition dec_apps :: "json \<Rightarrow> AppConfig list \<Rightarrow> AppConfig list option" where
  "dec_apps = dec_slice dec_app zero_app"

section \<open>The messages\<close>

definition enc_request :: "Request \<Rightarrow> json" where
  "enc_request r = JObj ((''command'', JStr (rq_Command r)) #
     opt (rq_AppName r \<noteq> []) ''app_name'' (JStr (rq_AppName r))
     @ opt (rq_Apps r \<noteq> []) ''apps'' (JArr (map enc_app (rq_Apps r)))
     @ opt (rq_Config r \<noteq> None) ''config'' (case rq_Config r of None \<Rightarrow> JNull | Some a \<Rightarrow> enc_app a)
     @ opt (rq_Lines r \<noteq> 0) ''lines'' (enc_int (rq_Lines r))
     @ opt (rq_Follow r) ''follow'' (JBool (rq_Follow r))
     @ opt (rq_All r) ''all'' (JBool (rq_All r))
     @ opt (rq_Group r \<noteq> []) ''group'' (JStr (rq_Group r))
     @ opt (rq_ExecArgs r \<noteq> []) ''exec_args'' (enc_strings (rq_ExecArgs r))
     @ opt (rq_Since r \<noteq> []) ''since'' (JStr (rq_Since r))
     @ opt (rq_Grep r \<noteq> []) ''grep'' (JStr (rq_Grep r)))"

definition request_fields :: "Request field list" where
  "request_fields = [
     (''command'', into dec_string rq_Command rq_Command_update), (''app_name'', into dec_string rq_AppName rq_AppName_update),
     (''apps'', into dec_apps rq_Apps rq_Apps_update),
     (''config'', into (dec_pointer dec_app zero_app) rq_Config rq_Config_update), (''lines'', into dec_int rq_Lines rq_Lines_update),
     (''follow'', into dec_bool rq_Follow rq_Follow_update), (''all'', into dec_bool rq_All rq_All_update),
     (''group'', into dec_string rq_Group rq_Group_update), (''exec_args'', into dec_strings rq_ExecArgs rq_ExecArgs_update),
     (''since'', into dec_string rq_Since rq_Since_update), (''grep'', into dec_string rq_Grep rq_Grep_update)]"

record float_text =
  ft_write :: "rat \<Rightarrow> string"
  ft_read :: "string \<Rightarrow> rat option"

definition dec_float :: "float_text \<Rightarrow> json \<Rightarrow> rat \<Rightarrow> rat option" where
  "dec_float fl j x = (case j of JNum n \<Rightarrow> ft_read fl n | JNull \<Rightarrow> Some x | _ \<Rightarrow> None)"

definition enc_info :: "float_text \<Rightarrow> ProcessInfo \<Rightarrow> json" where
  "enc_info fl p = JObj ([
     (''id'', enc_int (pi_ID p)), (''name'', JStr (pi_Name p)), (''status'', JStr (pi_Status p)), (''pid'', enc_int (pi_PID p)),
     (''restarts'', enc_int (pi_Restarts p)), (''uptime'', JStr (pi_Uptime p)), (''watching'', JBool (pi_Watching p))]
     @ opt (pi_Memory p \<noteq> 0) ''memory'' (JNum (nat_dec (pi_Memory p)))
     @ opt (pi_CPU p \<noteq> 0) ''cpu'' (JNum (ft_write fl (pi_CPU p))))"

definition info_fields :: "float_text \<Rightarrow> ProcessInfo field list" where
  "info_fields fl = [
     (''id'', into dec_int pi_ID pi_ID_update), (''name'', into dec_string pi_Name pi_Name_update),
     (''status'', into dec_string pi_Status pi_Status_update), (''pid'', into dec_int pi_PID pi_PID_update),
     (''restarts'', into dec_int pi_Restarts pi_Restarts_update), (''uptime'', into dec_string pi_Uptime pi_Uptime_update),
     (''watching'', into dec_bool pi_Watching pi_Watching_update), (''memory'', into dec_uint pi_Memory pi_Memory_update),
     (''cpu'', into (dec_float fl) pi_CPU pi_CPU_update)]"

definition zero_info :: ProcessInfo where
  "zero_info = \<lparr>pi_ID = 0, pi_Name = [], pi_Status = [], pi_PID = 0, pi_Restarts = 0, pi_Uptime = [], pi_Watching = False,
     pi_Memory = 0, pi_CPU = 0\<rparr>"

definition enc_response :: "float_text \<Rightarrow> Response \<Rightarrow> json" where
  "enc_response fl r = JObj ((''ok'', JBool (rs_OK r)) #
     opt (rs_Error r \<noteq> []) ''error'' (JStr (rs_Error r))
     @ opt (rs_Processes r \<noteq> []) ''processes'' (JArr (map (enc_info fl) (rs_Processes r)))
     @ opt (rs_Logs r \<noteq> []) ''logs'' (enc_strings (rs_Logs r))
     @ opt (rs_Message r \<noteq> []) ''message'' (JStr (rs_Message r)))"

definition response_fields :: "float_text \<Rightarrow> Response field list" where
  "response_fields fl = [
     (''ok'', into dec_bool rs_OK rs_OK_update), (''error'', into dec_string rs_Error rs_Error_update),
     (''processes'', into (dec_slice (dec_struct (info_fields fl)) zero_info) rs_Processes rs_Processes_update),
     (''logs'', into dec_strings rs_Logs rs_Logs_update), (''message'', into dec_string rs_Message rs_Message_update)]"

definition enc_event :: "LogEvent \<Rightarrow> json" where
  "enc_event ev = JObj [(''name'', JStr (ev_Name ev)), (''line'', JStr (ev_Line ev))]"

definition event_fields :: "LogEvent field list" where
  "event_fields = [(''name'', into dec_string ev_Name ev_Name_update), (''line'', into dec_string ev_Line ev_Line_update)]"

section \<open>The state\<close>

definition enc_persisted :: "PersistedApp \<Rightarrow> json" where
  "enc_persisted p = JObj ((''config'', enc_app (pa_Config p)) # opt (pa_Restarts p \<noteq> 0) ''restarts'' (enc_int (pa_Restarts p)))"

definition enc_state :: "State \<Rightarrow> json" where
  "enc_state st = JObj [(''apps'', if st_Apps st = [] then JNull else JArr (map enc_persisted (st_Apps st)))]"

definition persisted_fields :: "PersistedApp field list" where
  "persisted_fields = [(''config'', into dec_app pa_Config pa_Config_update), (''restarts'', into dec_int pa_Restarts pa_Restarts_update)]"

definition zero_persisted :: PersistedApp where
  "zero_persisted = \<lparr>pa_Config = zero_app, pa_Restarts = 0\<rparr>"

definition state_fields :: "State field list" where
  "state_fields = [(''apps'', into (dec_slice (dec_struct persisted_fields) zero_persisted) st_Apps st_Apps_update)]"

section \<open>The codecs\<close>

text \<open>
  \<open>Unmarshal\<close> into the zero value of a type. \<open>why\<close> is the text of the error for a line that is not JSON
  or does not fit the type. Writing cannot fail: a \<open>float64\<close> that is not a number has no place here.
\<close>

definition unmarshal :: "(string \<Rightarrow> string) \<Rightarrow> (json \<Rightarrow> 'a \<Rightarrow> 'a option) \<Rightarrow> 'a \<Rightarrow> string \<Rightarrow> string + 'a" where
  "unmarshal why dec z s = (case Option.bind (parse_json s) (\<lambda>j. dec j z) of None \<Rightarrow> Inl (why s) | Some x \<Rightarrow> Inr x)"

definition marshal_request :: "Request \<Rightarrow> string + string" where
  "marshal_request r = Inr (marshal_text (enc_request r))"

definition unmarshal_request :: "(string \<Rightarrow> string) \<Rightarrow> string \<Rightarrow> string + Request" where
  "unmarshal_request why = unmarshal why (dec_struct request_fields) (request [])"

definition marshal_response :: "float_text \<Rightarrow> Response \<Rightarrow> string + string" where
  "marshal_response fl r = Inr (marshal_text (enc_response fl r))"

definition unmarshal_response :: "float_text \<Rightarrow> (string \<Rightarrow> string) \<Rightarrow> string \<Rightarrow> string + Response" where
  "unmarshal_response fl why = unmarshal why (dec_struct (response_fields fl)) (errResp [])"

definition marshal_event :: "LogEvent \<Rightarrow> string + string" where
  "marshal_event ev = Inr (marshal_text (enc_event ev))"

text \<open>\<open>Stream\<close> of the client skips the lines it cannot read.\<close>

definition unmarshal_event :: "string \<Rightarrow> LogEvent option" where
  "unmarshal_event s = Option.bind (parse_json s) (\<lambda>j. dec_struct event_fields j \<lparr>ev_Name = [], ev_Line = []\<rparr>)"

definition marshal_state :: "State \<Rightarrow> string + string" where
  "marshal_state st = Inr (indent_text (enc_state st))"

definition unmarshal_state :: "(string \<Rightarrow> string) \<Rightarrow> string \<Rightarrow> string + State" where
  "unmarshal_state why = unmarshal why (dec_struct state_fields) \<lparr>st_Apps = []\<rparr>"

end
