(* ===== verification/Json_Wire.thy ===== *)
theory Json_Wire
  imports Json_Struct Parse_Int
begin

text \<open>
  What arrives of the messages of the daemon and of its state file: each byte that is not UTF-8 is
  replaced by U+FFFD, the environment of an app is a map, and everything else is as it was sent,
  on one line. A message of valid strings whose environments are sorted passes unchanged.
\<close>

section \<open>What arrives\<close>

definition wire_env :: "(string \<times> string) list \<Rightarrow> (string \<times> string) list" where
  "wire_env m = foldl (\<lambda>e (k, v). AList.update (fix_utf8 k) (fix_utf8 v) e) [] (sort_key fst m)"

definition wire_watch :: "WatchConfig \<Rightarrow> WatchConfig" where
  "wire_watch w = w\<lparr>wc_Dirs := map fix_utf8 (wc_Dirs w), wc_Extensions := map fix_utf8 (wc_Extensions w),
     wc_Ignore := map fix_utf8 (wc_Ignore w), wc_BuildCmd := fix_utf8 (wc_BuildCmd w)\<rparr>"

definition wire_health :: "HealthCheckConfig \<Rightarrow> HealthCheckConfig" where
  "wire_health h = h\<lparr>hcc_URL := fix_utf8 (hcc_URL h), hcc_Interval := fix_utf8 (hcc_Interval h), hcc_Timeout := fix_utf8 (hcc_Timeout h)\<rparr>"

definition wire_app :: "AppConfig \<Rightarrow> AppConfig" where
  "wire_app a = a\<lparr>ac_Name := fix_utf8 (ac_Name a), ac_Command := fix_utf8 (ac_Command a), ac_Args := map fix_utf8 (ac_Args a),
     ac_Cwd := fix_utf8 (ac_Cwd a), ac_Env := wire_env (ac_Env a), ac_EnvFile := fix_utf8 (ac_EnvFile a),
     ac_LogFile := fix_utf8 (ac_LogFile a), ac_Watch := wire_watch (ac_Watch a), ac_PreStart := fix_utf8 (ac_PreStart a),
     ac_DependsOn := map fix_utf8 (ac_DependsOn a), ac_HealthCheck := wire_health (ac_HealthCheck a),
     ac_OnCrash := \<lparr>oc_Webhook = fix_utf8 (oc_Webhook (ac_OnCrash a))\<rparr>, ac_Groups := map fix_utf8 (ac_Groups a)\<rparr>"

definition wire_request :: "Request \<Rightarrow> Request" where
  "wire_request r = r\<lparr>rq_Command := fix_utf8 (rq_Command r), rq_AppName := fix_utf8 (rq_AppName r), rq_Apps := map wire_app (rq_Apps r),
     rq_Config := map_option wire_app (rq_Config r), rq_Group := fix_utf8 (rq_Group r), rq_ExecArgs := map fix_utf8 (rq_ExecArgs r),
     rq_Since := fix_utf8 (rq_Since r), rq_Grep := fix_utf8 (rq_Grep r)\<rparr>"

definition wire_info :: "ProcessInfo \<Rightarrow> ProcessInfo" where
  "wire_info p = p\<lparr>pi_Name := fix_utf8 (pi_Name p), pi_Status := fix_utf8 (pi_Status p), pi_Uptime := fix_utf8 (pi_Uptime p)\<rparr>"

definition wire_response :: "Response \<Rightarrow> Response" where
  "wire_response r = r\<lparr>rs_Error := fix_utf8 (rs_Error r), rs_Message := fix_utf8 (rs_Message r),
     rs_Processes := map wire_info (rs_Processes r), rs_Logs := map fix_utf8 (rs_Logs r)\<rparr>"

definition wire_event :: "LogEvent \<Rightarrow> LogEvent" where
  "wire_event ev = \<lparr>ev_Name = fix_utf8 (ev_Name ev), ev_Line = fix_utf8 (ev_Line ev)\<rparr>"

definition wire_state :: "State \<Rightarrow> State" where
  "wire_state st = \<lparr>st_Apps = map (\<lambda>p. p\<lparr>pa_Config := wire_app (pa_Config p)\<rparr>) (st_Apps st)\<rparr>"

text \<open>The integers of a message are Go integers; the text of a float is a number that is read back.\<close>

definition go_int :: "int \<Rightarrow> bool" where
  "go_int i \<longleftrightarrow> - (2 ^ 63) \<le> i \<and> i < 2 ^ 63"

definition app_ints :: "AppConfig \<Rightarrow> bool" where
  "app_ints a \<longleftrightarrow> go_int (ac_MaxRestarts a) \<and> go_int (ac_Port a) \<and> go_int (ac_LogMaxSizeMB a) \<and> go_int (ac_LogMaxBackups a)
     \<and> go_int (wc_DebounceMs (ac_Watch a)) \<and> go_int (hcc_Retries (ac_HealthCheck a))"

definition request_ints :: "Request \<Rightarrow> bool" where
  "request_ints r \<longleftrightarrow> go_int (rq_Lines r) \<and> list_all app_ints (rq_Apps r) \<and> pred_option app_ints (rq_Config r)"

definition float_passes :: "float_text \<Rightarrow> rat \<Rightarrow> bool" where
  "float_passes fl x \<longleftrightarrow> number (ft_write fl x) = Some (ft_write fl x, []) \<and> ft_read fl (ft_write fl x) = Some x"

definition info_nums :: "float_text \<Rightarrow> ProcessInfo \<Rightarrow> bool" where
  "info_nums fl p \<longleftrightarrow> go_int (pi_ID p) \<and> go_int (pi_PID p) \<and> go_int (pi_Restarts p) \<and> pi_Memory p < 2 ^ 64
     \<and> (pi_CPU p \<noteq> 0 \<longrightarrow> float_passes fl (pi_CPU p))"

definition state_ints :: "State \<Rightarrow> bool" where
  "state_ints st \<longleftrightarrow> list_all (\<lambda>p. app_ints (pa_Config p) \<and> go_int (pa_Restarts p)) (st_Apps st)"

section \<open>Numbers\<close>

lemma is_digit_char [simp]: "d < 10 \<Longrightarrow> is_digit (digit_char d)"
  by (simp add: is_digit_def digit_char_def)

lemma digits_nat_dec: "list_all is_digit (nat_dec n)"
  using set_nat_dec [of n] by (auto simp: list_all_iff)

lemma int_part_nat_dec: "int_part (nat_dec n) = Some (nat_dec n, [])"
proof (cases "n = 0")
  case True
  have "nat_dec 0 = ''0''" by (subst nat_dec.simps) (simp add: digit_char_0)
  then show ?thesis by (simp add: True int_part_def)
next
  case False
  then obtain c t where ct: "nat_dec n = c # t" "c \<noteq> CHR ''0''"
    using hd_nat_dec_0 [of n] by (cases "nat_dec n") auto
  have "takeWhile is_digit (nat_dec n) = nat_dec n" "dropWhile is_digit (nat_dec n) = []"
    using digits_nat_dec [of n] by (simp_all add: list_all_iff)
  moreover have "is_digit c" using digits_nat_dec [of n] ct(1) by simp
  ultimately show ?thesis using ct by (simp add: int_part_def span_digits_def)
qed

lemma number_plain: "int_part s = Some (s, []) \<Longrightarrow> number s = Some (s, [])"
  using hd_number
  by (cases s) (auto simp: number_def sign_part_def frac_part_def exp_part_def int_part_def is_digit_def split: if_splits)

lemma number_nat_dec [simp]: "number (nat_dec n) = Some (nat_dec n, [])"
  by (rule number_plain [OF int_part_nat_dec])

lemma number_int_dec [simp]: "number (int_dec i) = Some (int_dec i, [])"
  using number_nat_dec [of "nat i"] by (simp add: int_dec_def) (simp add: number_def sign_part_def int_part_nat_dec frac_part_def exp_part_def)

section \<open>The decoders on what was written\<close>

text \<open>The names of the fields are ASCII.\<close>

lemma fix_ascii: "list_all ascii s \<Longrightarrow> fix_utf8 s = s"
  by (rule fix_utf8_id [OF utf8_ok_ascii])

lemma dec_int_enc [simp]: "go_int i \<Longrightarrow> dec_int (fix_json (enc_int i)) x = Some i"
  by (simp add: dec_int_def enc_int_def go_int_def atoi_int_dec)

lemma dec_uint_enc: "n < 2 ^ 64 \<Longrightarrow> dec_uint (JNum (nat_dec n)) x = Some n"
  by (simp add: dec_uint_def parse_uint_nat_dec unat_of_nat take_bit_nat_eq_self)

lemma dec_elems_map:
  "(\<And>x y. x \<in> set xs \<Longrightarrow> dec (f x) y = Some (g x)) \<Longrightarrow> dec_elems dec z (map f xs) ys = Some (map g xs)"
  by (induction xs arbitrary: ys) auto

lemma dec_elems_fresh:
  "(\<And>x. x \<in> set xs \<Longrightarrow> dec (f x) z = Some (g x)) \<Longrightarrow> dec_elems dec z (map f xs) [] = Some (map g xs)"
  by (induction xs) auto

lemma dec_strings_enc [simp]: "dec_strings (fix_json (enc_strings xs)) ys = Some (map fix_utf8 xs)"
  using dec_elems_map [of xs dec_string "\<lambda>s. JStr (fix_utf8 s)" fix_utf8 "[]" ys]
  by (simp add: enc_strings_def dec_slice_def dec_string_def comp_def)

lemma dec_entries_enc:
  "dec_entries (map (\<lambda>(k, v). (fix_utf8 k, JStr (fix_utf8 v))) m) e = Some (foldl (\<lambda>e (k, v). AList.update (fix_utf8 k) (fix_utf8 v) e) e m)"
  by (induction m arbitrary: e) (auto simp: dec_string_def)

lemma dec_map_enc [simp]: "dec_map (fix_json (enc_map m)) [] = Some (wire_env m)"
  using dec_entries_enc [of "sort_key fst m" "[]"]
  by (simp add: enc_map_def dec_map_def wire_env_def comp_def case_prod_unfold)

lemma dec_struct_obj: "dec_struct fs (JObj ms) r = dec_members fs ms r"
  by (simp add: dec_struct_def)

lemmas struct_simps = dec_struct_obj find_field_def into_def dec_string_def dec_bool_def

lemma dec_watch_enc [simp]: "go_int (wc_DebounceMs w) \<Longrightarrow> dec_struct watch_fields (fix_json (enc_watch w)) x = Some (wire_watch w)"
  by (cases w; cases x) (simp add: enc_watch_def watch_fields_def wire_watch_def fix_ascii ascii_def struct_simps)

lemma dec_health_enc [simp]: "go_int (hcc_Retries h) \<Longrightarrow> dec_struct health_fields (fix_json (enc_health h)) x = Some (wire_health h)"
  by (cases h; cases x) (simp add: enc_health_def health_fields_def wire_health_def fix_ascii ascii_def struct_simps)

lemma dec_on_crash_enc [simp]: "dec_struct on_crash_fields (fix_json (enc_on_crash c)) x = Some \<lparr>oc_Webhook = fix_utf8 (oc_Webhook c)\<rparr>"
  by (cases x) (simp add: enc_on_crash_def on_crash_fields_def fix_ascii ascii_def struct_simps)

lemma dec_app_enc [simp]: "app_ints a \<Longrightarrow> ac_Env x = [] \<Longrightarrow> dec_app (fix_json (enc_app a)) x = Some (wire_app a)"
  by (cases a; cases x) (simp add: dec_app_def enc_app_def app_fields_def wire_app_def app_ints_def fix_ascii ascii_def struct_simps)

lemma dec_apps_enc: "list_all app_ints as \<Longrightarrow> dec_apps (JArr (map (\<lambda>a. fix_json (enc_app a)) as)) [] = Some (map wire_app as)"
  using dec_elems_fresh [of as dec_app "\<lambda>a. fix_json (enc_app a)" zero_app wire_app]
  by (simp add: dec_apps_def dec_slice_def list_all_iff zero_app_def)

text \<open>A member that may be left out: the zero value of the field is there already.\<close>

lemma fix_opt: "map (\<lambda>(k, v). (fix_utf8 k, fix_json v)) (opt b k j) = opt b (fix_utf8 k) (fix_json j)"
  by (simp add: opt_def)

lemma dec_members_opt:
  assumes "find_field fs k = Some f" and "b \<Longrightarrow> f j r = Some r'" and "\<not> b \<Longrightarrow> r' = r"
  shows "dec_members fs (opt b k j @ ms) r = dec_members fs ms r'"
  using assms by (cases b) (simp_all add: opt_def)

lemma dec_opt_into:
  assumes "find_field fs k = Some (into dec get upd)" and "b \<Longrightarrow> dec j (get r) = Some x" and "\<not> b \<Longrightarrow> upd (\<lambda>_. x) r = r"
  shows "dec_members fs (opt b k j @ ms) r = dec_members fs ms (upd (\<lambda>_. x) r)"
  by (rule dec_members_opt [OF assms(1)]) (use assms(2,3) in \<open>auto simp: into_def\<close>)

lemma dec_opt_bool:
  assumes "find_field fs k = Some (into dec_bool get upd)" and "\<not> b \<Longrightarrow> upd (\<lambda>_. b) r = r"
  shows "dec_members fs (opt b k (JBool b) @ ms) r = dec_members fs ms (upd (\<lambda>_. b) r)"
  by (rule dec_opt_into [OF assms(1)]) (use assms(2) in \<open>auto simp: dec_bool_def\<close>)

lemma dec_pointer_app:
  "pred_option app_ints p \<Longrightarrow> p \<noteq> None \<Longrightarrow>
     dec_pointer dec_app zero_app (fix_json (case p of None \<Rightarrow> JNull | Some a \<Rightarrow> enc_app a)) None = Some (map_option wire_app p)"
  by (auto simp: dec_pointer_def zero_app_def) (simp add: enc_app_def)

lemma fix_Nil [simp]: "fix_utf8 [] = []"
  by (simp add: fix_utf8.simps)

lemma dec_request_enc: "request_ints r \<Longrightarrow> dec_struct request_fields (fix_json (enc_request r)) (request []) = Some (wire_request r)"
proof -
  assume ints: "request_ints r"
  have "dec_struct request_fields (fix_json (enc_request r)) (request []) = dec_members request_fields
     (opt (rq_AppName r \<noteq> []) ''app_name'' (JStr (fix_utf8 (rq_AppName r)))
     @ opt (rq_Apps r \<noteq> []) ''apps'' (JArr (map (\<lambda>a. fix_json (enc_app a)) (rq_Apps r)))
     @ opt (rq_Config r \<noteq> None) ''config'' (fix_json (case rq_Config r of None \<Rightarrow> JNull | Some a \<Rightarrow> enc_app a))
     @ opt (rq_Lines r \<noteq> 0) ''lines'' (fix_json (enc_int (rq_Lines r)))
     @ opt (rq_Follow r) ''follow'' (JBool (rq_Follow r))
     @ opt (rq_All r) ''all'' (JBool (rq_All r))
     @ opt (rq_Group r \<noteq> []) ''group'' (JStr (fix_utf8 (rq_Group r)))
     @ opt (rq_ExecArgs r \<noteq> []) ''exec_args'' (fix_json (enc_strings (rq_ExecArgs r)))
     @ opt (rq_Since r \<noteq> []) ''since'' (JStr (fix_utf8 (rq_Since r)))
     @ opt (rq_Grep r \<noteq> []) ''grep'' (JStr (fix_utf8 (rq_Grep r))) @ []) ((request [])\<lparr>rq_Command := fix_utf8 (rq_Command r)\<rparr>)"
    by (simp add: enc_request_def struct_simps fix_opt fix_ascii ascii_def comp_def) (simp add: request_fields_def struct_simps)
  also have "\<dots> = Some (wire_request r)" unfolding request_def
    by (insert ints [unfolded request_ints_def],
        ((rule trans [OF dec_opt_bool], simp add: request_fields_def find_field_def, simp)
         | (rule trans [OF dec_opt_into], simp add: request_fields_def find_field_def,
            simp add: dec_string_def dec_apps_enc dec_pointer_app, simp))+, cases r, simp add: wire_request_def)
  finally show ?thesis .
qed

lemma dec_info_enc: "info_nums fl p \<Longrightarrow> dec_struct (info_fields fl) (fix_json (enc_info fl p)) zero_info = Some (wire_info p)"
proof -
  assume nums: "info_nums fl p"
  have "dec_struct (info_fields fl) (fix_json (enc_info fl p)) zero_info = dec_members (info_fields fl)
     (opt (pi_Memory p \<noteq> 0) ''memory'' (JNum (nat_dec (pi_Memory p))) @ opt (pi_CPU p \<noteq> 0) ''cpu'' (JNum (ft_write fl (pi_CPU p))) @ [])
     ((wire_info p)\<lparr>pi_Memory := 0, pi_CPU := 0\<rparr>)"
    using nums by (cases p) (simp add: enc_info_def struct_simps fix_opt fix_ascii ascii_def info_nums_def info_fields_def zero_info_def wire_info_def)
  also have "\<dots> = Some (wire_info p)" 
    by (insert nums [unfolded info_nums_def], (rule trans [OF dec_opt_into], simp add: info_fields_def find_field_def,
        simp add: dec_uint_enc dec_float_def float_passes_def, simp)+, cases p, simp add: wire_info_def)
  finally show ?thesis .
qed

lemma dec_response_enc:
  assumes "list_all (info_nums fl) (rs_Processes r)"
  shows "dec_struct (response_fields fl) (fix_json (enc_response fl r)) (errResp []) = Some (wire_response r)"
proof -
  have ps: "dec_slice (dec_struct (info_fields fl)) zero_info (JArr (map (\<lambda>p. fix_json (enc_info fl p)) (rs_Processes r))) []
      = Some (map wire_info (rs_Processes r))"
    using dec_elems_fresh [of "rs_Processes r" "dec_struct (info_fields fl)" "\<lambda>p. fix_json (enc_info fl p)" zero_info wire_info] assms
    by (simp add: dec_slice_def list_all_iff dec_info_enc)
  have "dec_struct (response_fields fl) (fix_json (enc_response fl r)) (errResp []) = dec_members (response_fields fl)
     (opt (rs_Error r \<noteq> []) ''error'' (JStr (fix_utf8 (rs_Error r)))
     @ opt (rs_Processes r \<noteq> []) ''processes'' (JArr (map (\<lambda>p. fix_json (enc_info fl p)) (rs_Processes r)))
     @ opt (rs_Logs r \<noteq> []) ''logs'' (fix_json (enc_strings (rs_Logs r)))
     @ opt (rs_Message r \<noteq> []) ''message'' (JStr (fix_utf8 (rs_Message r))) @ []) ((errResp [])\<lparr>rs_OK := rs_OK r\<rparr>)"
    by (simp add: enc_response_def struct_simps fix_opt fix_ascii ascii_def comp_def) (simp add: response_fields_def struct_simps)
  also have "\<dots> = Some (wire_response r)" unfolding errResp_def
    by ((rule trans [OF dec_opt_into], simp add: response_fields_def find_field_def,
        simp add: dec_string_def ps, simp)+, cases r, simp add: wire_response_def)
  finally show ?thesis .
qed

lemma dec_event_enc: "dec_struct event_fields (fix_json (enc_event ev)) x = Some (wire_event ev)"
  by (cases x) (simp add: enc_event_def event_fields_def wire_event_def fix_ascii ascii_def struct_simps)

lemma dec_persisted_enc:
  assumes "app_ints (pa_Config p)" and "go_int (pa_Restarts p)"
  shows "dec_struct persisted_fields (fix_json (enc_persisted p)) zero_persisted = Some (p\<lparr>pa_Config := wire_app (pa_Config p)\<rparr>)"
proof -
  have "dec_struct persisted_fields (fix_json (enc_persisted p)) zero_persisted = dec_members persisted_fields
      (opt (pa_Restarts p \<noteq> 0) ''restarts'' (fix_json (enc_int (pa_Restarts p))) @ []) \<lparr>pa_Config = wire_app (pa_Config p), pa_Restarts = 0\<rparr>"
    using assms(1) by (simp add: enc_persisted_def struct_simps fix_opt fix_ascii ascii_def persisted_fields_def zero_persisted_def zero_app_def)
  also have "\<dots> = Some (p\<lparr>pa_Config := wire_app (pa_Config p)\<rparr>)"
    by (rule trans [OF dec_opt_into], simp add: persisted_fields_def find_field_def, simp add: assms(2), simp, cases p, simp)
  finally show ?thesis .
qed

lemma dec_state_enc: "state_ints st \<Longrightarrow> dec_struct state_fields (fix_json (enc_state st)) \<lparr>st_Apps = []\<rparr> = Some (wire_state st)"
  using dec_elems_fresh [of "st_Apps st" "dec_struct persisted_fields" "\<lambda>p. fix_json (enc_persisted p)" zero_persisted
      "\<lambda>p. p\<lparr>pa_Config := wire_app (pa_Config p)\<rparr>"]
  by (simp add: state_ints_def list_all_iff dec_persisted_enc enc_state_def state_fields_def wire_state_def fix_ascii ascii_def
      struct_simps dec_slice_def comp_def)

section \<open>The texts\<close>

lemma writable_strings [simp]: "0 < k \<Longrightarrow> writable k (enc_strings xs)"
  by (simp add: enc_strings_def list_all_iff)

lemma writable_int [simp]: "writable k (enc_int i)"
  by (simp add: enc_int_def)

lemma writable_map [simp]: "0 < k \<Longrightarrow> writable k (enc_map m)"
  by (auto simp: enc_map_def list_all_iff)

lemma writable_app [simp]: "2 < k \<Longrightarrow> writable k (enc_app a)"
  by (simp add: enc_app_def enc_watch_def enc_health_def enc_on_crash_def)

lemma set_opt [simp]: "set (opt b k j) = (if b then {(k, j)} else {})"
  by (simp add: opt_def)

lemma writable_request [simp]: "writable max_depth (enc_request r)"
  by (auto simp: enc_request_def max_depth_def list_all_iff split: option.splits)

lemma writable_response: "list_all (info_nums fl) (rs_Processes r) \<Longrightarrow> writable max_depth (enc_response fl r)"
  by (auto simp: enc_response_def enc_info_def max_depth_def list_all_iff info_nums_def float_passes_def)

lemma writable_event [simp]: "writable max_depth (enc_event ev)"
  by (simp add: enc_event_def max_depth_def)

lemma writable_state [simp]: "writable max_depth (enc_state st)"
  by (simp add: enc_state_def enc_persisted_def max_depth_def list_all_iff)

text \<open>A compact text is one line.\<close>

lemma printable_number:
  assumes "number s = Some (n, r)"
  shows "list_all printable n"
proof -
  have sp: "list_all printable a" if "span_digits t = (a, u)" for t a u
    using that set_takeWhileD by (fastforce simp: span_digits_def list_all_iff is_digit_def)
  have "list_all printable i" if "int_part t = Some (i, u)" for t i u
    using that sp by (auto simp: int_part_def split: list.splits if_splits)
  moreover have "list_all printable f" if "frac_part t = (f, u)" for t f u
    using that sp by (cases "span_digits (tl t)") (auto simp: frac_part_def split: list.splits if_splits)
  moreover have sg: "list_all printable g" if "sign_part C t = (g, u)" "C \<subseteq> {CHR ''+'', CHR ''-''}" for t g u C
    using that by (auto simp: sign_part_def split: list.splits if_splits)
  moreover have "list_all printable e" if "exp_part t = (e, u)" for t e u
  proof (cases t)
    case (Cons c t')
    obtain g v where g: "sign_part {CHR ''+'', CHR ''-''} t' = (g, v)" by fastforce
    obtain a w where "span_digits v = (a, w)" by fastforce
    then show ?thesis using that Cons g sg [OF g] sp by (auto simp: exp_part_def split: if_splits)
  qed (use that in \<open>simp add: exp_part_def\<close>)
  ultimately show ?thesis using assms by (fastforce simp: number_def split: prod.splits option.splits)
qed

lemma printable_separated: "list_all (list_all printable) xs \<Longrightarrow> list_all printable (separated [] xs)"
  by (induction "[] :: string" xs rule: separated.induct) simp_all

lemma printable_string: "list_all printable (json_string_text s)"
  by (simp add: json_string_text_def printable_escape)

lemma compact_empty [simp]: "ly_nl compact_layout d = []" "ly_sp compact_layout = []"
  by (simp_all add: compact_layout_def)

lemma printable_compact: "writable k v \<Longrightarrow> list_all printable (json_text compact_layout d v)"
proof (induction k v arbitrary: d rule: writable.induct)
  case (2 k vs)
  have "list_all (list_all printable) (map (json_text compact_layout (Suc d)) vs)" using 2 by (auto simp: list_all_iff)
  from printable_separated [OF this] show ?case by simp
next
  case (3 k ms)
  have "list_all (list_all printable) (map (\<lambda>(k, v). json_string_text k @ CHR 0x3A # json_text compact_layout (Suc d) v) ms)"
    unfolding list_all_iff
  proof
    fix x
    assume "x \<in> set (map (\<lambda>(k, v). json_string_text k @ CHR 0x3A # json_text compact_layout (Suc d) v) ms)"
    then obtain k' v where m: "(k', v) \<in> set ms" "x = json_string_text k' @ CHR 0x3A # json_text compact_layout (Suc d) v" by auto
    have "list_all printable (json_text compact_layout (Suc d) v)" using 3 m(1) by (auto simp: list_all_iff)
    then show "\<forall>c \<in> set x. printable c" using printable_string [of k'] m(2) by (auto simp: list_all_iff)
  qed
  from printable_separated [OF this] show ?case by simp
qed (simp_all add: printable_number printable_string)

lemma marshal_one_line: "writable max_depth v \<Longrightarrow> newline \<notin> set (marshal_text v)"
  using printable_compact [of max_depth v 0] by (auto simp: marshal_text_def newline_def list_all_iff)

lemma unmarshal_marshal: "writable max_depth v \<Longrightarrow> dec (fix_json v) z = Some x \<Longrightarrow> unmarshal why dec z (marshal_text v) = Inr x"
  by (simp add: unmarshal_def marshal_text_def parse_json_text)

lemma request_arrives: "request_ints r \<Longrightarrow> unmarshal_request why (marshal_text (enc_request r)) = Inr (wire_request r)"
  by (simp add: unmarshal_request_def unmarshal_marshal dec_request_enc)

lemma response_arrives:
  "list_all (info_nums fl) (rs_Processes r) \<Longrightarrow> unmarshal_response fl why (marshal_text (enc_response fl r)) = Inr (wire_response r)"
  by (simp add: unmarshal_response_def unmarshal_marshal dec_response_enc writable_response)

lemma event_arrives: "unmarshal_event (marshal_text (enc_event ev)) = Some (wire_event ev)"
  by (simp add: unmarshal_event_def marshal_text_def parse_json_text dec_event_enc)

lemma state_comes_back: "state_ints st \<Longrightarrow> unmarshal_state why (indent_text (enc_state st)) = Inr (wire_state st)"
  by (simp add: unmarshal_state_def unmarshal_def indent_text_def parse_json_text dec_state_enc)

section \<open>Messages that pass unchanged\<close>

lemma utf8_ok_append_ascii: "list_all ascii p \<Longrightarrow> utf8_ok (p @ s) = utf8_ok s"
  by (induction p) (auto simp: utf8_ok.simps wide_len_ascii)

lemma fix_strings_id: "list_all utf8_ok xs \<Longrightarrow> map fix_utf8 xs = xs"
  by (induction xs) (simp_all add: fix_utf8_id)

lemma fix_fix [simp]: "fix_utf8 (fix_utf8 s) = fix_utf8 s"
  by (rule fix_utf8_id [OF utf8_ok_fix])

lemma fix_Nil_iff [simp]: "fix_utf8 s = [] \<longleftrightarrow> s = []"
proof (cases s)
  case (Cons c t)
  then show ?thesis using wide_len_bounds [of s]
    by (subst fix_utf8.simps) (auto simp: replacement_def split: option.splits)
qed simp

lemma update_snoc: "k \<notin> fst ` set m \<Longrightarrow> AList.update k v m = m @ [(k, v)]"
  by (induction m) auto

lemma wire_env_id:
  assumes "sorted (map fst m)" and "distinct (map fst m)" and "list_all (\<lambda>(k, v). utf8_ok k \<and> utf8_ok v) m"
  shows "wire_env m = m"
proof -
  have "foldl (\<lambda>e (k, v). AList.update (fix_utf8 k) (fix_utf8 v) e) e m = e @ m"
    if "distinct (map fst (e @ m))" "list_all (\<lambda>(k, v). utf8_ok k \<and> utf8_ok v) m" for e m
    using that
  proof (induction m arbitrary: e)
    case (Cons p m)
    obtain k v where p: "p = (k, v)" by fastforce
    have "k \<notin> fst ` set e" using Cons.prems(1) p by auto
    then show ?case using Cons.IH [of "e @ [(k, v)]"] Cons.prems p by (simp add: fix_utf8_id update_snoc)
  qed simp
  from this [of "[]" m] show ?thesis using assms by (simp add: wire_env_def sorted_sort_id sort_key_id_if_sorted)
qed

text \<open>An app whose strings are UTF-8 and whose environment has its keys in order.\<close>

definition utf8_app :: "AppConfig \<Rightarrow> bool" where
  "utf8_app a \<longleftrightarrow>
     list_all utf8_ok ([ac_Name a, ac_Command a, ac_Cwd a, ac_EnvFile a, ac_LogFile a, ac_PreStart a, wc_BuildCmd (ac_Watch a),
       hcc_URL (ac_HealthCheck a), hcc_Interval (ac_HealthCheck a), hcc_Timeout (ac_HealthCheck a), oc_Webhook (ac_OnCrash a)]
       @ ac_Args a @ ac_DependsOn a @ ac_Groups a @ wc_Dirs (ac_Watch a) @ wc_Extensions (ac_Watch a) @ wc_Ignore (ac_Watch a))
     \<and> list_all (\<lambda>(k, v). utf8_ok k \<and> utf8_ok v) (ac_Env a)
     \<and> sorted (map fst (ac_Env a)) \<and> distinct (map fst (ac_Env a))"

lemma wire_app_id: "utf8_app a \<Longrightarrow> wire_app a = a"
proof -
  assume u: "utf8_app a"
  have "wire_env (ac_Env a) = ac_Env a" using u by (simp add: utf8_app_def wire_env_id)
  then show ?thesis using u
    by (simp add: utf8_app_def wire_app_def wire_watch_def wire_health_def fix_utf8_id fix_strings_id)
qed

section \<open>Messages over the wire\<close>

lemma request_carried: "request_ints r \<Longrightarrow> carries marshal_request (unmarshal_request why) r (wire_request r)"
  by (simp add: carries_def marshal_request_def request_arrives marshal_one_line)

lemma response_carried:
  "list_all (info_nums fl) (rs_Processes r) \<Longrightarrow> carries (marshal_response fl) (unmarshal_response fl why) r (wire_response r)"
  by (simp add: carries_def marshal_response_def response_arrives marshal_one_line writable_response)

text \<open>C37. A request reaches the handler and its response comes back, through the JSON of the program: every
  byte that is not UTF-8 arrives as U+FFFD, an environment as the map it is, and all the rest as it
  was sent, however the strings look; a nil response arrives as a bare success.\<close>

theorem rpc_roundtrip:
  assumes "request_ints req" and "handler (wire_request req) s = Some (s', out)"
    and "\<not> is_stream (rq_Command (wire_request req))" and "list_all (info_nums fl) (rs_Processes (nil_ok out))"
  shows "Send None marshal_request (unmarshal_response fl why')
        (\<lambda>bytes. writeResp (marshal_response fl) (snd (server_handle (unmarshal_request why) st handler bytes s))) req
      = Inr (wire_response (nil_ok out))
     \<and> (\<forall>bytes. client_request marshal_request req = Inr bytes \<longrightarrow> fst (server_handle (unmarshal_request why) st handler bytes s) = s')"
  using exchange_answer [OF request_carried [OF assms(1), of why] response_carried [OF assms(4), of why'], of handler s s' st] assms(2,3)
  by (auto simp: exchange_def Send_def split: sum.splits prod.splits)

definition no_floats :: float_text where
  "no_floats = \<lparr>ft_write = (\<lambda>_. ''0''), ft_read = (\<lambda>_. None)\<rparr>"

definition syntax_error :: "string \<Rightarrow> string" where
  "syntax_error s = ''unexpected end of JSON input''"

text \<open>A log line that is not UTF-8, and its text on the wire.\<close>

definition latin_line :: string where
  "latin_line = ''caf'' @ [CHR 0xE9]"

theorem rpc_roundtrip_witness:
  "Send None marshal_request (unmarshal_response no_floats syntax_error)
        (\<lambda>bytes. writeResp (marshal_response no_floats)
           (snd (server_handle (unmarshal_request syntax_error) True (\<lambda>req s. Some (s, Some ((ok_resp [])\<lparr>rs_Logs := [latin_line]\<rparr>))) bytes ())))
        ((request ''logs'')\<lparr>rq_AppName := ''a''\<rparr>)
      = Inr ((ok_resp [])\<lparr>rs_Logs := [''caf'' @ replacement]\<rparr>)"
proof -
  have "fix_utf8 latin_line = ''caf'' @ replacement"
    by (simp add: latin_line_def fix_utf8.simps wide_len_def seq_len_def ascii_def)
  then have r: "wire_response (nil_ok (Some ((ok_resp [])\<lparr>rs_Logs := [latin_line]\<rparr>))) = (ok_resp [])\<lparr>rs_Logs := [''caf'' @ replacement]\<rparr>"
    by (simp add: nil_ok_def wire_response_def ok_resp_def)
  show ?thesis unfolding r [symmetric]
    by (rule rpc_roundtrip [where s' = "()", THEN conjunct1])
      (simp_all add: request_ints_def request_def go_int_def wire_request_def is_stream_def fix_ascii ascii_def nil_ok_def ok_resp_def)
qed

text \<open>The bytes themselves, of a request and a response.\<close>

definition plain_byte :: "char \<Rightarrow> bool" where
  "plain_byte c \<longleftrightarrow> ascii c \<and> escape_byte c = [c]"

lemma escape_plain: "list_all plain_byte s \<Longrightarrow> escape s = s"
  by (induction s) (simp_all add: escape.simps plain_byte_def wide_len_ascii)

lemma message_texts:
  "marshal_request ((request ''stop'')\<lparr>rq_AppName := ''web''\<rparr>) = Inr ''{\"command\":\"stop\",\"app_name\":\"web\"}''"
  "marshal_response no_floats (errResp ''no such process: web'') = Inr ''{\"ok\":false,\"error\":\"no such process: web\"}''"
  by (simp_all add: marshal_request_def marshal_response_def marshal_text_def enc_request_def enc_response_def request_def errResp_def opt_def
      json_string_text_def escape_plain plain_byte_def escape_byte_def ascii_def dquote_def backslash_def)

end
