(* ===== verification/Cli.thy ===== *)
theory Cli
  imports Scripts Table Rpc Json_Wire
begin

text \<open>
  The commands of the CLI (\<open>cmd/gopm/main.go\<close>): from the arguments to the requests they send and
  the lines they print. The daemon, the terminal, the file system and the YAML decoder are
  arguments; a daemon is a state \<open>'w\<close> with operations. Each command returns what it printed to the
  standard output and error and its exit code. The handler of the daemon itself
  (\<open>cmd/gopmd/main.go\<close>) closes the circle: a CLI that talks to it over the wire.
\<close>

section \<open>Output\<close>

text \<open>The problems \<open>validateConfigPaths\<close> finds, each with the name of the app.\<close>

datatype path_issue =
    CwdInaccessible string string string | CwdNotDir string string | LogDirNotDir string string
  | NoWatchDirs string | WatchInaccessible string string string | WatchNotDir string string

datatype cli_line =
    Line string | FlagText flag_error | ConfigText config_error | GetwdText
  | JsonProcs "ProcessInfo list" | JsonLogs string "string list"
  | Issue path_issue | ClearScreen

record cli_out =
  co_out :: "cli_line list"
  co_err :: "cli_line list"
  co_code :: nat

definition cli_ok :: "cli_line list \<Rightarrow> cli_out" where
  "cli_ok out = \<lparr>co_out = out, co_err = [], co_code = 0\<rparr>"

definition die :: "cli_line list \<Rightarrow> string \<Rightarrow> cli_out" where
  "die out msg = \<lparr>co_out = out, co_err = [Line (''gopm: '' @ msg)], co_code = 1\<rparr>"

text \<open>\<open>flag.ExitOnError\<close>.\<close>

definition flag_exit :: "flag_error \<Rightarrow> cli_out" where
  "flag_exit e = \<lparr>co_out = [], co_err = [FlagText e], co_code = (if e = FlagHelp then 0 else 2)\<rparr>"

section \<open>The environment\<close>

record 'w net =
  nt_ping :: "'w \<Rightarrow> 'w \<times> bool"
  nt_send :: "int \<Rightarrow> Request \<Rightarrow> 'w \<Rightarrow> 'w \<times> (string + Response)"
  nt_stream :: "Request \<Rightarrow> 'w \<Rightarrow> 'w \<times> LogEvent list"
  nt_spawn :: "string \<Rightarrow> 'w \<Rightarrow> 'w \<times> string option"

text \<open>\<open>ce_polls\<close> is how often the three-second deadline of \<open>ensureDaemonRunning\<close> lets it ping;
  \<open>ce_stat\<close> says of a path whether it is a directory, or the error.\<close>

record cli_env =
  ce_cwd :: "string option"
  ce_stdout :: "string + 32 word"
  ce_is_print :: "string \<Rightarrow> bool"
  ce_readFile :: "string \<Rightarrow> string + string"
  ce_unmarshal :: "string \<Rightarrow> string + GopmConfig"
  ce_stat :: "string \<Rightarrow> string + bool"
  ce_gopmd :: string
  ce_exe :: "string option"
  ce_lookPath :: "string \<Rightarrow> string option"
  ce_polls :: nat
  ce_ticks :: nat
  ce_getenv :: "string \<Rightarrow> string"
  ce_web :: "string \<Rightarrow> string list \<times> string option"

definition checkResp :: "string + Response \<Rightarrow> string + Response" where
  "checkResp r = (case r of Inl e \<Rightarrow> Inl e | Inr resp \<Rightarrow> if \<not> rs_OK resp then Inl (rs_Error resp) else Inr resp)"

definition findDaemonBinary :: "cli_env \<Rightarrow> string + string" where
  "findDaemonBinary env =
     (if ce_gopmd env \<noteq> [] then Inr (ce_gopmd env)
      else
        (let beside = (case ce_exe env of None \<Rightarrow> None
              | Some exe \<Rightarrow> (let c = path_join [path_dir exe, ''gopmd''] in
                  case ce_stat env c of Inl e \<Rightarrow> None | Inr d \<Rightarrow> Some c))
         in case beside of Some c \<Rightarrow> Inr c
            | None \<Rightarrow> (case ce_lookPath env ''gopmd'' of Some p \<Rightarrow> Inr p
                | None \<Rightarrow> Inl ''gopmd not found (set $GOPMD, place it next to gopm, or add to PATH)'')))"

fun wait_daemon :: "'w net \<Rightarrow> nat \<Rightarrow> 'w \<Rightarrow> 'w \<times> bool" where
  "wait_daemon net 0 w = (w, False)"
| "wait_daemon net (Suc n) w = (case nt_ping net w of (w1, up) \<Rightarrow> if up then (w1, True) else wait_daemon net n w1)"

definition ensureDaemonRunning :: "cli_env \<Rightarrow> 'w net \<Rightarrow> string \<Rightarrow> 'w \<Rightarrow> 'w \<times> string option" where
  "ensureDaemonRunning env net addr w =
     (case nt_ping net w of (w1, up) \<Rightarrow>
        if up then (w1, None)
        else (case findDaemonBinary env of
            Inl e \<Rightarrow> (w1, Some (''could not locate gopmd binary: '' @ e))
          | Inr bin \<Rightarrow>
              (case nt_spawn net bin w1 of
                 (w2, Some e) \<Rightarrow> (w2, Some (''failed to launch gopmd: '' @ e))
               | (w2, None) \<Rightarrow>
                   (case wait_daemon net (ce_polls env) w2 of
                      (w3, True) \<Rightarrow> (w3, None)
                    | (w3, False) \<Rightarrow> (w3, Some (''daemon did not become reachable on '' @ addr))))))"

section \<open>Commands on a named process\<close>

text \<open>The shape \<open>cmdStop\<close>, \<open>cmdRestart\<close> and \<open>cmdDelete\<close> share: timeout in seconds, command.\<close>

definition send_named :: "'w net \<Rightarrow> int \<Rightarrow> string \<Rightarrow> string list \<Rightarrow> 'w \<Rightarrow> 'w \<times> cli_out" where
  "send_named net timeout cmd args w =
     (case args of [] \<Rightarrow> (w, die [] (cmd @ '': missing process name''))
      | name # _ \<Rightarrow>
         (case nt_send net timeout ((request cmd)\<lparr>rq_AppName := name\<rparr>) w of (w', r) \<Rightarrow>
            (w', case checkResp r of Inl e \<Rightarrow> die [] e | Inr resp \<Rightarrow> cli_ok [Line (rs_Message resp)])))"

definition cmdStop :: "'w net \<Rightarrow> string list \<Rightarrow> 'w \<Rightarrow> 'w \<times> cli_out" where
  "cmdStop net = send_named net 15 ''stop''"

definition cmdRestart :: "'w net \<Rightarrow> string list \<Rightarrow> 'w \<Rightarrow> 'w \<times> cli_out" where
  "cmdRestart net = send_named net 30 ''restart''"

definition cmdDelete :: "'w net \<Rightarrow> string list \<Rightarrow> 'w \<Rightarrow> 'w \<times> cli_out" where
  "cmdDelete net = send_named net 30 ''delete''"

section \<open>list and shutdown\<close>

definition list_flags :: "string \<Rightarrow> flag_kind option" where
  "list_flags n = (if n = ''json'' \<or> n = ''names'' then Some FBool else None)"

definition print_list :: "bool \<Rightarrow> (string \<times> string) list \<Rightarrow> ProcessInfo list \<Rightarrow> cli_line list" where
  "print_list tty vs ps =
     (if flag_set ''names'' vs then map (Line \<circ> pi_Name) ps
      else if flag_set ''json'' vs then [JsonProcs ps]
      else map Line (renderList tty ps))"

definition cmdList :: "cli_env \<Rightarrow> 'w net \<Rightarrow> string list \<Rightarrow> 'w \<Rightarrow> 'w \<times> cli_out" where
  "cmdList env net args w =
     (case flag_parse list_flags args of Inl e \<Rightarrow> (w, flag_exit e)
      | Inr (vs, _) \<Rightarrow>
         (case nt_ping net w of (w1, up) \<Rightarrow>
            if \<not> up then (w1, cli_ok [Line ''daemon not running''])
            else (case nt_send net 30 (request ''list'') w1 of (w2, r) \<Rightarrow>
              (w2, case checkResp r of Inl e \<Rightarrow> die [] e | Inr resp \<Rightarrow> cli_ok (print_list (isTTY (ce_stdout env)) vs (rs_Processes resp))))))"

text \<open>The completion scripts run \<open>list --names\<close> and offer every word of its output.\<close>

lemma names_when_daemon_down:
  assumes "nt_ping net w = (w1, False)"
  shows "cmdList env net [''--names''] w = (w1, cli_ok [Line ''daemon not running''])"
  using assms by (simp add: cmdList_def flag_parse.simps(2) has_prefix_def split_flag_def list_flags_def)

definition cmdShutdown :: "'w net \<Rightarrow> 'w \<Rightarrow> 'w \<times> cli_out" where
  "cmdShutdown net w =
     (case nt_ping net w of (w1, up) \<Rightarrow>
        if \<not> up then (w1, cli_ok [Line ''daemon not running''])
        else (case nt_send net 30 (request ''shutdown'') w1 of (w2, r) \<Rightarrow>
          (w2, case checkResp r of Inl e \<Rightarrow> die [] e | Inr resp \<Rightarrow> cli_ok [Line (rs_Message resp)])))"

section \<open>logs and exec\<close>

text \<open>A stream prints its events as they come, until it ends or the user interrupts it.\<close>

definition cmdLogs :: "'w net \<Rightarrow> string list \<Rightarrow> 'w \<Rightarrow> 'w \<times> cli_out" where
  "cmdLogs net args w =
     (case parseLogsArgs args of Inl e \<Rightarrow> (w, die [] e)
      | Inr a \<Rightarrow>
         if la_all a \<and> \<not> la_follow a then
           (case nt_send net 30 ((request ''logsall'')\<lparr>rq_Lines := la_lines a\<rparr>) w of (w', r) \<Rightarrow>
             (w', case checkResp r of Inl e \<Rightarrow> die [] e | Inr resp \<Rightarrow> cli_ok (map Line (rs_Logs resp))))
         else if la_follow a then
           (if \<not> la_all a \<and> la_name a = [] then (w, die [] ''logs: missing process name'')
            else (case nt_stream net ((request ''logstream'')\<lparr>rq_Follow := True, rq_All := la_all a,
                    rq_AppName := if la_all a then [] else la_name a\<rparr>) w of (w', evs) \<Rightarrow>
              (w', cli_ok (map (\<lambda>ev. Line (if la_all a then ''['' @ ev_Name ev @ ''] '' @ ev_Line ev else ev_Line ev)) evs))))
         else if la_name a = [] then (w, die [] ''logs: missing process name'')
         else
           (case nt_send net 30 ((request ''logs'')\<lparr>rq_AppName := la_name a, rq_Lines := la_lines a,
                   rq_Since := la_since a, rq_Grep := la_grep a\<rparr>) w of (w', r) \<Rightarrow>
             (w', case checkResp r of Inl e \<Rightarrow> die [] e
                  | Inr resp \<Rightarrow> cli_ok (if la_json a then [JsonLogs (la_name a) (rs_Logs resp)] else map Line (rs_Logs resp)))))"

definition cmdExec :: "'w net \<Rightarrow> string list \<Rightarrow> 'w \<Rightarrow> 'w \<times> cli_out" where
  "cmdExec net args w =
     (case args of [] \<Rightarrow> (w, die [] ''exec: missing process name'')
      | name # rest0 \<Rightarrow>
         (let rest = (if rest0 \<noteq> [] \<and> hd rest0 = ''--'' then tl rest0 else rest0) in
          if rest = [] then (w, die [] ''exec: missing command'')
          else (case nt_stream net ((request ''exec'')\<lparr>rq_AppName := name, rq_ExecArgs := rest\<rparr>) w of (w', evs) \<Rightarrow>
            (w', cli_ok (map (\<lambda>ev. Line (ev_Line ev)) evs)))))"

section \<open>start and validate\<close>

definition abs_in :: "string \<Rightarrow> string \<Rightarrow> string" where
  "abs_in dir p = (if p \<noteq> [] \<and> \<not> is_abs p then path_join [dir, p] else p)"

definition resolve_app :: "string \<Rightarrow> AppConfig \<Rightarrow> AppConfig" where
  "resolve_app dir a =
     a\<lparr>ac_Cwd := abs_in dir (ac_Cwd a), ac_LogFile := abs_in dir (ac_LogFile a), ac_EnvFile := abs_in dir (ac_EnvFile a)\<rparr>"

definition start_flags :: "string \<Rightarrow> flag_kind option" where
  "start_flags n = (if n = ''group'' then Some FString else None)"

text \<open>The request of \<open>cmdStart\<close>, or how the command ends before it sends one.\<close>

definition start_request :: "cli_env \<Rightarrow> string list \<Rightarrow> cli_out + Request" where
  "start_request env args =
     (case flag_parse start_flags args of Inl e \<Rightarrow> Inl (flag_exit e)
      | Inr (vs, rest) \<Rightarrow>
        (case rest of [] \<Rightarrow> Inl (die [] ''start: missing path to gopm.yaml'')
         | p # _ \<Rightarrow>
           (case path_abs (ce_cwd env) p of
              None \<Rightarrow> Inl \<lparr>co_out = [], co_err = [GetwdText], co_code = 1\<rparr>
            | Some cfgPath \<Rightarrow>
              (case Load (ce_readFile env) (ce_unmarshal env) cfgPath of
                 Inl e \<Rightarrow> Inl \<lparr>co_out = [], co_err = [ConfigText e], co_code = 1\<rparr>
               | Inr cfg \<Rightarrow>
                  (let apps = map (resolve_app (path_dir cfgPath)) (gc_Apps cfg);
                       group = flag_value ''group'' [] vs;
                       chosen = (if group = [] then apps else filter (\<lambda>a. group \<in> set (ac_Groups a)) apps)
                   in if group \<noteq> [] \<and> chosen = []
                      then Inl (die [] (''start: no apps found in group '' @ go_quote (ce_is_print env) group))
                      else Inr ((request ''start'')\<lparr>rq_Apps := chosen, rq_Group := group\<rparr>))))))"

definition cmdStart :: "cli_env \<Rightarrow> 'w net \<Rightarrow> bool \<Rightarrow> string \<Rightarrow> string list \<Rightarrow> 'w \<Rightarrow> 'w \<times> cli_out" where
  "cmdStart env net customHost addr args w =
     (case start_request env args of Inl out \<Rightarrow> (w, out)
      | Inr req \<Rightarrow>
        (case (if customHost then (w, None) else ensureDaemonRunning env net addr w) of
           (w1, Some e) \<Rightarrow> (w1, die [] e)
         | (w1, None) \<Rightarrow>
           (case nt_send net 60 req w1 of (w2, r) \<Rightarrow>
             (case checkResp r of Inl e \<Rightarrow> (w2, die [] e)
              | Inr resp \<Rightarrow>
                (case cmdList env net [] w2 of (w3, out) \<Rightarrow> (w3, out\<lparr>co_out := Line (rs_Message resp) # co_out out\<rparr>))))))"

definition cwd_issues :: "cli_env \<Rightarrow> string \<Rightarrow> AppConfig \<Rightarrow> path_issue list" where
  "cwd_issues env cfgPath a =
     (if ac_Cwd a = [] then []
      else (let cwd = ResolvePath cfgPath (ac_Cwd a) in
        case ce_stat env cwd of Inl e \<Rightarrow> [CwdInaccessible (ac_Name a) cwd e]
        | Inr isdir \<Rightarrow> if isdir then [] else [CwdNotDir (ac_Name a) cwd]))"

definition log_issues :: "cli_env \<Rightarrow> string \<Rightarrow> AppConfig \<Rightarrow> path_issue list" where
  "log_issues env cfgPath a =
     (if ac_LogFile a = [] then []
      else (let dir = path_dir (ResolvePath cfgPath (ac_LogFile a)) in
        case ce_stat env dir of Inl e \<Rightarrow> [] | Inr isdir \<Rightarrow> if isdir then [] else [LogDirNotDir (ac_Name a) dir]))"

definition watch_issues :: "cli_env \<Rightarrow> string \<Rightarrow> AppConfig \<Rightarrow> path_issue list" where
  "watch_issues env cfgPath a =
     (if \<not> wc_Enabled (ac_Watch a) then []
      else
        (let r = ResolvePath cfgPath (ac_Cwd a); root = (if r = [] then path_dir cfgPath else r) in
         (if wc_Dirs (ac_Watch a) = [] then [NoWatchDirs (ac_Name a)] else [])
         @ concat (map (\<lambda>dir.
             let d = (if \<not> is_abs dir then path_join [root, dir] else dir) in
             case ce_stat env d of Inl e \<Rightarrow> [WatchInaccessible (ac_Name a) d e]
             | Inr isdir \<Rightarrow> if isdir then [] else [WatchNotDir (ac_Name a) d]) (wc_Dirs (ac_Watch a)))))"

definition validateConfigPaths :: "cli_env \<Rightarrow> string \<Rightarrow> GopmConfig \<Rightarrow> path_issue list" where
  "validateConfigPaths env cfgPath cfg =
     concat (map (\<lambda>a. cwd_issues env cfgPath a @ log_issues env cfgPath a @ watch_issues env cfgPath a) (gc_Apps cfg))"

text \<open>\<open>cmdValidate\<close>: the absolute path, the number of apps and the issues; \<open>Inl\<close> is the early exit.\<close>

definition cmdValidate :: "cli_env \<Rightarrow> string list \<Rightarrow> cli_out + string \<times> nat \<times> path_issue list" where
  "cmdValidate env args =
     (case args of [] \<Rightarrow> Inl (die [] ''validate: missing path to gopm.yaml'')
      | p # _ \<Rightarrow>
        (case path_abs (ce_cwd env) p of
           None \<Rightarrow> Inl \<lparr>co_out = [], co_err = [GetwdText], co_code = 1\<rparr>
         | Some cfgPath \<Rightarrow>
           (case Load (ce_readFile env) (ce_unmarshal env) cfgPath of
              Inl e \<Rightarrow> Inl \<lparr>co_out = [], co_err = [ConfigText e], co_code = 1\<rparr>
            | Inr cfg \<Rightarrow> Inr (cfgPath, length (gc_Apps cfg), validateConfigPaths env cfgPath cfg))))"

text \<open>What \<open>validate\<close> prints; the issues are printed as values.\<close>

definition validate_out :: "cli_env \<Rightarrow> string list \<Rightarrow> cli_out" where
  "validate_out env args =
     (case cmdValidate env args of Inl out \<Rightarrow> out
      | Inr (path, n, issues) \<Rightarrow>
          if issues = [] then cli_ok [Line (path @ '' is valid ('' @ nat_dec n @ '' app(s))'')]
          else \<lparr>co_out = Line (path @ '' parsed, but has '' @ nat_dec (length issues) @ '' issue(s):'') # map Issue issues,
                co_err = [], co_code = 1\<rparr>)"

section \<open>ui, completion and generate-service\<close>

text \<open>One tick of the live table; the loop prints one screen per tick until a signal comes.\<close>

definition ui_tick :: "cli_env \<Rightarrow> 'w net \<Rightarrow> 'w \<Rightarrow> 'w \<times> cli_line list" where
  "ui_tick env net w =
     (case nt_ping net w of (w1, up) \<Rightarrow>
        if \<not> up then (w1, [ClearScreen, Line ''daemon not running'', Line [], Line ''Press Ctrl+C to exit''])
        else (case nt_send net 30 (request ''list'') w1 of (w2, r) \<Rightarrow>
          (w2, [ClearScreen]
             @ (case r of Inl e \<Rightarrow> [Line (''error: '' @ e)] | Inr resp \<Rightarrow> map Line (renderList (isTTY (ce_stdout env)) (rs_Processes resp)))
             @ [Line [], Line ''Press Ctrl+C to exit  |  gopm restart <name>  |  gopm stop <name>''])))"

fun cmdUI :: "cli_env \<Rightarrow> 'w net \<Rightarrow> nat \<Rightarrow> 'w \<Rightarrow> 'w \<times> cli_out" where
  "cmdUI env net 0 w = (w, cli_ok [ClearScreen])"
| "cmdUI env net (Suc ticks) w =
     (case ui_tick env net w of (w1, ls) \<Rightarrow>
        (case cmdUI env net ticks w1 of (w2, out) \<Rightarrow> (w2, out\<lparr>co_out := ls @ co_out out\<rparr>)))"

definition cmdCompletion :: "string list \<Rightarrow> cli_out" where
  "cmdCompletion args =
     (case args of [] \<Rightarrow> die [] ''completion: specify bash, zsh, or powershell''
      | a # _ \<Rightarrow>
          if to_lower a = ''bash'' then cli_ok (map Line bash_script)
          else if to_lower a = ''zsh'' then cli_ok (map Line zsh_script)
          else if to_lower a = ''powershell'' then cli_ok (map Line powershell_script)
          else die [] (''completion: unknown shell '' @ a @ '' (use bash, zsh, or powershell)''))"

definition currentUser :: "(string \<Rightarrow> string) \<Rightarrow> string" where
  "currentUser getenv =
     (if getenv ''USER'' \<noteq> [] then getenv ''USER'' else if getenv ''USERNAME'' \<noteq> [] then getenv ''USERNAME'' else ''nobody'')"

definition service_flags :: "string \<Rightarrow> flag_kind option" where
  "service_flags n = (if n = ''type'' then Some FString else None)"

text \<open>On Unix; an executable without a name leaves the empty path, whose directory is \<open>.\<close>.\<close>

definition cmdGenerateService :: "cli_env \<Rightarrow> (string \<Rightarrow> string) \<Rightarrow> string list \<Rightarrow> cli_out" where
  "cmdGenerateService env getenv args =
     (case flag_parse service_flags args of Inl e \<Rightarrow> flag_exit e
      | Inr (vs, _) \<Rightarrow>
         (let t0 = flag_value ''type'' [] vs; t = (if t0 = [] then ''systemd'' else t0);
              dir = path_dir (case ce_exe env of None \<Rightarrow> [] | Some e \<Rightarrow> e); bin = path_join [dir, ''gopmd'']
          in if t = ''systemd'' then \<lparr>co_out = map Line (systemd_unit bin (currentUser getenv) dir), co_err = map Line systemd_hint, co_code = 0\<rparr>
             else if t = ''windows'' then cli_ok (map Line (sc_commands bin))
             else die [] (''generate-service: unknown type '' @ t @ '' (use systemd or windows)'')))"

section \<open>The dispatch\<close>

text \<open>The dashboard: \<open>ce_web\<close> is what its server prints at an address and the error it returns with.\<close>

definition web_flags :: "string \<Rightarrow> flag_kind option" where
  "web_flags n = (if n = ''port'' then Some FInt else None)"

definition cmdWeb :: "cli_env \<Rightarrow> 'w net \<Rightarrow> string list \<Rightarrow> 'w \<Rightarrow> 'w \<times> cli_out" where
  "cmdWeb env net args w =
     (case flag_parse web_flags args of Inl e \<Rightarrow> (w, flag_exit e)
      | Inr (vs, _) \<Rightarrow>
         (case nt_ping net w of (w1, up) \<Rightarrow>
            if \<not> up then (w1, die [] ''daemon not running'')
            else (case ce_web env (''127.0.0.1:'' @ int_dec (flag_int ''port'' 6120 vs)) of
                (out, Some e) \<Rightarrow> (w1, die (map Line out) e)
              | (out, None) \<Rightarrow> (w1, cli_ok (map Line out)))))"

text \<open>\<open>ce_ticks\<close> is how many seconds the user watches the live table.\<close>

definition run_command :: "cli_env \<Rightarrow> 'w net \<Rightarrow> bool \<Rightarrow> string \<Rightarrow> command \<Rightarrow> 'w \<Rightarrow> 'w \<times> cli_out" where
  "run_command env net customHost addr c w =
     (case c of
        CUsageError \<Rightarrow> (w, \<lparr>co_out = [], co_err = map Line usage_lines, co_code = 2\<rparr>)
      | CStart as \<Rightarrow> cmdStart env net customHost addr as w
      | CStop as \<Rightarrow> cmdStop net as w
      | CRestart as \<Rightarrow> cmdRestart net as w
      | CDelete as \<Rightarrow> cmdDelete net as w
      | CList as \<Rightarrow> cmdList env net as w
      | CLogs as \<Rightarrow> cmdLogs net as w
      | CExec as \<Rightarrow> cmdExec net as w
      | CDaemon \<Rightarrow>
          (case (if customHost then (w, None) else ensureDaemonRunning env net addr w) of
            (w1, Some e) \<Rightarrow> (w1, die [] e)
          | (w1, None) \<Rightarrow> (w1, cli_ok [Line (''gopmd is running on '' @ addr)]))
      | CShutdown \<Rightarrow> cmdShutdown net w
      | CUI as \<Rightarrow> cmdUI env net (ce_ticks env) w
      | CCompletion as \<Rightarrow> (w, cmdCompletion as)
      | CService as \<Rightarrow> (w, cmdGenerateService env (ce_getenv env) as)
      | CValidate as \<Rightarrow> (w, validate_out env as)
      | CHelp \<Rightarrow> (w, cli_ok (map Line usage_lines))
      | CUnknown cmd \<Rightarrow> (w, \<lparr>co_out = [], co_err = Line (''unknown command: '' @ cmd) # map Line usage_lines, co_code = 2\<rparr>)
      | CWeb as \<Rightarrow> cmdWeb env net as w)"

section \<open>A CLI and its daemon\<close>

text \<open>The handler of \<open>cmd/gopmd/main.go\<close>: the daemon's state and whether its context was cancelled.\<close>

definition gopmd_handler :: "'s sup_api \<Rightarrow> clock \<Rightarrow> Request \<Rightarrow> 's \<times> bool \<Rightarrow> (('s \<times> bool) \<times> Response option) option" where
  "gopmd_handler api ck req d =
     (if rq_Command req = ''shutdown'' then Some ((fst d, True), Some (ok_resp ''daemon shutting down''))
      else map_option (\<lambda>(s', r). ((s', snd d), Some r)) (Handler api ck req (fst d)))"

record codec =
  cc_encq :: "Request \<Rightarrow> string + string"
  cc_decq :: "string \<Rightarrow> string + Request"
  cc_encr :: "Response \<Rightarrow> string + string"
  cc_decr :: "string \<Rightarrow> string + Response"

definition client_error_text :: "client_error \<Rightarrow> string" where
  "client_error_text e =
     (case e of DialError m \<Rightarrow> m | MarshalRequest m \<Rightarrow> ''marshal request: '' @ m
      | ReadResponse \<Rightarrow> ''read response: EOF'' | ParseResponse m \<Rightarrow> ''parse response: '' @ m)"

definition daemon_send :: "codec \<Rightarrow> 's sup_api \<Rightarrow> clock \<Rightarrow> Request \<Rightarrow> 's \<times> bool \<Rightarrow> ('s \<times> bool) \<times> (string + Response)" where
  "daemon_send cc api ck req d =
     apsnd (map_sum client_error_text id)
       (exchange (cc_encq cc) (cc_decq cc) (cc_encr cc) (cc_decr cc) True (gopmd_handler api ck) req d)"

text \<open>Requests go to the daemon; streams and the launch of a daemon are those of \<open>net\<close>.\<close>

definition daemon_net :: "codec \<Rightarrow> 's sup_api \<Rightarrow> clock \<Rightarrow> ('s \<times> bool) net \<Rightarrow> ('s \<times> bool) net" where
  "daemon_net cc api ck net =
     net\<lparr>nt_ping := (\<lambda>d. case daemon_send cc api ck (request ''ping'') d of (d', Inl e) \<Rightarrow> (d', False) | (d', Inr r) \<Rightarrow> (d', True)),
         nt_send := (\<lambda>timeout req d. daemon_send cc api ck req d)\<rparr>"

text \<open>The codec of the program.\<close>

definition json_codec :: "float_text \<Rightarrow> (string \<Rightarrow> string) \<Rightarrow> (string \<Rightarrow> string) \<Rightarrow> codec" where
  "json_codec fl why why' =
     \<lparr>cc_encq = marshal_request, cc_decq = unmarshal_request why, cc_encr = marshal_response fl, cc_decr = unmarshal_response fl why'\<rparr>"

lemma json_send_answer:
  assumes "Handler api ck (wire_request req) s = Some (s', resp)"
    and "\<not> is_stream (rq_Command (wire_request req))" and "rq_Command (wire_request req) \<noteq> ''shutdown''"
    and "request_ints req" and "list_all (info_nums fl) (rs_Processes resp)"
  shows "daemon_send (json_codec fl why why') api ck req (s, b) = ((s', b), Inr (wire_response resp))"
  using exchange_answer [OF request_carried [OF assms(4), of why], of "marshal_response fl" "unmarshal_response fl why'" "Some resp"
      "wire_response resp" "gopmd_handler api ck" "(s, b)" "(s', b)" True] assms response_carried [OF assms(5), of why']
  by (simp add: daemon_send_def gopmd_handler_def nil_ok_def json_codec_def)

lemma wire_named: "list_all ascii cmd \<Longrightarrow> wire_request ((request cmd)\<lparr>rq_AppName := name\<rparr>) = (request cmd)\<lparr>rq_AppName := fix_utf8 name\<rparr>"
  by (simp add: wire_request_def request_def fix_ascii)

lemma send_named_answer:
  assumes "Handler api ck ((request cmd)\<lparr>rq_AppName := fix_utf8 name\<rparr>) s = Some (s', resp)"
    and "\<not> is_stream cmd" and "cmd \<noteq> ''shutdown''" and "list_all ascii cmd" and "rs_Processes resp = []"
  shows "send_named (daemon_net (json_codec fl why why') api ck net) t cmd (name # rest) (s, b) =
    ((s', b), if rs_OK resp then cli_ok [Line (fix_utf8 (rs_Message resp))] else die [] (fix_utf8 (rs_Error resp)))"
  using json_send_answer [of api ck "(request cmd)\<lparr>rq_AppName := name\<rparr>" s s' resp fl why why' b] assms
  by (simp add: send_named_def daemon_net_def checkResp_def wire_named) (simp add: request_def request_ints_def go_int_def wire_response_def)

lemma named_resp:
  "name \<noteq> [] \<Longrightarrow> named cmd past f name s =
     (fst (f name s), case snd (f name s) of None \<Rightarrow> ok_resp (past @ '' '' @ name) | Some e \<Rightarrow> errResp e)"
  by (cases "f name s") (auto simp: named_def split: option.splits)

lemma handler_named:
  "Handler api ck ((request ''stop'')\<lparr>rq_AppName := name\<rparr>) s = Some (named ''stop'' ''stopped'' (api_Stop api) name s)"
  "Handler api ck ((request ''restart'')\<lparr>rq_AppName := name\<rparr>) s = Some (named ''restart'' ''restarted'' (api_Restart api) name s)"
  "Handler api ck ((request ''delete'')\<lparr>rq_AppName := name\<rparr>) s = Some (named ''delete'' ''deleted'' (api_Delete api) name s)"
  by (simp_all add: Handler_def Let_def request_def)

section \<open>Properties\<close>

text \<open>\<open>--group\<close> is honoured before the path and silently ignored after it, where the usage text
  and the README put it: \<open>gopm start gopm.yaml --group backend\<close> starts every app. Either way the
  daemon gets absolute working directories, log files and environment files.\<close>

theorem start_group_flag:
  assumes "p = [] \<or> hd p \<noteq> CHR ''-''" and "path_abs (ce_cwd env) p = Some cfgPath"
    and "Load (ce_readFile env) (ce_unmarshal env) cfgPath = Inr cfg" and "g \<noteq> []"
    and "\<exists>a \<in> set (gc_Apps cfg). g \<in> set (ac_Groups a)"
  shows "start_request env [''--group'', g, p] = Inr ((request ''start'')\<lparr>rq_Group := g,
       rq_Apps := map (resolve_app (path_dir cfgPath)) (filter (\<lambda>a. g \<in> set (ac_Groups a)) (gc_Apps cfg))\<rparr>)
     \<and> start_request env [p, ''--group'', g] = Inr ((request ''start'')\<lparr>rq_Group := [],
       rq_Apps := map (resolve_app (path_dir cfgPath)) (gc_Apps cfg)\<rparr>)"
proof
  have "flag_parse start_flags [''--'' @ ''group'', g, p] = map_sum id (apfst (Cons (''group'', g))) (flag_parse start_flags [p])"
    by (rule flag_parse_string) (auto simp: start_flags_def)
  then have before: "flag_parse start_flags [''--group'', g, p] = Inr ([(''group'', g)], [p])"
    using flag_parse_positional [OF assms(1), of start_flags "[]"] by simp
  have res: "filter (\<lambda>a. g \<in> set (ac_Groups a)) (map (resolve_app d) apps)
      = map (resolve_app d) (filter (\<lambda>a. g \<in> set (ac_Groups a)) apps)" for d apps
    by (simp add: filter_map comp_def resolve_app_def)
  have "filter (\<lambda>a. g \<in> set (ac_Groups a)) (gc_Apps cfg) \<noteq> []" using assms(5) by (simp add: filter_empty_conv)
  then show "start_request env [''--group'', g, p] = Inr ((request ''start'')\<lparr>rq_Group := g,
       rq_Apps := map (resolve_app (path_dir cfgPath)) (filter (\<lambda>a. g \<in> set (ac_Groups a)) (gc_Apps cfg))\<rparr>)"
    using assms(2-4) by (simp add: start_request_def before flag_value_def res Let_def)
  have "flag_parse start_flags [p, ''--group'', g] = Inr ([], [p, ''--group'', g])"
    by (rule flag_parse_positional [OF assms(1)])
  then show "start_request env [p, ''--group'', g] = Inr ((request ''start'')\<lparr>rq_Group := [],
       rq_Apps := map (resolve_app (path_dir cfgPath)) (gc_Apps cfg)\<rparr>)"
    using assms(2,3) by (simp add: start_request_def flag_value_def Let_def request_def)
qed

definition demo_app :: "string \<Rightarrow> string list \<Rightarrow> AppConfig" where
  "demo_app n gs = zero_app\<lparr>ac_Name := n, ac_Command := ''run'', ac_Groups := gs\<rparr>"

definition demo_env :: cli_env where
  "demo_env = \<lparr>ce_cwd = Some ''/w'', ce_stdout = Inl ''stat'', ce_is_print = (\<lambda>_. False), ce_readFile = Inr,
     ce_unmarshal = (\<lambda>_. Inr \<lparr>gc_Apps = [demo_app ''a'' [''web''], demo_app ''b'' []]\<rparr>), ce_stat = (\<lambda>_. Inr True),
     ce_gopmd = [], ce_exe = None, ce_lookPath = (\<lambda>_. None), ce_polls = 0, ce_ticks = 0, ce_getenv = (\<lambda>_. []), ce_web = (\<lambda>_. ([], None))\<rparr>"

theorem start_group_flag_witness:
  "map_sum id (map ac_Name \<circ> rq_Apps) (start_request demo_env [''--group'', ''web'', ''/g.yaml'']) = Inr [''a'']
     \<and> map_sum id (map ac_Name \<circ> rq_Apps) (start_request demo_env [''/g.yaml'', ''--group'', ''web'']) = Inr [''a'', ''b'']"
proof -
  have p: "path_abs (ce_cwd demo_env) ''/g.yaml'' = Some (path_clean ''/g.yaml'')" by (simp add: path_abs_def)
  have l: "Load (ce_readFile demo_env) (ce_unmarshal demo_env) (path_clean ''/g.yaml'') = Inr \<lparr>gc_Apps = [demo_app ''a'' [''web''], demo_app ''b'' []]\<rparr>"
    by (simp add: Load_def demo_env_def Validate_def demo_app_def)
  have "\<exists>a \<in> set (gc_Apps \<lparr>gc_Apps = [demo_app ''a'' [''web''], demo_app ''b'' []]\<rparr>). ''web'' \<in> set (ac_Groups a)"
    by (simp add: demo_app_def)
  from start_group_flag [OF _ p l _ this] show ?thesis by (simp add: demo_app_def resolve_app_def)
qed


definition demo_net :: "('s \<times> bool) net" where
  "demo_net = \<lparr>nt_ping = (\<lambda>d. (d, True)), nt_send = (\<lambda>t r d. (d, Inl ''off'')), nt_stream = (\<lambda>r d. (d, [])), nt_spawn = (\<lambda>b d. (d, None))\<rparr>"

definition json_net :: "'s sup_api \<Rightarrow> ('s \<times> bool) net" where
  "json_net api = daemon_net (json_codec no_floats syntax_error syntax_error) api demo_clock demo_net"


text \<open>\<open>gopm logs name -n n --grep pattern\<close> prints, through the parser of its arguments, the JSON of the
  wire, the dispatch and the log registry, exactly the last \<open>n\<close> lines of the process that contain the
  pattern, oldest first, with each byte that is not UTF-8 replaced, and exits with 0.\<close>

theorem cli_logs_end_to_end:
  assumes "lg_ok (api_logger api s)" and "api_known api s name" and "name \<noteq> []" and "hd name \<noteq> CHR ''-''"
    and "0 < n" and "n < 2 ^ 63" and "utf8_ok name" and "utf8_ok pat"
  shows "run_command env (daemon_net (json_codec fl why why') api ck net) customHost addr (CLogs [name, ''-n'', int_dec n, ''--grep'', pat]) (s, b) =
    ((s, b), cli_ok (map (\<lambda>l. Line (fix_utf8 l)) (lastn (nat n) (filter (\<lambda>l. pat = [] \<or> str_contains l pat) (lines_of (api_logger api s) name)))))"
proof -
  let ?ls = "lastn (nat n) (filter (\<lambda>l. pat = [] \<or> str_contains l pat) (lines_of (api_logger api s) name))"
  let ?req = "(request ''logs'')\<lparr>rq_AppName := name, rq_Lines := n, rq_Grep := pat\<rparr>"
  have "parse_logs a (write_opt (OName name) @ write_opt (OLines False n) @ write_opt (OGrep False pat) @ [])
      = Inr (opt_effect (OGrep False pat) (opt_effect (OLines False n) (opt_effect (OName name) a)))" if "la_name a = []" for a
    using parse_logs_opt [of "OName name" a] parse_logs_opt [of "OLines False n"] parse_logs_opt [of "OGrep False pat"] assms(3-6) that
    by simp
  from this [of logs_defaults]
  have args: "parseLogsArgs [name, ''-n'', int_dec n, ''--grep'', pat] = Inr (logs_defaults\<lparr>la_name := name, la_lines := n, la_grep := pat\<rparr>)"
    by (simp add: parseLogsArgs_def logs_defaults_def)
  have wire: "wire_request ?req = ?req" using assms(7,8) by (simp add: wire_request_def request_def fix_utf8_id fix_ascii ascii_def)
  have "Handler api ck ?req s = Some (s, logs_resp ?ls)"
    using logs_answer [of api s ?req ck] assms(1-5) by (simp add: request_def since_time_def)
  then have "daemon_send (json_codec fl why why') api ck ?req (s, b) = ((s, b), Inr (wire_response (logs_resp ?ls)))"
    using json_send_answer [of api ck ?req s s "logs_resp ?ls" fl why why' b, unfolded wire] assms(5,6)
    by (simp add: request_def is_stream_def request_ints_def go_int_def logs_resp_def ok_resp_def)
  then show ?thesis
    by (simp add: run_command_def cmdLogs_def args logs_defaults_def daemon_net_def checkResp_def logs_resp_def request_def assms(3)
        wire_response_def comp_def)
qed

theorem cli_logs_end_to_end_witness:
  "\<exists>lg. write_all good_os demo_lines (logger_New no_files 0) = Some lg
     \<and> run_command demo_env (json_net demo_api) False DefaultAddr (CLogs [''a'', ''-n'', int_dec 1, ''--grep'', ''o'']) (lg, False)
       = ((lg, False), cli_ok [Line ''two''])"
proof -
  obtain lg where lg: "write_all good_os demo_lines (logger_New no_files 0) = Some lg" "lg_ok lg" "lines_of lg ''a'' = [''one'', ''two'']"
    using demo_log by blast
  have api: "api_logger demo_api lg = lg" "api_known demo_api lg ''a''" by (simp_all add: demo_api_def)
  have "str_contains ''two'' ''o''" "str_contains ''one'' ''o''" by (simp_all add: has_prefix_def)
  then have ls: "lastn (nat 1) (filter (\<lambda>l. ''o'' = [] \<or> str_contains l ''o'') (lines_of (api_logger demo_api lg) ''a'')) = [''two'']"
    by (simp add: api lg(3) lastn_def)
  show ?thesis
    using cli_logs_end_to_end [of demo_api lg "''a''" 1 "''o''" demo_env no_floats syntax_error syntax_error demo_clock demo_net False DefaultAddr False]
      lg(1,2) api
    unfolding ls by (simp add: json_net_def fix_ascii utf8_ok_ascii ascii_def)
qed

end
