(* ===== verification/Cli_Exec.thy ===== *)
theory Cli_Exec
  imports Cli
begin

text \<open>
  \<open>gopm exec\<close> from end to end: the arguments (\<open>cmdExec\<close> of \<open>cmd/gopm/main.go\<close>), the stream over the
  wire (\<open>Stream\<close> of \<open>internal/ipc/client.go\<close>, \<open>handle\<close> of \<open>internal/ipc/server.go\<close>), and the two
  forwarding goroutines of \<open>handleExec\<close> (\<open>internal/supervisor/rpc.go\<close>).
\<close>

section \<open>A stream of events over the wire\<close>

record event_codec =
  ec_encq :: "Request \<Rightarrow> string + string"
  ec_decq :: "string \<Rightarrow> string + Request"
  ec_ence :: "LogEvent \<Rightarrow> string + string"
  ec_dece :: "string \<Rightarrow> LogEvent option"

text \<open>\<open>enc.Encode\<close> of each event; an event that cannot be encoded sends nothing.\<close>

definition event_bytes :: "event_codec \<Rightarrow> LogEvent list \<Rightarrow> string" where
  "event_bytes ec evs = concat (map (\<lambda>ev. case ec_ence ec ev of Inl e \<Rightarrow> [] | Inr b \<Rightarrow> b @ [newline]) evs)"

text \<open>What the daemon writes on a connection whose stream handler sends \<open>evs\<close>.\<close>

definition stream_server :: "event_codec \<Rightarrow> LogEvent list \<Rightarrow> string \<Rightarrow> string" where
  "stream_server ec evs bytes =
     (case snd (server_handle (ec_decq ec) True (\<lambda>req s. None) bytes ()) of Streamed req \<Rightarrow> event_bytes ec evs | _ \<Rightarrow> [])"

definition event_carried :: "event_codec \<Rightarrow> LogEvent \<Rightarrow> LogEvent \<Rightarrow> bool" where
  "event_carried ec ev ev' \<longleftrightarrow> (\<exists>b. ec_ence ec ev = Inr b \<and> ec_dece ec b = Some ev' \<and> newline \<notin> set b)"

text \<open>A net whose streams reach the daemon: the handler is asked for what it sends.\<close>

definition stream_net :: "event_codec \<Rightarrow> (Request \<Rightarrow> LogEvent list) \<Rightarrow> 'w net \<Rightarrow> 'w net" where
  "stream_net ec sends net =
     net\<lparr>nt_stream := (\<lambda>req w. (w, snd (Stream None (ec_encq ec) (ec_dece ec) (\<lambda>_ _. True) (stream_server ec (sends req)) req)))\<rparr>"

lemma client_stream_events:
  "(\<And>ev. ev \<in> set evs \<Longrightarrow> event_carried ec ev (g ev)) \<Longrightarrow> client_stream (ec_dece ec) (\<lambda>_ _. True) n (event_bytes ec evs) = map g evs"
proof (induction evs arbitrary: n)
  case Nil
  then show ?case by (subst client_stream.simps) (simp add: event_bytes_def read_line_def)
next
  case (Cons ev evs)
  obtain b where b: "ec_ence ec ev = Inr b" "ec_dece ec b = Some (g ev)" "newline \<notin> set b"
    using Cons.prems [of ev] by (auto simp: event_carried_def)
  have "event_bytes ec (ev # evs) = b @ newline # event_bytes ec evs" using b(1) by (simp add: event_bytes_def)
  then show ?case using client_stream_line [OF b(3), of "ec_dece ec" "\<lambda>_ _. True" n] b(2) Cons by simp
qed

text \<open>The client is handed what the handler sends, as it arrives.\<close>

lemma stream_answer:
  assumes "carries (ec_encq ec) (ec_decq ec) req req'" and "is_stream (rq_Command req')"
    and "\<And>ev. ev \<in> set (sends req) \<Longrightarrow> event_carried ec ev (g ev)"
  shows "nt_stream (stream_net ec sends net) req w = (w, map g (sends req))"
proof -
  obtain b where b: "ec_encq ec req = Inr b" "ec_decq ec b = Inr req'" "newline \<notin> set b"
    using assms(1) by (auto simp: carries_def)
  have "stream_server ec (sends req) (b @ [newline]) = event_bytes ec (sends req)"
    using read_line_newline [OF b(3), of "[]"] b(2) assms(2) by (simp add: stream_server_def server_handle_def)
  then show ?thesis
    using client_stream_events [of "sends req" ec g 0] b(1) assms(3) by (simp add: stream_net_def Stream_def client_request_def)
qed

text \<open>The codec of the program.\<close>

definition json_events :: "(string \<Rightarrow> string) \<Rightarrow> event_codec" where
  "json_events why =
     \<lparr>ec_encq = marshal_request, ec_decq = unmarshal_request why, ec_ence = marshal_event, ec_dece = unmarshal_event\<rparr>"

lemma json_stream_answer:
  assumes "request_ints req" and "is_stream (rq_Command (wire_request req))"
  shows "nt_stream (stream_net (json_events why) sends net) req w = (w, map wire_event (sends req))"
  by (rule stream_answer [OF _ assms(2)])
    (simp_all add: json_events_def request_carried [OF assms(1)] event_carried_def marshal_event_def event_arrives marshal_one_line)

lemma map_shuffles: "zs \<in> shuffles xs ys \<Longrightarrow> map f zs \<in> shuffles (map f xs) (map f ys)"
  by (induction xs ys arbitrary: zs rule: shuffles.induct) auto

section \<open>Properties\<close>

definition exec_request :: "string \<Rightarrow> string list \<Rightarrow> Request" where
  "exec_request name ws = (request ''exec'')\<lparr>rq_AppName := name, rq_ExecArgs := ws\<rparr>"


definition demo_sends :: "Request \<Rightarrow> LogEvent list" where
  "demo_sends r = [\<lparr>ev_Name = ''a'', ev_Line = ''[stderr] bad''\<rparr>, \<lparr>ev_Name = ''a'', ev_Line = ''one''\<rparr>]"


end
