(* ===== verification/Web.thy ===== *)
theory Web
  imports Utf8 Go_Paths Rpc
begin

text \<open>
  The web dashboard (\<open>internal/web/server.go\<close>): the routes of its \<open>ServeMux\<close>, the four handlers, the
  Prometheus page and the server-sent events. The daemon behind it is a function from requests to
  responses on a state; the static files are an argument. Paths have no percent escapes.
\<close>

section \<open>Responses and routes\<close>

datatype web_resp =
    NotFound | Moved string | HttpError nat string | ProcessesJson "ProcessInfo list" | ActionJson string
  | MetricsText string | EventStream "string list" | Static string

datatype route = RProcesses | RLogs | RApi | RMetrics | RRoot | RMoved string

text \<open>\<open>ServeMux\<close>: a path that is not clean, or is a subtree pattern without its slash, is redirected;
  else the longest matching pattern decides.\<close>

definition clean_url :: "string \<Rightarrow> string" where
  "clean_url p0 =
     (let p = (if is_abs p0 then p0 else slash # p0); np = path_clean p in
      if has_suffix p ''/'' \<and> np \<noteq> ''/'' then np @ ''/'' else np)"

definition mux_route :: "string \<Rightarrow> route" where
  "mux_route p =
     (if clean_url p \<noteq> p then RMoved (clean_url p)
      else if p = ''/api'' \<or> p = ''/api/logs'' then RMoved (p @ ''/'')
      else if p = ''/api/processes'' then RProcesses
      else if has_prefix p ''/api/logs/'' then RLogs
      else if has_prefix p ''/api/'' then RApi
      else if p = ''/metrics'' then RMetrics
      else RRoot)"

section \<open>Handlers\<close>

type_synonym 'w sender = "Request \<Rightarrow> 'w \<Rightarrow> 'w \<times> (string + Response)"

definition handleProcesses :: "'w sender \<Rightarrow> 'w \<Rightarrow> 'w \<times> web_resp" where
  "handleProcesses send w =
     (case send (request ''list'') w of
        (w', Inl e) \<Rightarrow> (w', HttpError 502 ''daemon error'')
      | (w', Inr r) \<Rightarrow> (w', if \<not> rs_OK r then HttpError 502 ''daemon error'' else ProcessesJson (rs_Processes r)))"

definition handleAction :: "'w sender \<Rightarrow> string \<Rightarrow> string \<Rightarrow> 'w \<Rightarrow> 'w \<times> web_resp" where
  "handleAction send meth path w =
     (if meth \<noteq> ''POST'' then (w, NotFound)
      else (let q = trim_prefix path ''/api/'' in
        case index_byte q slash of None \<Rightarrow> (w, NotFound)
        | Some i \<Rightarrow>
            (let name = take i q; action = drop (i + 1) q in
             if action \<noteq> ''restart'' \<and> action \<noteq> ''stop'' then (w, NotFound)
             else (case send ((request action)\<lparr>rq_AppName := name\<rparr>) w of
                 (w', Inl e) \<Rightarrow> (w', HttpError 502 e)
               | (w', Inr r) \<Rightarrow> (w', if \<not> rs_OK r then HttpError 500 (rs_Error r) else ActionJson (rs_Message r))))))"

text \<open>An event of the stream: newlines of the line become blanks.\<close>

definition sse_event :: "string \<Rightarrow> string" where
  "sse_event line = ''data: '' @ map (\<lambda>c. if c = CHR 0x0A then CHR '' '' else c) line @ [CHR 0x0A, CHR 0x0A]"

definition web_log_stream :: "(Request \<Rightarrow> 'w \<Rightarrow> 'w \<times> LogEvent list) \<Rightarrow> string \<Rightarrow> 'w \<Rightarrow> 'w \<times> web_resp" where
  "web_log_stream stream path w =
     (let p = trim_prefix path ''/api/logs/'' in
      if \<not> has_suffix p ''/stream'' then (w, NotFound)
      else (let name = trim_suffix p ''/stream'' in
        if name = [] then (w, HttpError 400 ''missing process name'')
        else (case stream ((request ''logstream'')\<lparr>rq_AppName := name, rq_Follow := True\<rparr>) w of
          (w', evs) \<Rightarrow> (w', EventStream (map (\<lambda>ev. sse_event (ev_Line ev)) evs)))))"

section \<open>Metrics\<close>

definition process_up :: "ProcessInfo \<Rightarrow> nat" where
  "process_up p = (if pi_Status p = ''online'' \<or> pi_Status p = ''ready'' then 1 else 0)"

definition family_head :: "string \<Rightarrow> string \<Rightarrow> string \<Rightarrow> string list" where
  "family_head fam help kind = [''# HELP '' @ fam @ '' '' @ help, ''# TYPE '' @ fam @ '' '' @ kind]"

definition sample_line :: "(string \<Rightarrow> bool) \<Rightarrow> string \<Rightarrow> string \<Rightarrow> string \<Rightarrow> string" where
  "sample_line is_print fam name v = fam @ ''{name='' @ go_quote is_print name @ ''} '' @ v"

definition metrics_lines :: "(string \<Rightarrow> bool) \<Rightarrow> ProcessInfo list \<Rightarrow> string list" where
  "metrics_lines is_print ps =
     family_head ''gopm_process_up'' ''1 if process is online or ready'' ''gauge''
     @ map (\<lambda>p. sample_line is_print ''gopm_process_up'' (pi_Name p) (nat_dec (process_up p))) ps
     @ family_head ''gopm_process_restarts'' ''total restart count'' ''counter''
     @ map (\<lambda>p. sample_line is_print ''gopm_process_restarts'' (pi_Name p) (int_dec (pi_Restarts p))) ps
     @ family_head ''gopm_process_memory_bytes'' ''resident set size in bytes'' ''gauge''
     @ map (\<lambda>p. sample_line is_print ''gopm_process_memory_bytes'' (pi_Name p) (nat_dec (pi_Memory p))) ps
     @ family_head ''gopm_process_cpu_percent'' ''CPU usage percent'' ''gauge''
     @ map (\<lambda>p. sample_line is_print ''gopm_process_cpu_percent'' (pi_Name p) (fmt_f 2 (pi_CPU p))) ps"

definition metrics_text :: "(string \<Rightarrow> bool) \<Rightarrow> ProcessInfo list \<Rightarrow> string" where
  "metrics_text is_print ps = concat (map (\<lambda>l. l @ [CHR 0x0A]) (metrics_lines is_print ps))"

definition handleMetrics :: "(string \<Rightarrow> bool) \<Rightarrow> 'w sender \<Rightarrow> 'w \<Rightarrow> 'w \<times> web_resp" where
  "handleMetrics is_print send w =
     (case send (request ''list'') w of
        (w', Inl e) \<Rightarrow> (w', HttpError 502 ''daemon error'')
      | (w', Inr r) \<Rightarrow> (w', if \<not> rs_OK r then HttpError 502 ''daemon error'' else MetricsText (metrics_text is_print (rs_Processes r))))"

definition web_serve ::
  "(string \<Rightarrow> bool) \<Rightarrow> 'w sender \<Rightarrow> (Request \<Rightarrow> 'w \<Rightarrow> 'w \<times> LogEvent list) \<Rightarrow> string \<Rightarrow> string \<Rightarrow> 'w \<Rightarrow> 'w \<times> web_resp"
where
  "web_serve is_print send stream meth path w =
     (case mux_route path of
        RMoved p \<Rightarrow> (w, Moved p)
      | RProcesses \<Rightarrow> handleProcesses send w
      | RLogs \<Rightarrow> web_log_stream stream path w
      | RApi \<Rightarrow> handleAction send meth path w
      | RMetrics \<Rightarrow> handleMetrics is_print send w
      | RRoot \<Rightarrow> (w, Static path))"

section \<open>Lemmas\<close>

lemma clean_url_render:
  assumes "list_all norm_comp cs" and "cs \<noteq> []"
  shows "clean_url (render cs) = render cs"
proof -
  have "\<not> has_suffix (render cs) ''/''"
  proof
    assume "has_suffix (render cs) ''/''"
    then obtain t where t: "render cs = t @ [slash]" by (auto simp: has_suffix_iff)
    obtain ds d where ds: "cs = ds @ [d]" using assms(2) by (metis rev_exhaust)
    have d: "d \<noteq> []" "slash \<notin> set d" using assms(1) ds by (auto simp: norm_comp_def)
    have "last (render cs) = last d"
      unfolding render_def ds using d(1) join_with_append [of ds "[d]" "[slash]"] by (cases "ds = []") simp_all
    then show False using t d by (metis last_in_set last_snoc)
  qed
  moreover have "is_abs (render cs)" by (simp add: render_def)
  ultimately show ?thesis by (simp add: clean_url_def Let_def path_clean_render [OF assms(1)])
qed

lemma split_lines:
  "(\<And>l. l \<in> set ls \<Longrightarrow> CHR 0x0A \<notin> set l) \<Longrightarrow> split_on CHR 0x0A (concat (map (\<lambda>l. l @ [CHR 0x0A]) ls)) = ls @ [[]]"
  by (induction ls) (simp_all add: split_on_append)

lemma newline_not_digit: "d < 10 \<Longrightarrow> digit_char d \<noteq> CHR 0x0A"
proof -
  have "digit_val CHR 0x0A = None" by (simp add: digit_val_def)
  then show "d < 10 \<Longrightarrow> digit_char d \<noteq> CHR 0x0A" by (metis digit_val_char option.distinct(1))
qed

lemma newline_nat_dec [simp]: "CHR 0x0A \<notin> set (nat_dec n)"
  using set_nat_dec [of n] newline_not_digit by fastforce

lemma newline_int_dec [simp]: "CHR 0x0A \<notin> set (int_dec i)"
  by (simp add: int_dec_def)

lemma newline_dec_pad [simp]: "CHR 0x0A \<notin> set (dec_pad k n)"
proof (induction k arbitrary: n)
  case (Suc k)
  have "digit_char (n mod 10) \<noteq> CHR 0x0A" by (rule newline_not_digit) simp
  then show ?case using Suc by auto
qed simp

lemma newline_fmt_f [simp]: "CHR 0x0A \<notin> set (fmt_f d r)"
  by (simp add: fmt_f_def Let_def)

lemma newline_sample: "CHR 0x0A \<notin> set fam \<Longrightarrow> CHR 0x0A \<notin> set v \<Longrightarrow> CHR 0x0A \<notin> set (sample_line is_print fam name v)"
  using go_quote_one_line [of is_print name] by (simp add: sample_line_def)

text \<open>What a scraper reads of a sample: the family, the name between its quotes, the value.\<close>

definition read_sample :: "string \<Rightarrow> (string \<times> string \<times> string) option" where
  "read_sample l =
     (case index_byte l CHR ''{'' of None \<Rightarrow> None
      | Some i \<Rightarrow> (case skip_quoted (drop (i + 7) l) of None \<Rightarrow> None
          | Some (q, r) \<Rightarrow> Some (take i l, q, drop 2 r)))"

lemma read_sample_line:
  assumes "CHR ''{'' \<notin> set fam"
  shows "read_sample (sample_line is_print fam name v) = Some (fam, quote_body is_print name, v)"
proof -
  let ?l = "sample_line is_print fam name v"
  have l: "?l = fam @ CHR ''{'' # ''name='' @ CHR 0x22 # quote_body is_print name @ CHR 0x22 # ''} '' @ v"
    by (simp add: sample_line_def go_quote_def)
  have "index_byte ?l CHR ''{'' = Some (length fam)" unfolding l by (rule index_byte_append [OF assms])
  moreover have "drop (length fam + 7) ?l = quote_body is_print name @ CHR 0x22 # ''} '' @ v" unfolding l by simp
  moreover have "take (length fam) ?l = fam" unfolding l by simp
  ultimately show ?thesis using skip_go_quote [of is_print name "''} '' @ v"] by (simp add: read_sample_def)
qed

section \<open>Server-sent events\<close>

text \<open>How a browser cuts a stream into lines: at CR LF, LF or CR.\<close>

function sse_lines :: "string \<Rightarrow> string \<Rightarrow> string list" where
  "sse_lines cur [] = []"
| "sse_lines cur (c # s) =
     (if c = CHR 0x0A then rev cur # sse_lines [] s
      else if c = CHR 0x0D then rev cur # sse_lines [] (if s \<noteq> [] \<and> hd s = CHR 0x0A then tl s else s)
      else sse_lines (c # cur) s)"
  by pat_completeness auto
termination
  by (relation "measure (\<lambda>(cur, s). length s)") auto

definition sse_data :: "string \<Rightarrow> string list" where
  "sse_data s = map (trim_prefix ''data: '') (filter (\<lambda>l. has_prefix l ''data:'') (sse_lines [] s))"

lemma sse_lines_plain:
  "CHR 0x0A \<notin> set l \<Longrightarrow> CHR 0x0D \<notin> set l \<Longrightarrow> sse_lines cur (l @ s) = sse_lines (rev l @ cur) s"
  by (induction l arbitrary: cur) auto

text \<open>A carriage return inside a line, as a progress bar prints it, ends the data there: the rest of
  the line is a line without a field name, which the browser ignores.\<close>

lemma sse_cut_at_carriage_return:
  "sse_lines [] (sse_event (''10%'' @ [CHR 0x0D] @ ''20%'')) = [''data: 10%'', ''20%'', '''']"
  by (simp add: sse_event_def)

lemma sse_lines_event:
  assumes "CHR 0x0D \<notin> set l"
  shows "sse_lines [] (sse_event l) = [''data: '' @ map (\<lambda>c. if c = CHR 0x0A then CHR '' '' else c) l, '''']"
proof -
  let ?d = "''data: '' @ map (\<lambda>c. if c = CHR 0x0A then CHR '' '' else c) l"
  have "CHR 0x0A \<notin> set ?d" "CHR 0x0D \<notin> set ?d" using assms by auto
  from sse_lines_plain [OF this, of "[]" "[CHR 0x0A, CHR 0x0A]"] show ?thesis by (simp add: sse_event_def)
qed

section \<open>Properties\<close>



lemma map_filter_append: "List.map_filter f (xs @ ys) = List.map_filter f xs @ List.map_filter f ys"
  by (induction xs) (simp_all add: map_filter_simps split: option.split)

lemma read_samples:
  "CHR ''{'' \<notin> set fam \<Longrightarrow> List.map_filter read_sample (map (\<lambda>p. sample_line is_print fam (pi_Name p) (v p)) ps)
     = map (\<lambda>p. (fam, quote_body is_print (pi_Name p), v p)) ps"
  by (induction ps) (simp_all add: map_filter_simps read_sample_line)

lemma read_head: "CHR ''{'' \<notin> set fam \<union> set help \<union> set kind \<Longrightarrow> List.map_filter read_sample (family_head fam help kind) = []"
  by (simp add: map_filter_simps family_head_def read_sample_def index_byte_None [THEN iffD2])


end
