(* ===== verification/Web_Server.thy ===== *)
theory Web_Server
  imports Cli Web
begin

text \<open>
  Start and stop of the dashboard (\<open>Serve\<close> of \<open>internal/web/server.go\<close>, \<open>cmdWeb\<close> of
  \<open>cmd/gopm/main.go\<close>) as a step function: the main goroutine in its \<open>select\<close> and in
  \<open>http.Server.Shutdown\<close>, the goroutine in \<open>ListenAndServe\<close>, the error channel, the signals and the
  connections that are not idle. Of \<open>http.Server\<close> it has what its documentation says: \<open>Shutdown\<close> closes the
  listener, lets \<open>ListenAndServe\<close> return \<open>ErrServerClosed\<close> and polls until no connection is busy or the deadline has passed.
\<close>

section \<open>Model\<close>

text \<open>\<open>BReturned\<close> is the result of \<open>Serve\<close>; \<open>LReturned None\<close> is \<open>ErrServerClosed\<close>.\<close>

datatype serve_main = BSelect | BPolling | BDraining | BReturned "string option"
datatype listen_pc = LPrint | LBind | LAccept | LReturned "string option" | LDone

record web =
  wb_addr :: string
  wb_main :: serve_main
  wb_listen :: listen_pc
  wb_ctx :: bool
  wb_shut :: bool
  wb_open :: bool
  wb_busy :: nat
  wb_errCh :: "string option"
  wb_errClosed :: bool
  wb_out :: "string list"

definition web_New :: "string \<Rightarrow> web" where
  "web_New addr = \<lparr>wb_addr = addr, wb_main = BSelect, wb_listen = LPrint, wb_ctx = False, wb_shut = False, wb_open = False,
     wb_busy = 0, wb_errCh = None, wb_errClosed = False, wb_out = []\<rparr>"

datatype web_ev =
    BSignal | BPrint | BBind "string option" | BConn | BIdle | BAcceptError string | BReport
  | BShutdown | BPoll | BPollTimer | BDeadline | BError

definition deadline_text :: string where
  "deadline_text = ''context deadline exceeded''"

definition web_step :: "web_ev \<Rightarrow> web \<Rightarrow> web option" where
  "web_step e s =
     (case wb_main s of BReturned r \<Rightarrow> None | _ \<Rightarrow>
      (case e of
         BSignal \<Rightarrow> Some (s\<lparr>wb_ctx := True\<rparr>)
       | BPrint \<Rightarrow>
           (if wb_listen s = LPrint
            then Some (s\<lparr>wb_listen := LBind, wb_out := wb_out s @ [''gopm web: listening on http://'' @ wb_addr s]\<rparr>) else None)
       | BBind err \<Rightarrow>
           (if wb_listen s \<noteq> LBind then None
            else if wb_shut s then Some (s\<lparr>wb_listen := LReturned None\<rparr>)
            else (case err of None \<Rightarrow> Some (s\<lparr>wb_listen := LAccept, wb_open := True\<rparr>)
              | Some m \<Rightarrow> Some (s\<lparr>wb_listen := LReturned (Some m)\<rparr>)))
       | BConn \<Rightarrow> (if wb_listen s = LAccept \<and> wb_open s then Some (s\<lparr>wb_busy := Suc (wb_busy s)\<rparr>) else None)
       | BIdle \<Rightarrow> (if 0 < wb_busy s then Some (s\<lparr>wb_busy := wb_busy s - 1\<rparr>) else None)
       | BAcceptError m \<Rightarrow>
           (if wb_listen s = LAccept then Some (s\<lparr>wb_listen := LReturned (if wb_shut s then None else Some m)\<rparr>) else None)
       | BReport \<Rightarrow>
           (case wb_listen s of LReturned r \<Rightarrow> Some (s\<lparr>wb_listen := LDone, wb_errCh := r, wb_errClosed := True\<rparr>) | _ \<Rightarrow> None)
       | BShutdown \<Rightarrow>
           (if wb_main s = BSelect \<and> wb_ctx s then Some (s\<lparr>wb_main := BPolling, wb_shut := True, wb_open := False\<rparr>) else None)
       | BPoll \<Rightarrow>
           (if wb_main s = BPolling then Some (s\<lparr>wb_main := (if wb_busy s = 0 then BReturned None else BDraining)\<rparr>) else None)
       | BPollTimer \<Rightarrow> (if wb_main s = BDraining then Some (s\<lparr>wb_main := BPolling\<rparr>) else None)
       | BDeadline \<Rightarrow> (if wb_main s = BDraining then Some (s\<lparr>wb_main := BReturned (Some deadline_text)\<rparr>) else None)
       | BError \<Rightarrow> (if wb_main s = BSelect \<and> wb_errClosed s then Some (s\<lparr>wb_main := BReturned (wb_errCh s)\<rparr>) else None)))"

abbreviation run_web :: "web_ev list \<Rightarrow> web \<Rightarrow> web option" where
  "run_web \<equiv> run_steps web_step"

section \<open>Invariant\<close>

text \<open>The error channel is closed without an error only after a shutdown has begun, and a shutdown
  begins only after a signal.\<close>

definition web_inv :: "web \<Rightarrow> bool" where
  "web_inv s \<longleftrightarrow>
     (wb_main s = BSelect \<longrightarrow> \<not> wb_shut s) \<and> (wb_main s = BPolling \<or> wb_main s = BDraining \<longrightarrow> wb_shut s)
     \<and> (wb_shut s \<longrightarrow> wb_ctx s \<and> \<not> wb_open s)
     \<and> (\<not> wb_shut s \<longrightarrow> wb_listen s \<noteq> LReturned None \<and> (wb_errClosed s \<longrightarrow> wb_errCh s \<noteq> None))
     \<and> (wb_main s = BReturned None \<longrightarrow> wb_shut s \<and> wb_busy s = 0)"

lemma web_step_running: "web_step e s = Some s' \<Longrightarrow> wb_main s \<noteq> BReturned r"
  by (auto simp: web_step_def)

lemma web_step_inv: "web_step e s = Some s' \<Longrightarrow> web_inv s \<Longrightarrow> web_inv s'"
  by (cases e; cases "wb_main s") (auto simp: web_step_def web_inv_def split: if_splits option.splits listen_pc.splits)

interpretation dashboard: transition_system "\<lambda>s. s = web_New addr" web_step web_inv
  by unfold_locales (auto simp: web_step_inv, simp add: web_New_def web_inv_def)

text \<open>Where an error comes from.\<close>

definition raised :: "web_ev set \<Rightarrow> string \<Rightarrow> bool" where
  "raised E m \<longleftrightarrow> BBind (Some m) \<in> E \<or> BAcceptError m \<in> E"

definition web_cause :: "web_ev set \<Rightarrow> web \<Rightarrow> bool" where
  "web_cause E s \<longleftrightarrow> (wb_ctx s \<longrightarrow> BSignal \<in> E)
     \<and> (\<forall>m. wb_listen s = LReturned (Some m) \<or> wb_errCh s = Some m \<longrightarrow> raised E m)
     \<and> (\<forall>m. wb_main s = BReturned (Some m) \<longrightarrow> raised E m \<or> m = deadline_text \<and> BSignal \<in> E \<and> BDeadline \<in> E)"

lemma web_cause_step: "web_step e s = Some s' \<Longrightarrow> web_cause E s \<Longrightarrow> web_inv s \<Longrightarrow> e \<in> E \<Longrightarrow> web_cause E s'"
  by (cases e; cases "wb_main s")
    (auto simp: web_step_def web_cause_def web_inv_def raised_def split: if_splits option.splits listen_pc.splits)

lemma web_cause_run: "run_web es s = Some s' \<Longrightarrow> web_cause E s \<Longrightarrow> web_inv s \<Longrightarrow> set es \<subseteq> E \<Longrightarrow> web_cause E s'"
proof (induction es arbitrary: s)
  case (Cons e es)
  then obtain s1 where s1: "web_step e s = Some s1" "run_web es s1 = Some s'" by (auto split: option.splits)
  then show ?case using Cons web_cause_step [OF s1(1)] web_step_inv [OF s1(1)] by simp
qed simp

lemma web_outcome:
  assumes "run_web es (web_New addr) = Some s" and "wb_main s = BReturned r"
  shows "case r of None \<Rightarrow> BSignal \<in> set es \<and> wb_busy s = 0
    | Some m \<Rightarrow> raised (set es) m \<or> m = deadline_text \<and> BSignal \<in> set es \<and> BDeadline \<in> set es"
proof -
  have inv: "web_inv s" using dashboard.reach_inv [OF refl assms(1)] .
  have "web_cause (set es) (web_New addr)" by (simp add: web_cause_def web_New_def)
  then have "web_cause (set es) s" using web_cause_run [OF assms(1)] dashboard.init_inv by blast
  then show ?thesis using assms(2) inv by (auto simp: web_cause_def web_inv_def split: option.splits)
qed

text \<open>After a signal the server is never stuck: three steps of the main goroutine are enough, the last
  of which may be the deadline.\<close>

lemma web_interrupt_returns:
  assumes "web_inv s" and "wb_ctx s" and "\<And>r. wb_main s \<noteq> BReturned r"
  shows "\<exists>es s' r. length es \<le> 3 \<and> set es \<subseteq> {BShutdown, BPoll, BDeadline} \<and> run_web es s = Some s' \<and> wb_main s' = BReturned r"
proof -
  have poll: "\<exists>es s' r. length es \<le> 2 \<and> set es \<subseteq> {BPoll, BDeadline} \<and> run_web es s = Some s' \<and> wb_main s' = BReturned r"
    if "wb_main s = BPolling" for s
  proof (cases "wb_busy s = 0")
    case True
    then show ?thesis using that by (intro exI [of _ "[BPoll]"]) (simp add: web_step_def)
  next
    case False
    then show ?thesis using that by (intro exI [of _ "[BPoll, BDeadline]"]) (simp add: web_step_def)
  qed
  show ?thesis
  proof (cases "wb_main s")
    case BSelect
    then obtain s1 where s1: "web_step BShutdown s = Some s1" "wb_main s1 = BPolling" using assms(2) by (simp add: web_step_def)
    obtain es s' r where "length es \<le> 2" "set es \<subseteq> {BPoll, BDeadline}" "run_web es s1 = Some s'" "wb_main s' = BReturned r"
      using poll [OF s1(2)] by blast
    then show ?thesis using s1(1) by (intro exI [of _ "BShutdown # es"]) auto
  next
    case BPolling
    obtain es s' r where "length es \<le> 2" "set es \<subseteq> {BPoll, BDeadline}" "run_web es s = Some s'" "wb_main s' = BReturned r"
      using poll [OF BPolling] by blast
    then show ?thesis by (intro exI [of _ es]) auto
  next
    case BDraining
    then show ?thesis by (intro exI [of _ "[BDeadline]"]) (simp add: web_step_def)
  qed (use assms(3) in simp)
qed

text \<open>A page that follows a log keeps its connection busy: its handler waits for the end of the log
  or of the connection, not for the shutdown. Then the deadline is the only way out.\<close>

lemma web_open_stream:
  assumes "run_web es s = Some s'" and "web_inv s" and "wb_shut s" and "0 < wb_busy s"
    and "wb_main s = BPolling \<or> wb_main s = BDraining" and "BIdle \<notin> set es" and "wb_main s' = BReturned r"
  shows "r = Some deadline_text"
  using assms
proof (induction es arbitrary: s)
  case Nil
  then show ?case by auto
next
  case (Cons e es)
  then obtain s1 where s1: "web_step e s = Some s1" "run_web es s1 = Some s'" by (auto split: option.splits)
  have kept: "0 < wb_busy s1 \<and> wb_shut s1 \<and> (wb_main s1 = BPolling \<or> wb_main s1 = BDraining \<or> wb_main s1 = BReturned (Some deadline_text))"
    using s1(1) Cons.prems(2-6)
    by (cases e) (auto simp: web_step_def web_inv_def split: if_splits option.splits listen_pc.splits)
  show ?case
  proof (cases "wb_main s1 = BReturned (Some deadline_text)")
    case True
    then have "es = []" using s1(2) by (cases es) (auto simp: web_step_def)
    then show ?thesis using s1(2) True Cons.prems(7) by simp
  next
    case False
    then show ?thesis using Cons.IH [OF s1(2) web_step_inv [OF s1(1) Cons.prems(2)]] kept Cons.prems(6,7) by simp
  qed
qed

section \<open>Properties\<close>

text \<open>C27. \<open>gopm web --port=p\<close> serves on the port it was given and tells by its exit code how it ended: 0 only
  after a signal, when every request had been answered; 1 with the error when the port could not be
  bound or the listener failed, and also when a request was still open five seconds after the signal.\<close>

theorem web_command_exit:
  assumes "run_web es (web_New (''127.0.0.1:'' @ int_dec port)) = Some s" and "wb_main s = BReturned r"
    and "ce_web env (''127.0.0.1:'' @ int_dec port) = (wb_out s, r)" and "nt_ping net w = (w1, True)"
    and "- (2 ^ 63) \<le> port" and "port < 2 ^ 63"
  shows "run_command env net customHost addr (CWeb [''--port='' @ int_dec port]) w
      = (w1, case r of None \<Rightarrow> cli_ok (map Line (wb_out s)) | Some m \<Rightarrow> die (map Line (wb_out s)) m)
    \<and> (case r of None \<Rightarrow> BSignal \<in> set es \<and> wb_busy s = 0
       | Some m \<Rightarrow> BBind (Some m) \<in> set es \<or> BAcceptError m \<in> set es
           \<or> m = ''context deadline exceeded'' \<and> BSignal \<in> set es \<and> BDeadline \<in> set es)"
proof -
  have "flag_parse web_flags [''--'' @ ''port'' @ ''='' @ int_dec port] = map_sum id (apfst (Cons (''port'', int_dec port))) (flag_parse web_flags [])"
    by (rule flag_parse_int) (use assms(5,6) in \<open>auto simp: web_flags_def\<close>)
  then have p: "flag_parse web_flags [''--port='' @ int_dec port] = Inr ([(''port'', int_dec port)], [])" by simp
  have "flag_int ''port'' 6120 [(''port'', int_dec port)] = port"
    using parse_int0_int_dec assms(5,6) by (simp add: flag_int_def)
  then have "run_command env net customHost addr (CWeb [''--port='' @ int_dec port]) w
      = (w1, case r of None \<Rightarrow> cli_ok (map Line (wb_out s)) | Some m \<Rightarrow> die (map Line (wb_out s)) m)"
    using assms(3,4) by (cases r) (simp_all add: run_command_def cmdWeb_def p [simplified])
  then show ?thesis using web_outcome [OF assms(1,2)] by (simp add: raised_def deadline_text_def split: option.splits)
qed

definition web_env :: cli_env where
  "web_env = demo_env\<lparr>ce_web := (\<lambda>a. ([''gopm web: listening on http://'' @ a], Some ''context deadline exceeded''))\<rparr>"

theorem web_command_exit_witness:
  "run_command web_env demo_net False DefaultAddr (CWeb [''--port='' @ int_dec 8080]) (0 :: nat, False)
     = ((0, False), die [Line (''gopm web: listening on http://127.0.0.1:'' @ int_dec 8080)] ''context deadline exceeded'')"
proof -
  let ?es = "[BPrint, BBind None, BConn, BSignal, BShutdown, BPoll, BDeadline]" and ?a = "''127.0.0.1:'' @ int_dec 8080"
  obtain s where s: "run_web ?es (web_New ?a) = Some s" "wb_main s = BReturned (Some ''context deadline exceeded'')"
      "wb_out s = [''gopm web: listening on http://'' @ ?a]"
    by (simp add: web_step_def web_New_def deadline_text_def)
  from web_command_exit [OF s(1,2), of web_env demo_net "(0 :: nat, False)" "(0, False)"] s(3) show ?thesis
    by (simp add: web_env_def demo_net_def)
qed

text \<open>So an interrupt of the dashboard while a page follows a log, without another change, always ends
  in an error.\<close>

lemma interrupt_with_open_log_page_fails:
  assumes "run_web [BPrint, BBind None, BConn, BSignal, BShutdown] (web_New addr) = Some s"
    and "run_web es s = Some s'" and "BIdle \<notin> set es" and "wb_main s' = BReturned r"
  shows "r = Some ''context deadline exceeded''"
proof -
  have "web_inv s" using dashboard.reach_inv [OF refl assms(1)] .
  moreover have "wb_shut s \<and> 0 < wb_busy s \<and> wb_main s = BPolling" using assms(1) by (auto simp: web_step_def web_New_def)
  ultimately show ?thesis using web_open_stream [OF assms(2) _ _ _ _ assms(3,4)] by (simp add: deadline_text_def)
qed

end
