(* ===== verification/Json_Output.thy ===== *)
theory Json_Output
  imports Cli_Exec Web_Server
begin

text \<open>
  The JSON the program prints for others: \<open>gopm list --json\<close> and \<open>gopm logs --json\<close> (\<open>printJSON\<close> of
  \<open>cmd/gopm/main.go\<close>, indented) and the bodies of the dashboard's answers (\<open>internal/web/server.go\<close>,
  compact). A reader of that output gets what the daemon said.
\<close>

section \<open>Model\<close>

definition printJSON :: "json \<Rightarrow> string" where
  "printJSON v = indent_text v @ [newline]"

text \<open>The nil slice of a daemon without processes is \<open>null\<close>.\<close>

definition enc_infos :: "float_text \<Rightarrow> ProcessInfo list \<Rightarrow> json" where
  "enc_infos fl ps = (if ps = [] then JNull else JArr (map (enc_info fl) ps))"

definition enc_logs :: "string \<Rightarrow> string list \<Rightarrow> json" where
  "enc_logs name ls = JObj [(''name'', JStr name), (''logs'', enc_strings ls)]"

definition line_text :: "float_text \<Rightarrow> cli_line \<Rightarrow> string option" where
  "line_text fl l =
     (case l of Line s \<Rightarrow> Some (s @ [newline]) | JsonProcs ps \<Rightarrow> Some (printJSON (enc_infos fl ps))
      | JsonLogs name ls \<Rightarrow> Some (printJSON (enc_logs name ls)) | _ \<Rightarrow> None)"

text \<open>A JSON answer of the dashboard; the keys of the map are sorted.\<close>

definition web_body :: "float_text \<Rightarrow> web_resp \<Rightarrow> string option" where
  "web_body fl r =
     (case r of ProcessesJson ps \<Rightarrow> Some (marshal_text (enc_infos fl ps) @ [newline])
      | ActionJson msg \<Rightarrow> Some (marshal_text (enc_map [(''status'', ''ok''), (''message'', msg)]) @ [newline])
      | _ \<Rightarrow> None)"

text \<open>What a reader in Go makes of the list: \<open>Unmarshal\<close> into a slice of \<open>ProcessInfo\<close>.\<close>

definition read_infos :: "float_text \<Rightarrow> string \<Rightarrow> ProcessInfo list option" where
  "read_infos fl s = Option.bind (parse_json s) (\<lambda>j. dec_slice (dec_struct (info_fields fl)) zero_info j [])"

section \<open>Lemmas\<close>

lemma wire_info_idem [simp]: "wire_info (wire_info p) = wire_info p"
  by (simp add: wire_info_def)

lemma wire_info_nums: "info_nums fl p \<Longrightarrow> info_nums fl (wire_info p)"
  by (simp add: info_nums_def wire_info_def)

lemma writable_infos: "list_all (info_nums fl) ps \<Longrightarrow> writable max_depth (enc_infos fl ps)"
  by (auto simp: enc_infos_def enc_info_def max_depth_def list_all_iff info_nums_def float_passes_def)

lemma dec_infos: "list_all (info_nums fl) ps \<Longrightarrow>
    dec_slice (dec_struct (info_fields fl)) zero_info (fix_json (enc_infos fl ps)) [] = Some (map wire_info ps)"
  using dec_elems_fresh [of ps "dec_struct (info_fields fl)" "\<lambda>p. fix_json (enc_info fl p)" zero_info wire_info]
  by (simp add: enc_infos_def dec_slice_def list_all_iff dec_info_enc comp_def)

lemma read_infos_text:
  assumes "blank_layout ly" and "list_all (info_nums fl) ps"
  shows "read_infos fl (json_text ly 0 (enc_infos fl ps) @ [newline]) = Some (map wire_info ps)"
  using parse_json_blank [OF assms(1) writable_infos [OF assms(2)], of "[newline]" 0] dec_infos [OF assms(2)]
  by (simp add: read_infos_def newline_def json_space_def)

lemma wire_plain: "list_all ascii cmd \<Longrightarrow> wire_request (request cmd) = request cmd"
  by (simp add: wire_request_def request_def fix_ascii)

lemma list_sent:
  assumes "list_all (info_nums fl) (api_infos api s)"
  shows "daemon_send (json_codec fl why why') api ck (request ''list'') (s, b) = ((s, b), Inr ((ok_resp [])\<lparr>rs_Processes := map wire_info (api_infos api s)\<rparr>))"
proof -
  have w: "wire_request (request ''list'') = request ''list''" by (simp add: wire_plain ascii_def)
  show ?thesis
    using json_send_answer [of api ck "request ''list''" s s "(ok_resp [])\<lparr>rs_Processes := api_infos api s\<rparr>" fl why why' b, unfolded w] assms
    by (simp add: Handler_def request_def is_stream_def request_ints_def go_int_def ok_resp_def wire_response_def)
qed

lemma ping_sent: "nt_ping (daemon_net (json_codec fl why why') api ck net) (s, b) = ((s, b), True)"
proof -
  have "daemon_send (json_codec fl why why') api ck (request ''ping'') (s, b) = ((s, b), Inr (wire_response (ok_resp ''pong'')))"
    by (rule json_send_answer) (simp_all add: wire_plain ascii_def, simp_all add: Handler_def request_def is_stream_def request_ints_def go_int_def ok_resp_def)
  then show ?thesis by (simp add: daemon_net_def)
qed

lemma json_flag: "flag_parse list_flags [''--json''] = Inr ([(''json'', ''true'')], [])"
  by (simp add: flag_parse.simps(2) has_prefix_def split_flag_def list_flags_def)

lemma print_json_list: "print_list tty [(''json'', ''true'')] ps = [JsonProcs ps]"
  by (simp add: print_list_def flag_set_def flag_value_def parse_bool_def)

lemma processes_route: "mux_route ''/api/processes'' = RProcesses"
proof -
  have p: "''/api/processes'' = render [''api'', ''processes'']" by (simp add: render_def)
  have "clean_url ''/api/processes'' = ''/api/processes''" unfolding p by (rule clean_url_render) (simp_all add: norm_comp_def)
  then show ?thesis by (simp add: mux_route_def)
qed

section \<open>Properties\<close>

text \<open>C31. The output of \<open>gopm list --json\<close> and the body of \<open>/api/processes\<close> are the daemon's list: read back,
  either text gives every process the supervisor lists, in order, with every field (bytes that are not
  UTF-8 replaced), for an empty list as for any other.\<close>

theorem list_json_reads_back:
  assumes "list_all (info_nums fl) (api_infos api s)"
  shows "(\<exists>l out. run_command env (daemon_net (json_codec fl why why') api ck net) customHost addr (CList [''--json'']) (s, b) = ((s, b), cli_ok [l])
       \<and> line_text fl l = Some out \<and> read_infos fl out = Some (map wire_info (api_infos api s)))
     \<and> (\<exists>r body. web_serve is_print (daemon_send (json_codec fl why why') api ck) stream verb ''/api/processes'' (s, b) = ((s, b), r)
       \<and> web_body fl r = Some body \<and> read_infos fl body = Some (map wire_info (api_infos api s)))"
proof -
  let ?ps = "map wire_info (api_infos api s)" and ?send = "daemon_send (json_codec fl why why') api ck"
  have nums: "list_all (info_nums fl) ?ps" using assms wire_info_nums by (auto simp: list_all_iff)
  have sent: "?send (request ''list'') (s, b) = ((s, b), Inr ((ok_resp [])\<lparr>rs_Processes := ?ps\<rparr>))" by (rule list_sent [OF assms])
  have reads: "read_infos fl (printJSON (enc_infos fl ?ps)) = Some ?ps" "read_infos fl (marshal_text (enc_infos fl ?ps) @ [newline]) = Some ?ps"
    using read_infos_text [OF _ nums] by (simp_all add: printJSON_def indent_text_def marshal_text_def comp_def)
  have "run_command env (daemon_net (json_codec fl why why') api ck net) customHost addr (CList [''--json'']) (s, b)
      = ((s, b), cli_ok [JsonProcs ?ps])"
    using sent ping_sent [of fl why why' api ck net s b] json_flag print_json_list
    by (simp add: run_command_def cmdList_def checkResp_def ok_resp_def) (simp add: daemon_net_def)
  moreover have "line_text fl (JsonProcs ?ps) = Some (printJSON (enc_infos fl ?ps))" by (simp add: line_text_def)
  moreover have "web_serve is_print ?send stream verb ''/api/processes'' (s, b) = ((s, b), ProcessesJson ?ps)"
    using sent by (simp add: web_serve_def processes_route handleProcesses_def ok_resp_def)
  moreover have "web_body fl (ProcessesJson ?ps) = Some (marshal_text (enc_infos fl ?ps) @ [newline])" by (simp add: web_body_def)
  ultimately show ?thesis using reads by blast
qed

text \<open>A process at 1.5 percent of a processor, and the text of that number.\<close>

definition busy_info :: ProcessInfo where
  "busy_info = zero_info\<lparr>pi_ID := 1, pi_Name := ''a'', pi_Status := ''online'', pi_PID := 7, pi_Memory := 2 ^ 20, pi_CPU := 3 / 2\<rparr>"

definition half_text :: float_text where
  "half_text = \<lparr>ft_write = (\<lambda>_. ''1.5''), ft_read = (\<lambda>s. if s = ''1.5'' then Some (3 / 2) else None)\<rparr>"

theorem list_json_reads_back_witness:
  "\<exists>l out. run_command demo_env (daemon_net (json_codec half_text syntax_error syntax_error) (demo_api\<lparr>api_infos := (\<lambda>s. [busy_info])\<rparr>) demo_clock demo_net)
       False DefaultAddr (CList [''--json'']) (logger_New no_files 0, False) = ((logger_New no_files 0, False), cli_ok [l])
     \<and> line_text half_text l = Some out \<and> read_infos half_text out = Some [busy_info]"
proof -
  have "float_passes half_text (3 / 2)"
    by (simp add: float_passes_def half_text_def number_def sign_part_def int_part_def frac_part_def exp_part_def starts_digit_def
        span_digits_def is_digit_def)
  then have "info_nums half_text busy_info"
    by (simp add: info_nums_def busy_info_def zero_info_def go_int_def)
  moreover have "wire_info busy_info = busy_info" by (simp add: busy_info_def wire_info_def zero_info_def fix_ascii ascii_def)
  ultimately show ?thesis
    using list_json_reads_back [of half_text "demo_api\<lparr>api_infos := (\<lambda>s. [busy_info])\<rparr>" "logger_New no_files 0" demo_env syntax_error syntax_error
        demo_clock demo_net False DefaultAddr False] by simp
qed

text \<open>What a daemon without processes prints.\<close>

lemma no_processes_is_null: "printJSON (enc_infos fl []) = ''null'' @ [newline]"
  by (simp add: printJSON_def enc_infos_def indent_text_def)

end
