(* ===== verification/Daemon.thy ===== *)
theory Daemon
  imports System_Props State_Store Env_File Json_Wire
begin

unbundle bit_operations_syntax

text \<open>
  The daemon process (\<open>cmd/gopmd/main.go\<close>): restoring the saved apps at start-up, and what it asks
  of the operating system (\<open>internal/process\<close>: killing a process group; \<open>internal/daemon\<close>: the
  detached launch and its marker in the environment). The snapshots the supervisor saves have
  distinct names in every reachable state, so a new daemon restores every app.
\<close>

section \<open>Signals and the launch\<close>

datatype signal = SIGINT | SIGTERM | SIGKILL

datatype kill_call = KillNothing | SignalProcess int signal | KillGroup int signal

text \<open>\<open>Kill\<close> on Unix: \<open>pid\<close> is \<open>None\<close> before the command has started; \<open>getpgid\<close> may fail.\<close>

definition Kill :: "(int \<Rightarrow> string + int) \<Rightarrow> int option \<Rightarrow> bool \<Rightarrow> kill_call" where
  "Kill getpgid pid force =
     (case pid of None \<Rightarrow> KillNothing
      | Some p \<Rightarrow>
          (let sig = (if force then SIGKILL else SIGTERM) in
           case getpgid p of Inl e \<Rightarrow> SignalProcess p sig | Inr pgid \<Rightarrow> KillGroup (- pgid) sig))"

text \<open>On Windows, the arguments of \<open>taskkill\<close>.\<close>

definition Kill_windows :: "int option \<Rightarrow> bool \<Rightarrow> string list option" where
  "Kill_windows pid force =
     map_option (\<lambda>p. [''/T''] @ (if force then [''/F''] else []) @ [''/PID'', int_dec p]) pid"

text \<open>A child runs in a process group of its own, by an attribute of its command.\<close>

datatype SysProcAttr = Setpgid bool | CreationFlags "32 word"

definition CREATE_NEW_PROCESS_GROUP :: "32 word" where
  "CREATE_NEW_PROCESS_GROUP = 0x00000200"

definition SetSysProcAttr :: "Cmd \<Rightarrow> Cmd \<times> SysProcAttr" where
  "SetSysProcAttr cmd = (cmd, Setpgid True)"

definition SetSysProcAttr_windows :: "Cmd \<Rightarrow> Cmd \<times> SysProcAttr" where
  "SetSysProcAttr_windows cmd = (cmd, CreationFlags CREATE_NEW_PROCESS_GROUP)"

text \<open>The signals that shut the daemon down.\<close>

definition shutdownSignals :: "signal list" where
  "shutdownSignals = [SIGINT, SIGTERM]"

definition shutdownSignals_windows :: "signal list" where
  "shutdownSignals_windows = [SIGINT]"

definition envMarker :: string where
  "envMarker = ''GOPM_DAEMON=1''"

definition Spawn :: "string list \<Rightarrow> string \<Rightarrow> string list \<Rightarrow> Cmd" where
  "Spawn base binary args = \<lparr>cm_Path = binary, cm_Args = args, cm_Dir = [], cm_Env = Some (base @ [envMarker])\<rparr>"

text \<open>On Windows, with the creation flags \<open>CREATE_NEW_PROCESS_GROUP\<close> and \<open>createNoWindow\<close>.\<close>

definition createNoWindow :: "32 word" where
  "createNoWindow = 0x08000000"

definition Spawn_windows :: "string list \<Rightarrow> string \<Rightarrow> string list \<Rightarrow> Cmd \<times> 32 word" where
  "Spawn_windows base binary args = (Spawn base binary args, CREATE_NEW_PROCESS_GROUP OR createNoWindow)"

definition IsDaemonChild :: "(string \<Rightarrow> string option) \<Rightarrow> bool" where
  "IsDaemonChild getenv = (getenv ''GOPM_DAEMON'' = Some ''1'')"

text \<open>A spawned daemon knows that it was spawned, whatever the environment of the CLI held.\<close>

lemma spawned_is_daemon_child: "IsDaemonChild (child_env base (cm_Env (Spawn base' binary args)))"
  by (simp add: IsDaemonChild_def child_env_def Spawn_def env_of_def envMarker_def eq_sign_def has_prefix_def)

section \<open>Restoring the saved apps\<close>

text \<open>The loop of \<open>main\<close>: a failing start is logged and the next app is started.\<close>

fun restore :: "(AppConfig \<Rightarrow> 's \<Rightarrow> 's \<times> string option) \<Rightarrow> PersistedApp list \<Rightarrow> 's \<Rightarrow> 's \<times> string list" where
  "restore start [] s = (s, [])"
| "restore start (a # as) s =
     (case start (pa_Config a) s of (s1, e) \<Rightarrow>
        (case restore start as s1 of (s2, out) \<Rightarrow>
          (s2, (case e of None \<Rightarrow> [] | Some m \<Rightarrow> [''restore '' @ ac_Name (pa_Config a) @ '': '' @ m]) @ out)))"

text \<open>The start of \<open>main\<close> up to serving: what the state file gives, and the lines that are logged.\<close>

datatype boot_line = LoadWarning load_error | BootLine string

definition boot :: "(AppConfig \<Rightarrow> 's \<Rightarrow> 's \<times> string option) \<Rightarrow> string \<Rightarrow> load_error + State \<Rightarrow> 's \<Rightarrow> 's \<times> boot_line list" where
  "boot start path loaded s =
     (case loaded of Inl e \<Rightarrow> (s, [LoadWarning e])
      | Inr st \<Rightarrow>
          if st_Apps st = [] then (s, [])
          else (case restore start (st_Apps st) s of (s', out) \<Rightarrow>
            (s', BootLine (''restoring '' @ nat_dec (length (st_Apps st)) @ '' app(s) from '' @ path) # map BootLine out)))"

text \<open>The file a spawned daemon logs to; the standard error when a step fails.\<close>

definition log_target :: "bool \<Rightarrow> string option \<Rightarrow> (string \<Rightarrow> bool) \<Rightarrow> (string \<Rightarrow> bool) \<Rightarrow> string option" where
  "log_target child home mkdir can_open =
     (if \<not> child then None
      else (case home of None \<Rightarrow> None
        | Some h \<Rightarrow>
           (let dir = path_join [h, ''.gopm'']; p = path_join [dir, ''gopmd.log''] in
            if mkdir dir \<and> can_open p then Some p else None)))"

text \<open>
  \<open>StartApp\<close> run to its end with no other goroutine in between, as \<open>main\<close> runs it before it serves:
  the request is task \<open>i\<close>, the registry is saved in the order \<open>ns\<close>.
\<close>

definition start_labels :: "nat \<Rightarrow> AppConfig \<Rightarrow> string list \<Rightarrow> label list" where
  "start_labels i cfg ns = [LCmd (TStart cfg), LOp i (OPort False), LOp i OGo, LOp i OGo, LOp i (OOrder ns), LOp i (OSaved True)]"

definition start_alone :: "(string \<Rightarrow> int option) \<Rightarrow> AppConfig \<Rightarrow> gopm \<Rightarrow> gopm \<times> string option" where
  "start_alone pd cfg s =
     (the (run_steps (sys_step pd) (start_labels (length (g_tasks s)) cfg (map fst (g_procs s) @ [ac_Name cfg])) s), None)"

definition to_state :: "snapshot \<Rightarrow> State" where
  "to_state sn = \<lparr>st_Apps = map (\<lambda>(c, r). \<lparr>pa_Config = c, pa_Restarts = r\<rparr>) sn\<rparr>"

section \<open>Snapshots have distinct names\<close>

definition distinct_names :: "snapshot \<Rightarrow> bool" where
  "distinct_names sn \<longleftrightarrow> distinct (map (\<lambda>(c, r). ac_Name c) sn)"

definition snaps_ok :: "gopm \<Rightarrow> bool" where
  "snaps_ok s \<longleftrightarrow> (\<forall>sn. g_saved s = Some sn \<or> TSave sn \<in> set (g_tasks s) \<longrightarrow> distinct_names sn)"

lemma snapshot_distinct:
  assumes "inv_reg s" and "range_order s ns"
  shows "distinct_names (take_snapshot s ns)"
proof -
  have "ac_Name (mp_Config (g_mps s (addr_of s n))) = n" if n: "n \<in> set ns" for n
  proof -
    have "n \<in> fst ` set (g_procs s)" using n assms(2) by (simp add: range_order_def)
    then obtain a where a: "(n, a) \<in> set (g_procs s)" by (auto simp: image_iff)
    then have "addr_of s n = a" using assms(1) by (simp add: addr_of_def lookup_def inv_reg_def)
    then show ?thesis using assms(1) a by (auto simp: inv_reg_def app_name_def)
  qed
  then have "map (\<lambda>(c, r). ac_Name c) (take_snapshot s ns) = ns"
    by (simp add: take_snapshot_def Let_def comp_def map_idI)
  then show ?thesis using assms(2) by (simp add: distinct_names_def range_order_def)
qed

lemma op_tr_snaps:
  assumes "op_tr e t s s' t' ts" and "inv_reg s" and "TSave sn = t' \<or> TSave sn \<in> set ts \<or> g_saved s' = Some sn"
  shows "distinct_names sn \<or> t = TSave sn \<or> g_saved s = Some sn"
  using assms
  by cases (auto simp: snapshot_distinct found_def stopped_to_def timed_out_to_def op_defs emit_def set_mp_def
      split: option.splits stop_kont.splits if_splits)

lemma put_task_snaps: "g_saved (put_task i t' ts s) = g_saved s" "TSave sn \<in> set (g_tasks (put_task i t' ts s)) \<Longrightarrow>
    TSave sn \<in> set (g_tasks s) \<or> TSave sn = t' \<or> TSave sn \<in> set ts"
  by (auto simp: put_task_def dest: set_update_subset_insert [THEN subsetD])

lemma sup_task_saved:
  assumes "sup_task_step pd e t s = Some (s1, t', ts)"
  shows "g_saved s1 = g_saved s \<and> g_tasks s1 = g_tasks s \<and> (\<forall>sn. t' \<noteq> TSave sn) \<and> ts = []"
proof (cases t)
  case (TGo a)
  then show ?thesis using assms by (auto split: if_split_asm)
next
  case (TSup a dn l)
  then obtain mp' l' as s2 where "sup_step (view_of pd s a) e (g_mps s a, l) = Some ((mp', l'), as)" "child_started e s = Some s2"
    and s1: "s1 = (if ACloseDone \<in> set as then close_done dn else (\<lambda>s. s)) (emit (map (OAct a) as) (set_mp a mp' s2))"
    and "t' = TSup a dn l'" "ts = []"
    using assms by (auto split: option.splits)
  moreover have "g_saved s2 = g_saved s \<and> g_tasks s2 = g_tasks s"
    using \<open>child_started e s = Some s2\<close> by (auto simp: child_started_def split: ev.splits if_splits)
  ultimately show ?thesis by (simp add: close_done_def emit_def set_mp_def)
qed (use assms in auto)

lemma snaps_step:
  assumes "sys_step pd lb s = Some s'" and "sys_inv s" and "snaps_ok s"
  shows "snaps_ok s'"
proof (cases lb)
  case (LCmd t)
  then show ?thesis using assms by (auto simp: sys_step_def snaps_ok_def is_request_def split: if_splits)
next
  case (LOp i e)
  then obtain s1 t' ts where i: "i < length (g_tasks s)" and st: "op_step e (g_tasks s ! i) s = Some (s1, t', ts)"
    and s': "s' = put_task i t' ts s1"
    using assms(1) by (auto simp: sys_step_def commit_put split: if_splits)
  have tr: "op_tr e (g_tasks s ! i) s s1 t' ts" using st by (rule op_step_tr)
  have tasks: "g_tasks s1 = g_tasks s" using op_tr_tasks [OF tr] .
  have reg: "inv_reg s" using assms(2) by (simp add: sys_inv_def)
  have old: "TSave sn = g_tasks s ! i \<or> TSave sn \<in> set (g_tasks s) \<or> g_saved s = Some sn \<Longrightarrow> distinct_names sn" for sn
    using assms(3) i nth_mem [OF i] unfolding snaps_ok_def by metis
  have "distinct_names sn" if "g_saved s' = Some sn \<or> TSave sn \<in> set (g_tasks s')" for sn
  proof -
    have "TSave sn \<in> set (g_tasks s) \<or> TSave sn = t' \<or> TSave sn \<in> set ts \<or> g_saved s1 = Some sn"
      using that put_task_snaps(2) [of sn i t' ts s1] unfolding s' tasks put_task_snaps(1) by blast
    then show ?thesis using op_tr_snaps [OF tr reg, of sn] old [of sn] by metis
  qed
  then show ?thesis by (simp add: snaps_ok_def)
next
  case (LSup i e)
  then obtain s1 t' ts where i: "i < length (g_tasks s)" and st: "sup_task_step pd e (g_tasks s ! i) s = Some (s1, t', ts)"
    and s': "s' = put_task i t' ts s1"
    using assms(1) by (auto simp: sys_step_def commit_put split: if_splits)
  have same: "g_saved s1 = g_saved s" "g_tasks s1 = g_tasks s" "\<And>sn. t' \<noteq> TSave sn" "ts = []"
    using sup_task_saved [OF st] by simp_all
  have "TSave sn \<in> set (g_tasks s)" if "TSave sn \<in> set (g_tasks s')" for sn
    using put_task_snaps(2) [of sn i t' ts s1] that same unfolding s' by auto
  then show ?thesis using assms(3) same(1) unfolding snaps_ok_def s' put_task_snaps(1) by metis
next
  case (LExit c)
  then show ?thesis using assms by (auto simp: sys_step_def snaps_ok_def split: if_splits)
next
  case (LRebuild a)
  then show ?thesis using assms by (auto simp: sys_step_def snaps_ok_def set_mp_def split: if_splits)
qed

interpretation saved: transition_system "\<lambda>s. s = New" "sys_step pd" "\<lambda>s. sys_inv s \<and> snaps_ok s"
  by unfold_locales (auto simp: New_inv sys_step_inv snaps_step, simp add: New_def snaps_ok_def)

section \<open>Starting the restored apps\<close>

text \<open>What a restored supervisor looks like: the apps in order, numbered from 0.\<close>

definition restored :: "AppConfig list \<Rightarrow> gopm \<Rightarrow> bool" where
  "restored cs s \<longleftrightarrow>
     g_procs s = zip (map ac_Name cs) [0..<length cs] \<and> g_nextID s = length cs
     \<and> (\<forall>a < length cs. mp_Config (g_mps s a) = cs ! a \<and> mp_restarts (g_mps s a) = 0)"

lemma lookup_zip_None: "n \<notin> set ns \<Longrightarrow> map_of (zip ns as) n = None"
  by (auto simp: map_of_eq_None_iff dest: set_zip_leftD)

lemma start_steps:
  assumes "lookup s (ac_Name cfg) = None" and "distinct (map fst (g_procs s))"
  shows "\<exists>s'. run_steps (sys_step pd) (start_labels (length (g_tasks s)) cfg (map fst (g_procs s) @ [ac_Name cfg])) s = Some s'
     \<and> g_procs s' = g_procs s @ [(ac_Name cfg, g_nextID s)] \<and> g_nextID s' = Suc (g_nextID s)
     \<and> g_mps s' = (g_mps s)(g_nextID s := newManagedProcess (g_nextID s) cfg (g_nextCh s) (g_nextCh s))
     \<and> g_saved s' = Some (take_snapshot s' (map fst (g_procs s')))"
proof -
  have "ac_Name cfg \<notin> fst ` set (g_procs s)"
    using assms(1) by (simp add: lookup_def map_of_eq_None_iff)
  then have "range_order s0 (map fst (g_procs s) @ [ac_Name cfg])" if "g_procs s0 = g_procs s @ [(ac_Name cfg, g_nextID s)]" for s0
    using that assms(2) by (simp add: range_order_def)
  then show ?thesis
    using assms(1)
    by (simp add: start_labels_def sys_step_def is_request_def commit_def start_app_def lookup_def register_def emit_def
        take_snapshot_def addr_of_def Let_def nth_append list_update_append comp_def)
qed

lemma restored_snoc:
  assumes "restored cs s" and "g_procs s' = g_procs s @ [(ac_Name cfg, g_nextID s)]" and "g_nextID s' = Suc (g_nextID s)"
    and "g_mps s' = (g_mps s)(g_nextID s := newManagedProcess (g_nextID s) cfg ch dn)"
  shows "restored (cs @ [cfg]) s'"
proof -
  have mp: "mp_Config (newManagedProcess a cfg ch dn) = cfg" "mp_restarts (newManagedProcess a cfg ch dn) = 0" for a
    by (simp_all add: newManagedProcess_def)
  have "g_procs s' = zip (map ac_Name (cs @ [cfg])) [0..<length (cs @ [cfg])]"
    using assms(1,2) by (simp add: restored_def)
  moreover have "mp_Config (g_mps s' a) = (cs @ [cfg]) ! a \<and> mp_restarts (g_mps s' a) = 0" if "a < length (cs @ [cfg])" for a
    using assms(1,4) that mp by (cases "a = length cs") (auto simp: restored_def nth_append)
  ultimately show ?thesis using assms(1,3) by (simp add: restored_def)
qed

lemma restore_from:
  assumes "restored cs s" and "distinct (map ac_Name (cs @ map pa_Config as))"
  shows "restored (cs @ map pa_Config as) (fst (restore (start_alone pd) as s)) \<and> snd (restore (start_alone pd) as s) = []"
  using assms
proof (induction as arbitrary: cs s)
  case (Cons a as)
  let ?c = "pa_Config a"
  have dist: "distinct (map fst (g_procs s))" using Cons.prems by (simp add: restored_def)
  have "ac_Name ?c \<notin> set (map ac_Name cs)" using Cons.prems(2) by auto
  then have "lookup s (ac_Name ?c) = None"
    using Cons.prems(1) lookup_zip_None [of "ac_Name ?c" "map ac_Name cs"] by (simp add: lookup_def restored_def)
  from start_steps [OF this dist, of pd] obtain s' where s': "start_alone pd ?c s = (s', None)"
    "g_procs s' = g_procs s @ [(ac_Name ?c, g_nextID s)]" "g_nextID s' = Suc (g_nextID s)"
    "g_mps s' = (g_mps s)(g_nextID s := newManagedProcess (g_nextID s) ?c (g_nextCh s) (g_nextCh s))"
    by (auto simp: start_alone_def)
  have "restored (cs @ [?c]) s'" using restored_snoc [OF Cons.prems(1) s'(2-4)] .
  then have "restored ((cs @ [?c]) @ map pa_Config as) (fst (restore (start_alone pd) as s')) \<and> snd (restore (start_alone pd) as s') = []"
    by (rule Cons.IH) (use Cons.prems(2) in simp)
  then show ?case by (simp add: s'(1) split_beta)
qed simp

lemma restore_new:
  assumes "distinct (map ac_Name (map pa_Config as))"
  shows "\<exists>s'. restore (start_alone pd) as New = (s', []) \<and> restored (map pa_Config as) s'"
proof -
  have "restored [] New" by (simp add: restored_def New_def)
  from restore_from [OF this, of as pd] assms show ?thesis by (metis append_Nil prod.collapse)
qed

text \<open>The restart counts of the state file are not restored.\<close>

lemma restart_counts_not_restored:
  assumes "distinct (map ac_Name (map pa_Config as))"
  shows "\<exists>s'. restore (start_alone pd) as New = (s', []) \<and> (\<forall>a < length as. mp_restarts (g_mps s' a) = 0)"
  using restore_new [OF assms, of pd] by (auto simp: restored_def)

lemma restored_apps:
  assumes "restored cs s"
  shows "map (\<lambda>(n, a). (n, mp_Config (g_mps s a))) (g_procs s) = map (\<lambda>c. (ac_Name c, c)) cs"
  using assms by (intro nth_equalityI) (auto simp: restored_def)

section \<open>Properties\<close>


lemma job_wire: "app_ints job" "utf8_app job"
  by (simp_all add: job_def zero_app_def app_ints_def go_int_def utf8_app_def utf8_ok_ascii ascii_def)


end
