(* ===== verification/Shutdown.thy ===== *)
theory Shutdown
  imports System_Props
begin

text \<open>
  What \<open>Shutdown\<close> of \<open>internal/supervisor/supervisor.go\<close> leaves behind: with no other command at work,
  every process of the registry is stopped when it returns; a start that is still at work is missed.
\<close>

section \<open>The progress of a shutdown\<close>

text \<open>No request arrives, no command but \<open>i\<close> moves, and no stop of \<open>i\<close> runs into its timeout.\<close>

definition only_shutdown :: "nat \<Rightarrow> label \<Rightarrow> bool" where
  "only_shutdown i lb = (case lb of LCmd t \<Rightarrow> False | LOp j e \<Rightarrow> j = i \<and> e \<noteq> OTimeout | _ \<Rightarrow> True)"

text \<open>Where the shutdown is, every process of \<open>A\<close> is stopped or still on its list.\<close>

definition left_to :: "nat set \<Rightarrow> gopm \<Rightarrow> nat set \<Rightarrow> bool" where
  "left_to A s B \<longleftrightarrow> (\<forall>a \<in> A. a \<in> B \<or> done_closed s a)"

fun shut_ok :: "nat set \<Rightarrow> gopm \<Rightarrow> task \<Rightarrow> bool" where
  "shut_ok A s (TShut as) = left_to A s (set as)"
| "shut_ok A s (TClose (KShutdown as) a) = left_to A s (insert a (set as))"
| "shut_ok A s (TKill (KShutdown as) a c) = left_to A s (insert a (set as))"
| "shut_ok A s (TWait (KShutdown as) a) = left_to A s (insert a (set as))"
| "shut_ok A s (TBlocked (KShutdown as) a dn) = (left_to A s (insert a (set as)) \<and> dn = mp_done (g_mps s a))"
| "shut_ok A s (TDone r) = (g_ctx s \<and> left_to A s {})"
| "shut_ok A s t = False"

text \<open>What the steps of others leave alone.\<close>

definition same_channels :: "gopm \<Rightarrow> gopm \<Rightarrow> bool" where
  "same_channels s s' \<longleftrightarrow> g_procs s' = g_procs s \<and> g_nextID s' = g_nextID s \<and> g_doneClosed s \<subseteq> g_doneClosed s'
     \<and> (\<forall>a. mp_done (g_mps s' a) = mp_done (g_mps s a)) \<and> (g_ctx s \<longrightarrow> g_ctx s')"

lemma left_to_same: "same_channels s s' \<Longrightarrow> left_to A s B \<Longrightarrow> left_to A s' B"
  by (auto simp: same_channels_def left_to_def done_closed_def)

lemma shut_ok_same: "same_channels s s' \<Longrightarrow> shut_ok A s t \<Longrightarrow> shut_ok A s' t"
  by (induction A s t rule: shut_ok.induct) (auto simp: same_channels_def intro: left_to_same [unfolded same_channels_def])

lemma sup_task_same:
  assumes "sup_task_step pd e (g_tasks s ! j) s = Some (s1, t', ts)" and "sys_inv s" and "j < length (g_tasks s)"
  shows "same_channels s s1"
  using assms(1)
proof (cases rule: sup_task_cases)
  case (starts a)
  then show ?thesis by (simp add: same_channels_def)
next
  case (moves a dn l mp' l' as s2)
  have "g_ctx s2 = g_ctx s" using moves(5) by (auto simp: child_started_def split: ev.splits if_splits)
  then show ?thesis using sup_moves(2,7) [OF assms(2,3) moves(1,4)]
    by (auto simp: same_channels_def moves(6) child_started_simps [OF moves(5)] close_done_def emit_def set_mp_def)
qed

lemma op_tr_shut:
  assumes "op_tr e t s s1 t' ts" and "e \<noteq> OTimeout" and "shut_ok A s t" and "addrs t \<subseteq> {..< g_nextID s}"
  shows "shut_ok A s1 t' \<and> same_channels s s1"
  using assms
proof (induction rule: op_tr.induct)
  case (acked dn s k a)
  then show ?case by (cases k) (auto simp: left_to_def stopped_to_def done_closed_def same_channels_def)
next
  case (close_nocmd s a k)
  then show ?case by (cases k) (auto simp: left_to_def done_closed_def same_channels_def request_stop_def close_stop_def Let_def)
next
  case (close_cmd s a c k)
  then show ?case by (cases k) (auto simp: left_to_def done_closed_def same_channels_def request_stop_def close_stop_def Let_def)
next
  case (kill k a c s)
  then show ?case by (cases k) (auto simp: left_to_def done_closed_def same_channels_def emit_def)
next
  case (wait k a s)
  then show ?case by (cases k) (auto simp: same_channels_def)
qed (auto simp: left_to_def done_closed_def same_channels_def)

lemma shut_step:
  assumes "sys_step pd lb s = Some s'" and "only_shutdown i lb" and "sys_inv s" and "i < length (g_tasks s)"
    and "shut_ok A s (g_tasks s ! i)"
  shows "i < length (g_tasks s') \<and> shut_ok A s' (g_tasks s' ! i) \<and> g_procs s' = g_procs s"
proof (cases lb)
  case (LCmd t)
  then show ?thesis using assms(2) by (simp add: only_shutdown_def)
next
  case (LOp j e)
  then have j: "j = i" "e \<noteq> OTimeout" using assms(2) by (simp_all add: only_shutdown_def)
  with LOp obtain s1 t' ts where st: "op_step e (g_tasks s ! i) s = Some (s1, t', ts)" and s': "s' = put_task i t' ts s1"
    using assms(1,4) by (auto simp: sys_step_def commit_put)
  note tr = op_step_tr [OF st]
  have "shut_ok A s1 t' \<and> same_channels s s1"
    using op_tr_shut [OF tr j(2) assms(5)] task_inv [OF assms(3,4)] by blast
  moreover from this have "same_channels s1 s'" by (simp add: same_channels_def s' put_task_def)
  ultimately show ?thesis using assms(4) op_tr_tasks [OF tr] shut_ok_same [of s1 s' A t']
    by (simp add: s' nth_append same_channels_def)
next
  case (LSup j e)
  then obtain s1 t' ts where j: "j < length (g_tasks s)" and st: "sup_task_step pd e (g_tasks s ! j) s = Some (s1, t', ts)"
    and s': "s' = put_task j t' ts s1"
    using assms(1) by (auto simp: sys_step_def commit_put split: if_splits)
  have "j \<noteq> i" using st assms(5) by (cases "g_tasks s ! i") auto
  have same: "same_channels s s1" using sup_task_same [OF st assms(3) j] .
  have tasks: "g_tasks s1 = g_tasks s" using sup_task_heap [OF st assms(3) j refl] by simp
  have "same_channels s s'" using same by (simp add: same_channels_def s' put_task_def)
  then show ?thesis using assms(4,5) \<open>j \<noteq> i\<close> tasks shut_ok_same [of s s' A]
    by (simp add: s' nth_append same_channels_def)
next
  case (LExit c)
  then have s': "s' = s\<lparr>g_alive := g_alive s - {c}\<rparr>" using assms(1) by (auto simp: sys_step_def split: if_splits)
  then have "same_channels s s'" by (simp add: same_channels_def)
  then show ?thesis using assms(4,5) shut_ok_same [of s s' A] by (simp add: s' same_channels_def)
next
  case (LRebuild a)
  then have s': "s' = set_mp a ((g_mps s a)\<lparr>mp_rebuildCh := True\<rparr>) s" using assms(1) by (auto simp: sys_step_def split: if_splits)
  then have "same_channels s s'" by (simp add: same_channels_def set_mp_def)
  then show ?thesis using assms(4,5) shut_ok_same [of s s' A] by (simp add: s' same_channels_def)
qed

lemma shut_run:
  "run_steps (sys_step pd) ls s = Some s' \<Longrightarrow> list_all (only_shutdown i) ls \<Longrightarrow> sys_inv s \<Longrightarrow> i < length (g_tasks s) \<Longrightarrow>
     shut_ok A s (g_tasks s ! i) \<Longrightarrow> sys_inv s' \<and> shut_ok A s' (g_tasks s' ! i) \<and> g_procs s' = g_procs s"
proof (induction ls arbitrary: s)
  case (Cons lb ls)
  then obtain s1 where s1: "sys_step pd lb s = Some s1" "run_steps (sys_step pd) ls s1 = Some s'"
    by (auto split: option.splits)
  have lb: "only_shutdown i lb" "list_all (only_shutdown i) ls" using Cons.prems(2) by simp_all
  note st = shut_step [OF s1(1) lb(1) Cons.prems(3-5)]
  show ?case using Cons.IH [OF s1(2) lb(2) sys_step_inv [OF s1(1) Cons.prems(3)]] st by simp
qed simp

section \<open>Properties\<close>

text \<open>A shutdown leaves nothing running: if no other command is at work from the moment it has
  listed the processes until it returns, and no stop times out, then no process of the registry has
  a supervise goroutine or a child when it returns, in whatever order they were listed and whatever the
  goroutines and children did in between, and the context is cancelled.\<close>

theorem shutdown_leaves_no_child:
  assumes "run_sys pd ls0 = Some s0" and "i < length (g_tasks s0)" and "g_tasks s0 ! i = TShut (map (addr_of s0) ns)"
    and "range_order s0 ns" and "run_steps (sys_step pd) ls s0 = Some s" and "list_all (only_shutdown i) ls"
    and "g_tasks s ! i = TDone r" and "(n, a) \<in> set (g_procs s)"
  shows "g_ctx s \<and> (\<forall>j. \<not> supervises s j a) \<and> (\<forall>c. \<not> has_child s a c)"
proof -
  have inv: "sys_inv s0" using assms(1) by (rule reach_sys_inv)
  have "a \<in> addr_of s0 ` set ns" if "(n, a) \<in> set (g_procs s0)" for n a
  proof -
    have "addr_of s0 n = a" using inv that by (simp add: addr_of_def lookup_def sys_inv_def inv_reg_def)
    moreover have "n \<in> set ns" using assms(4) that by (force simp: range_order_def)
    ultimately show ?thesis by blast
  qed
  then have "shut_ok (snd ` set (g_procs s0)) s0 (g_tasks s0 ! i)"
    using assms(3) by (force simp: left_to_def)
  from shut_run [OF assms(5,6) inv assms(2) this] assms(7)
  have s: "sys_inv s" "g_ctx s" "left_to (snd ` set (g_procs s0)) s {}" "g_procs s = g_procs s0" by simp_all
  then have "done_closed s a" using assms(8) by (force simp: left_to_def)
  then have none: "\<not> supervises s j a" for j
    using done_closed_no_owner [OF s(1)] supervises_owner by (metis less_irrefl)
  have "\<not> has_child s a c" for c
  proof
    assume "has_child s a c"
    then obtain j dn l where "j < length (g_tasks s)" "g_tasks s ! j = TSup a dn l" "child_of (l_pc l) = Some c"
      by (auto simp: has_child_iff)
    then have "supervises s j a" by (auto simp: supervises_def)
    with none show False by blast
  qed
  with none s(2) show ?thesis by blast
qed

definition shut_run_labels :: "label list" where
  "shut_run_labels = map (LOp 2) [OGo, OGo, OGo, OGo] @ down_run 1 0 @ map (LOp 2) [OGo, OGo]"

theorem shutdown_leaves_no_child_witness:
  "\<exists>s0 s. run_sys no_dur (start_run @ up_run 1 0 @ [LCmd TShutdown, LOp 2 (OOrder [''a''])]) = Some s0 \<and> g_alive s0 = {0}
     \<and> run_steps (sys_step no_dur) shut_run_labels s0 = Some s \<and> (''a'', 0) \<in> set (g_procs s)
     \<and> g_ctx s \<and> (\<forall>c. \<not> has_child s 0 c)"
proof -
  obtain s0 s where s0: "run_sys no_dur (start_run @ up_run 1 0 @ [LCmd TShutdown, LOp 2 (OOrder [''a''])]) = Some s0"
    "g_alive s0 = {0}" "2 < length (g_tasks s0)" "g_tasks s0 ! 2 = TShut (map (addr_of s0) [''a''])" "range_order s0 [''a'']"
    and s: "run_steps (sys_step no_dur) shut_run_labels s0 = Some s" "g_tasks s ! 2 = TDone None" "g_procs s = [(''a'', 0)]"
    by (simp add: run_defs shut_run_labels_def)
  have "list_all (only_shutdown 2) shut_run_labels" by (simp add: shut_run_labels_def down_run_def only_shutdown_def)
  then show ?thesis using shutdown_leaves_no_child [OF s0(1,3,4,5) s(1) _ s(2)] s0 s by auto
qed

text \<open>\<open>StartApp\<close> does not look at the flag \<open>Shutdown\<close> sets: a start that a handler still runs registers
  its app after the list was made. \<open>Shutdown\<close> returns, the daemon exits, and the child it
  started stays.\<close>

definition late_start_run :: "label list" where
  "late_start_run = [LCmd TShutdown, LOp 0 (OOrder []), LCmd (TStart job), LOp 0 OGo, LOp 1 (OPort False)]
     @ map (LOp 1) [OGo, OGo, OOrder [''a''], OSaved True] @ up_run 2 0"

lemma shutdown_misses_late_start:
  "\<exists>s. run_sys no_dur late_start_run = Some s \<and> g_stopped s \<and> g_ctx s \<and> g_tasks s ! 0 = TDone None \<and> g_tasks s ! 1 = TDone None
     \<and> has_child s 0 0 \<and> mp_status (g_mps s 0) = StatusOnline"
  by (simp add: late_start_run_def run_defs has_child_def)

end
