(* ===== verification/Ipc_Server.thy ===== *)
theory Ipc_Server
  imports Ipc
begin

text \<open>
  The accept loop of the daemon (\<open>Listen\<close>, \<open>Serve\<close>, \<open>Close\<close> of \<open>internal/ipc/server.go\<close>) as a step
  function: the socket, the context, the goroutine that closes the socket when the context is
  done, the handlers in flight (the wait group), and the control points of \<open>Serve\<close> and \<open>Close\<close>.
\<close>

section \<open>Model\<close>

text \<open>\<open>SAdd\<close>: a connection is accepted and not yet counted in the wait group.\<close>

datatype serve_pc = SNotCalled | SAccept | SAdd | SWait | SReturned "string option"
datatype close_pc = KIdle | KWait | KReturned

record server =
  sv_stream :: bool
  sv_listener :: bool
  sv_open :: bool
  sv_ctx :: bool
  sv_closer :: bool
  sv_inflight :: nat
  sv_serve :: serve_pc
  sv_close :: close_pc

definition NewServer :: server where
  "NewServer = \<lparr>sv_stream = False, sv_listener = False, sv_open = False, sv_ctx = False, sv_closer = False, sv_inflight = 0,
     sv_serve = SNotCalled, sv_close = KIdle\<rparr>"

datatype server_ev =
    VSetStreamHandler | VListen | VServe | VCancel | VCloser | VConn | VAdd | VAcceptError | VHandled | VDrained | VClose | VCloseDrained

text \<open>
  \<open>VConn\<close> and \<open>VAcceptError\<close> are what \<open>Accept\<close> returns: a connection needs an open socket, an error
  can come at any time and is all that comes from a closed one. The daemon listens once, first.
\<close>

fun server_step :: "server_ev \<Rightarrow> server \<Rightarrow> server option" where
  "server_step VSetStreamHandler s = Some (s\<lparr>sv_stream := True\<rparr>)"
| "server_step VListen s =
     (if sv_serve s = SNotCalled \<and> sv_close s = KIdle \<and> \<not> sv_listener s
      then Some (s\<lparr>sv_listener := True, sv_open := True\<rparr>) else None)"
| "server_step VServe s =
     (if sv_serve s \<noteq> SNotCalled then None
      else Some (if sv_listener s then s\<lparr>sv_serve := SAccept, sv_closer := True\<rparr>
                 else s\<lparr>sv_serve := SReturned (Some ''ipc: Serve called before Listen'')\<rparr>))"
| "server_step VCancel s = Some (s\<lparr>sv_ctx := True\<rparr>)"
| "server_step VCloser s = (if sv_closer s \<and> sv_ctx s then Some (s\<lparr>sv_closer := False, sv_open := False\<rparr>) else None)"
| "server_step VConn s =
     (if sv_serve s = SAccept \<and> sv_open s then Some (s\<lparr>sv_serve := SAdd\<rparr>) else None)"
| "server_step VAdd s =
     (if sv_serve s = SAdd then Some (s\<lparr>sv_serve := SAccept, sv_inflight := Suc (sv_inflight s)\<rparr>) else None)"
| "server_step VAcceptError s =
     (if sv_serve s = SAccept then Some (if sv_ctx s then s\<lparr>sv_serve := SWait\<rparr> else s) else None)"
| "server_step VHandled s = (if 0 < sv_inflight s then Some (s\<lparr>sv_inflight := sv_inflight s - 1\<rparr>) else None)"
| "server_step VDrained s =
     (if sv_serve s = SWait \<and> sv_inflight s = 0 then Some (s\<lparr>sv_serve := SReturned None\<rparr>) else None)"
| "server_step VClose s =
     (if sv_close s = KIdle then Some (s\<lparr>sv_listener := False, sv_open := sv_open s \<and> \<not> sv_listener s, sv_close := KWait\<rparr>) else None)"
| "server_step VCloseDrained s =
     (if sv_close s = KWait \<and> sv_inflight s = 0 then Some (s\<lparr>sv_close := KReturned\<rparr>) else None)"

abbreviation run_server :: "server_ev list \<Rightarrow> server \<Rightarrow> server option" where
  "run_server \<equiv> run_steps server_step"

section \<open>Invariant\<close>

definition server_inv :: "server \<Rightarrow> bool" where
  "server_inv s \<longleftrightarrow>
     (sv_serve s = SWait \<longrightarrow> sv_ctx s)
     \<and> (\<forall>r. sv_serve s = SReturned r \<longrightarrow> sv_inflight s = 0 \<and> (r = None \<longrightarrow> sv_ctx s))
     \<and> (sv_serve s = SNotCalled \<longrightarrow> sv_inflight s = 0)
     \<and> (sv_open s \<and> (sv_serve s = SAccept \<or> sv_serve s = SAdd) \<longrightarrow> sv_closer s)"

lemma server_step_inv:
  assumes step: "server_step e s = Some s'" and inv: "server_inv s"
  shows "server_inv s'"
proof (cases e)
  case VServe
  then have "s' = (if sv_listener s then s\<lparr>sv_serve := SAccept, sv_closer := True\<rparr>
      else s\<lparr>sv_serve := SReturned (Some ''ipc: Serve called before Listen'')\<rparr>) \<and> sv_serve s = SNotCalled"
    using step by (simp split: if_split_asm)
  then show ?thesis using inv by (simp add: server_inv_def)
next
  case VCloser
  then have "s' = s\<lparr>sv_closer := False, sv_open := False\<rparr>" using step by (simp split: if_split_asm)
  then show ?thesis using inv by (simp add: server_inv_def)
next
  case VConn
  then have "s' = s\<lparr>sv_serve := SAdd\<rparr> \<and> sv_serve s = SAccept" using step by (simp split: if_split_asm)
  then show ?thesis using inv by (simp add: server_inv_def)
next
  case VAdd
  then have "s' = s\<lparr>sv_serve := SAccept, sv_inflight := Suc (sv_inflight s)\<rparr> \<and> sv_serve s = SAdd" using step by (simp split: if_split_asm)
  then show ?thesis using inv by (simp add: server_inv_def)
next
  case VHandled
  then have "s' = s\<lparr>sv_inflight := sv_inflight s - 1\<rparr>" using step by (simp split: if_split_asm)
  then show ?thesis using inv by (simp add: server_inv_def)
qed (use step inv in \<open>auto simp: server_inv_def split: if_split_asm\<close>)

interpretation server: transition_system "\<lambda>s. s = NewServer" server_step server_inv
  by unfold_locales (auto simp: NewServer_def server_inv_def dest: server_step_inv)

section \<open>After the context is done\<close>

text \<open>What \<open>Serve\<close> still has to do: an accepted connection is counted, each handler ends, the closer
  runs, the accept fails, the wait ends.\<close>

definition serve_work :: "server \<Rightarrow> nat" where
  "serve_work s = sv_inflight s + (if sv_closer s then 1 else 0)
     + (case sv_serve s of SAdd \<Rightarrow> 4 | SAccept \<Rightarrow> 2 | SWait \<Rightarrow> 1 | _ \<Rightarrow> 0)"

definition serve_own :: "server_ev \<Rightarrow> bool" where
  "serve_own e \<longleftrightarrow> e \<in> {VCloser, VAdd, VAcceptError, VHandled, VDrained}"

lemma serve_work_decreases:
  assumes "server_step e s = Some s'" and "serve_own e" and "sv_ctx s"
  shows "serve_work s' < serve_work s \<and> sv_ctx s'"
proof (cases e)
  case VHandled
  then have "s' = s\<lparr>sv_inflight := sv_inflight s - 1\<rparr> \<and> 0 < sv_inflight s" using assms by (simp split: if_split_asm)
  then show ?thesis using assms by (simp add: serve_work_def)
qed (use assms in \<open>auto simp: serve_work_def serve_own_def split: if_split_asm\<close>)

lemma serve_work_bound:
  assumes "run_server es s = Some s'" and "list_all serve_own es" and "sv_ctx s"
  shows "length es + serve_work s' \<le> serve_work s"
  using assms
proof (induction es arbitrary: s)
  case (Cons e es)
  then obtain s1 where s1: "server_step e s = Some s1" "run_server es s1 = Some s'" by (auto split: option.splits)
  then show ?case using Cons serve_work_decreases [of e s s1] by fastforce
qed simp

lemma serve_not_stuck:
  assumes "server_inv s" and "sv_ctx s" and "sv_serve s \<in> {SAccept, SAdd, SWait}"
  shows "\<exists>e s'. serve_own e \<and> (e = VAcceptError \<longrightarrow> \<not> sv_open s) \<and> server_step e s = Some s'"
proof (cases "sv_serve s = SAccept")
  case True
  show ?thesis
  proof (cases "sv_open s")
    case opn: True
    then have "sv_closer s" using assms(1) True by (simp add: server_inv_def)
    then have "server_step VCloser s = Some (s\<lparr>sv_closer := False, sv_open := False\<rparr>)" using assms(2) by simp
    then show ?thesis unfolding serve_own_def by blast
  next
    case False
    have "server_step VAcceptError s = Some (s\<lparr>sv_serve := SWait\<rparr>)" using True assms(2) by simp
    then show ?thesis using False unfolding serve_own_def by blast
  qed
next
  case no_accept: False
  show ?thesis
  proof (cases "sv_serve s = SAdd")
    case True
    then have "server_step VAdd s = Some (s\<lparr>sv_serve := SAccept, sv_inflight := Suc (sv_inflight s)\<rparr>)" by simp
    then show ?thesis unfolding serve_own_def by blast
  next
  case False
  then have w: "sv_serve s = SWait" using assms(3) no_accept by simp
  show ?thesis
  proof (cases "sv_inflight s")
    case 0
    then have "server_step VDrained s = Some (s\<lparr>sv_serve := SReturned None\<rparr>)" using w by simp
    then show ?thesis unfolding serve_own_def by blast
  next
    case (Suc n)
    then have "server_step VHandled s = Some (s\<lparr>sv_inflight := sv_inflight s - 1\<rparr>)" by simp
    then show ?thesis unfolding serve_own_def by blast
  qed
  qed
qed

text \<open>A closed listener without a cancelled context: every \<open>Accept\<close> fails and the loop goes on.\<close>

lemma serve_spins:
  assumes "run_server es s = Some s'" and "VCancel \<notin> set es" and "\<not> sv_ctx s" and "sv_serve s \<in> {SAccept, SAdd}"
  shows "sv_serve s' \<in> {SAccept, SAdd} \<and> \<not> sv_ctx s'"
  using assms
proof (induction es arbitrary: s)
  case (Cons e es)
  then obtain s1 where s1: "server_step e s = Some s1" "run_server es s1 = Some s'" by (auto split: option.splits)
  have "sv_serve s1 \<in> {SAccept, SAdd} \<and> \<not> sv_ctx s1"
    using s1(1) Cons.prems by (cases e) (auto split: if_split_asm)
  then show ?case using Cons s1(2) by simp
qed simp

section \<open>Properties\<close>



text \<open>After \<open>Close\<close> alone \<open>Serve\<close> does not return, however long it runs: it accepts on the closed
  socket again and again.\<close>

lemma close_does_not_end_serve:
  "\<exists>s. run_server [VListen, VServe, VClose, VCloseDrained] NewServer = Some s
     \<and> (\<forall>n. run_server (replicate n VAcceptError) s = Some s)
     \<and> (\<forall>es s'. run_server es s = Some s' \<and> VCancel \<notin> set es \<longrightarrow> sv_serve s' \<in> {SAccept, SAdd})"
proof -
  obtain s where s: "run_server [VListen, VServe, VClose, VCloseDrained] NewServer = Some s" "sv_serve s = SAccept" "\<not> sv_ctx s"
    by (simp add: NewServer_def)
  have "run_server (replicate n VAcceptError) s = Some s" for n
    using s by (induction n) simp_all
  then show ?thesis using s serve_spins [of _ s] by blast
qed

text \<open>\<open>Close\<close> can return before a connection that was accepted in time has been handled: it is counted
  only after the wait.\<close>

lemma close_misses_accepted:
  "\<exists>s. run_server [VListen, VServe, VConn, VClose, VCloseDrained, VAdd] NewServer = Some s
     \<and> sv_close s = KReturned \<and> sv_inflight s = 1"
  by (simp add: NewServer_def)

end
