(* ===== verification/Gopmd.thy ===== *)
theory Gopmd
  imports Daemon Shutdown Ipc_Server
begin

text \<open>
  The daemon as a whole (\<open>main\<close> of \<open>cmd/gopmd/main.go\<close>): the main goroutine from the bind of the
  port over the restore to the orderly exit, next to the accept loop of \<open>Ipc_Server\<close>, the handlers
  and the supervisor of \<open>System\<close>, all of which it starts. An event is a move of one of them or of the
  environment. Two daemons on one machine share the port.
\<close>

section \<open>The main goroutine\<close>

datatype main_pc =
    MListen | MLoad | MNext "AppConfig list" | MStarting nat "AppConfig list"
  | MServing | MShut nat | MClosing | MExit int | MKilled

text \<open>
  \<open>md_calls\<close> are the operations of the supervisor the handlers wait for, as numbers of its
  goroutines; \<open>md_cancel\<close> says that \<open>go cancel()\<close> of a shutdown request has not run yet.
\<close>

record gopmd =
  md_pc :: main_pc
  md_srv :: server
  md_sup :: gopm
  md_calls :: "nat list"
  md_cancel :: bool

definition NewGopmd :: gopmd where
  "NewGopmd = \<lparr>md_pc = MListen, md_srv = NewServer\<lparr>sv_stream := True\<rparr>, md_sup = New, md_calls = [], md_cancel = False\<rparr>"

text \<open>The process is gone, or the goroutines after the restore have been started.\<close>

definition gone :: "gopmd \<Rightarrow> bool" where
  "gone d \<longleftrightarrow> (case md_pc d of MExit c \<Rightarrow> True | MKilled \<Rightarrow> True | _ \<Rightarrow> False)"

definition serving :: "gopmd \<Rightarrow> bool" where
  "serving d \<longleftrightarrow> (case md_pc d of MServing \<Rightarrow> True | MShut i \<Rightarrow> True | MClosing \<Rightarrow> True | _ \<Rightarrow> False)"

datatype md_ev =
    DListen bool | DLoad "load_error + State" | DStart | DStarted | DServe
  | DSignal | DShutdownReq | DCancel | DGone | DShutDone | DClosed
  | DServer server_ev | DCall task | DReturn nat | DHandled | DSup label

definition own_label :: "gopmd \<Rightarrow> label \<Rightarrow> bool" where
  "own_label d lb \<longleftrightarrow> (case lb of LCmd t \<Rightarrow> False | LExit c \<Rightarrow> True | _ \<Rightarrow> \<not> gone d)"

definition start_op :: "task \<Rightarrow> (nat \<Rightarrow> main_pc) \<Rightarrow> gopmd \<Rightarrow> gopmd" where
  "start_op t k d = d\<lparr>md_sup := (md_sup d)\<lparr>g_tasks := g_tasks (md_sup d) @ [t]\<rparr>, md_pc := k (length (g_tasks (md_sup d)))\<rparr>"

definition op_done :: "gopmd \<Rightarrow> nat \<Rightarrow> bool" where
  "op_done d i \<longleftrightarrow> i < length (g_tasks (md_sup d)) \<and> (case g_tasks (md_sup d) ! i of TDone r \<Rightarrow> True | _ \<Rightarrow> False)"

definition serve_with :: "server_ev \<Rightarrow> gopmd \<Rightarrow> gopmd option" where
  "serve_with e d = map_option (\<lambda>s. d\<lparr>md_srv := s\<rparr>) (server_step e (md_srv d))"

text \<open>
  The main goroutine: bind the port or exit; load the state; start its apps one after the other;
  then register for signals, start the goroutines and wait for the context; then \<open>Shutdown\<close> and
  \<open>Close\<close>. Until it registers, a signal kills the process. A handler may call the supervisor more than once.
\<close>

fun main_step :: "(string \<Rightarrow> int option) \<Rightarrow> md_ev \<Rightarrow> gopmd \<Rightarrow> gopmd option" where
  "main_step pd (DListen ok) d =
     (if md_pc d \<noteq> MListen then None
      else if ok then map_option (\<lambda>d'. d'\<lparr>md_pc := MLoad\<rparr>) (serve_with VListen d) else Some (d\<lparr>md_pc := MExit 1\<rparr>))"
| "main_step pd (DLoad r) d =
     (if md_pc d = MLoad then Some (d\<lparr>md_pc := MNext (case r of Inl e \<Rightarrow> [] | Inr st \<Rightarrow> map pa_Config (st_Apps st))\<rparr>) else None)"
| "main_step pd DStart d =
     (case md_pc d of MNext (c # cs) \<Rightarrow> Some (start_op (TStart c) (\<lambda>i. MStarting i cs) d) | _ \<Rightarrow> None)"
| "main_step pd DStarted d =
     (case md_pc d of MStarting i cs \<Rightarrow> if op_done d i then Some (d\<lparr>md_pc := MNext cs\<rparr>) else None | _ \<Rightarrow> None)"
| "main_step pd DServe d = (if md_pc d = MNext [] then Some (d\<lparr>md_pc := MServing\<rparr>) else None)"
| "main_step pd DSignal d =
     (if gone d then None else if serving d then serve_with VCancel d else Some (d\<lparr>md_pc := MKilled\<rparr>))"
| "main_step pd DShutdownReq d =
     (if serving d \<and> length (md_calls d) < sv_inflight (md_srv d) then Some (d\<lparr>md_cancel := True\<rparr>) else None)"
| "main_step pd DCancel d =
     (if serving d \<and> md_cancel d then serve_with VCancel (d\<lparr>md_cancel := False\<rparr>) else None)"
| "main_step pd DGone d =
     (if md_pc d = MServing \<and> sv_ctx (md_srv d) then Some (start_op TShutdown MShut d) else None)"
| "main_step pd DShutDone d =
     (case md_pc d of MShut i \<Rightarrow> if op_done d i then map_option (\<lambda>d'. d'\<lparr>md_pc := MClosing\<rparr>) (serve_with VClose d) else None | _ \<Rightarrow> None)"
| "main_step pd DClosed d =
     (if md_pc d = MClosing then map_option (\<lambda>d'. d'\<lparr>md_pc := MExit 0\<rparr>) (serve_with VCloseDrained d) else None)"
| "main_step pd (DServer e) d =
     (if serving d \<and> e \<in> {VServe, VCloser, VConn, VAdd, VAcceptError, VDrained} then serve_with e d else None)"
| "main_step pd (DCall t) d =
     (if serving d \<and> is_request t \<and> t \<noteq> TShutdown \<and> length (md_calls d) < sv_inflight (md_srv d)
      then Some ((start_op t (\<lambda>i. md_pc d) d)\<lparr>md_calls := length (g_tasks (md_sup d)) # md_calls d\<rparr>) else None)"
| "main_step pd (DReturn i) d =
     (if serving d \<and> i \<in> set (md_calls d) \<and> op_done d i then Some (d\<lparr>md_calls := remove1 i (md_calls d)\<rparr>) else None)"
| "main_step pd DHandled d =
     (if serving d \<and> length (md_calls d) < sv_inflight (md_srv d) then serve_with VHandled d else None)"
| "main_step pd (DSup lb) d =
     (if own_label d lb then map_option (\<lambda>s. d\<lparr>md_sup := s\<rparr>) (sys_step pd lb (md_sup d)) else None)"

abbreviation run_gopmd :: "(string \<Rightarrow> int option) \<Rightarrow> md_ev list \<Rightarrow> gopmd \<Rightarrow> gopmd option" where
  "run_gopmd pd \<equiv> run_steps (main_step pd)"

section \<open>The parts keep their invariants\<close>

lemma start_op_sys: "is_request t \<Longrightarrow> sys_step pd (LCmd t) (md_sup d) = Some (md_sup (start_op t k d))"
  by (simp add: sys_step_def start_op_def)

lemma serve_with_Some: "serve_with e d = Some d' \<longleftrightarrow> (\<exists>s. server_step e (md_srv d) = Some s \<and> d' = d\<lparr>md_srv := s\<rparr>)"
  by (auto simp: serve_with_def)

text \<open>What an event does to the supervisor: nothing, a request, or a step of its own.\<close>

lemma main_step_sup:
  assumes "main_step pd e d = Some d'"
  shows "md_sup d' = md_sup d \<or> (\<exists>lb. sys_step pd lb (md_sup d) = Some (md_sup d'))"
proof (cases e)
  case DStart
  then obtain c cs where "d' = start_op (TStart c) (\<lambda>i. MStarting i cs) d"
    using assms by (auto split: main_pc.splits list.splits)
  then show ?thesis using start_op_sys [of "TStart c"] by (auto simp: is_request_def)
next
  case DGone
  then have "d' = start_op TShutdown MShut d" using assms by (auto split: if_splits)
  then show ?thesis using start_op_sys [of TShutdown] by (auto simp: is_request_def)
next
  case (DCall t)
  then have "is_request t" "md_sup d' = md_sup (start_op t (\<lambda>i. md_pc d) d)" using assms by (auto split: if_splits)
  then show ?thesis using start_op_sys by metis
qed (use assms in \<open>auto simp: serve_with_Some split: if_splits main_pc.splits\<close>)

definition gopmd_inv :: "gopmd \<Rightarrow> bool" where
  "gopmd_inv d \<longleftrightarrow> sys_inv (md_sup d)"

interpretation whole: transition_system "\<lambda>d. d = NewGopmd" "main_step pd" gopmd_inv
proof unfold_locales
  show "gopmd_inv d" if "d = NewGopmd" for d using that by (simp add: gopmd_inv_def NewGopmd_def New_inv)
  show "gopmd_inv d'" if "main_step pd e d = Some d'" "gopmd_inv d" for e d d'
    using main_step_sup [OF that(1)] that(2) sys_step_inv by (auto simp: gopmd_inv_def)
qed

section \<open>The restore\<close>

text \<open>Until \<open>Serve\<close> runs, the commands at work are the starts of the restore; their goroutines change neither
  the registry nor a configuration.\<close>

definition apps_of :: "gopm \<Rightarrow> (string \<times> AppConfig) list" where
  "apps_of s = map (\<lambda>(n, a). (n, mp_Config (g_mps s a))) (g_procs s)"

fun restore_task :: "task \<Rightarrow> bool" where
  "restore_task (TSetLog a cfg) = True" | "restore_task (TSpawn a) = True" | "restore_task TPersist = True"
| "restore_task (TSave sn) = True" | "restore_task (TDone r) = True" | "restore_task (TGo a) = True"
| "restore_task (TSup a dn l) = True" | "restore_task t = False"

definition named :: "AppConfig list \<Rightarrow> (string \<times> AppConfig) list" where
  "named cs = map (\<lambda>c. (ac_Name c, c)) cs"

definition first_start :: "nat \<Rightarrow> gopm \<Rightarrow> AppConfig list" where
  "first_start i s = (case g_tasks s ! i of TStart c \<Rightarrow> [c] | _ \<Rightarrow> [])"

definition pending :: "gopmd \<Rightarrow> AppConfig list" where
  "pending d = (case md_pc d of MNext cs \<Rightarrow> cs | MStarting i cs \<Rightarrow> first_start i (md_sup d) @ cs | _ \<Rightarrow> [])"

definition restoring :: "gopmd \<Rightarrow> bool" where
  "restoring d \<longleftrightarrow> (case md_pc d of MNext cs \<Rightarrow> True | MStarting i cs \<Rightarrow> i < length (g_tasks (md_sup d)) | MServing \<Rightarrow> True | _ \<Rightarrow> False)"

definition restore_inv :: "AppConfig list \<Rightarrow> gopmd \<Rightarrow> bool" where
  "restore_inv cs d \<longleftrightarrow> gopmd_inv d \<and> restoring d \<and> sv_serve (md_srv d) = SNotCalled \<and> sv_inflight (md_srv d) = 0
     \<and> apps_of (md_sup d) @ named (pending d) = named cs
     \<and> (\<forall>i < length (g_tasks (md_sup d)). restore_task (g_tasks (md_sup d) ! i)
          \<or> (\<exists>rest c. md_pc d = MStarting i rest \<and> g_tasks (md_sup d) ! i = TStart c))"

lemma restore_task_step:
  "op_tr e t s s' t' ts \<Longrightarrow> restore_task t \<Longrightarrow>
     g_procs s' = g_procs s \<and> g_mps s' = g_mps s \<and> restore_task t' \<and> list_all restore_task ts"
  by (induction rule: op_tr.induct) (auto simp: emit_def)

lemma apps_of_sup_task:
  assumes "sup_task_step pd e (g_tasks s ! j) s = Some (s1, t', ts)" and "sys_inv s" and "j < length (g_tasks s)"
  shows "apps_of s1 = apps_of s \<and> restore_task t' \<and> ts = [] \<and> g_tasks s1 = g_tasks s"
  using assms(1)
proof (cases rule: sup_task_cases)
  case (starts a)
  then show ?thesis by simp
next
  case (moves a dn l mp' l' as s2)
  have "mp_Config mp' = mp_Config (g_mps s a)" using sup_moves(6) [OF assms(2,3) moves(1,4)] .
  then show ?thesis by (auto simp: moves(2,3,6) child_started_simps [OF moves(5)] apps_of_def)
qed

text \<open>A start of a new name adds it to the end of the registry.\<close>

lemma apps_of_register:
  assumes "sys_inv s"
  shows "apps_of (register cfg (emit os s)) = apps_of s @ [(ac_Name cfg, cfg)]"
proof -
  have "\<forall>(n, a) \<in> set (g_procs s). a < g_nextID s" using assms by (auto simp: sys_inv_def inv_reg_def)
  then show ?thesis by (auto simp: apps_of_def register_def newManagedProcess_def)
qed

lemma apps_of_put [simp]: "apps_of (put_task i t ts s) = apps_of s"
  by (simp add: apps_of_def)

lemma restore_tasks_update:
  assumes "\<forall>i < length us. restore_task (us ! i) \<or> R i (us ! i)" and "j < length us"
    and "restore_task t'" and "list_all restore_task ts"
  shows "\<forall>i < length (us[j := t'] @ ts). restore_task ((us[j := t'] @ ts) ! i) \<or> (i \<noteq> j \<and> i < length us \<and> (us[j := t'] @ ts) ! i = us ! i \<and> R i (us ! i))"
  using assms by (auto simp: nth_append nth_list_update list_all_length)

definition past_restore :: "gopmd \<Rightarrow> bool" where
  "past_restore d \<longleftrightarrow> sv_serve (md_srv d) \<noteq> SNotCalled
     \<or> (case md_pc d of MShut i \<Rightarrow> True | MClosing \<Rightarrow> True | MExit c \<Rightarrow> True | MKilled \<Rightarrow> True | _ \<Rightarrow> False)"

lemma server_called: "server_step e s = Some s' \<Longrightarrow> sv_serve s \<noteq> SNotCalled \<Longrightarrow> sv_serve s' \<noteq> SNotCalled"
  by (cases e) (auto split: if_splits)

lemma server_before: "server_step e s = Some s' \<Longrightarrow> sv_serve s = SNotCalled \<Longrightarrow> sv_inflight s = 0 \<Longrightarrow>
    e \<in> {VServe, VCloser, VConn, VAdd, VAcceptError, VDrained, VCancel, VHandled} \<Longrightarrow> e \<noteq> VServe \<Longrightarrow> sv_serve s' = SNotCalled \<and> sv_inflight s' = 0"
  by (cases e) (auto split: if_splits)

lemma past_restore_step: "main_step pd e d = Some d' \<Longrightarrow> past_restore d \<Longrightarrow> past_restore d'"
  by (cases e) (auto simp: past_restore_def serve_with_Some start_op_def gone_def serving_def dest: server_called
      split: if_splits main_pc.splits list.splits)

lemma restore_sup_step:
  assumes "sys_step pd lb (md_sup d) = Some s'" and "own_label d lb" and "restore_inv cs d" and "distinct (map ac_Name cs)"
  shows "restore_inv cs (d\<lparr>md_sup := s'\<rparr>)"
proof -
  let ?s = "md_sup d" and ?d = "d\<lparr>md_sup := s'\<rparr>"
  have inv: "sys_inv ?s" and srv: "sv_serve (md_srv d) = SNotCalled" "sv_inflight (md_srv d) = 0" and pc: "restoring d"
    and apps: "apps_of ?s @ named (pending d) = named cs"
    and tasks: "\<forall>i < length (g_tasks ?s). restore_task (g_tasks ?s ! i)
        \<or> (\<exists>rest c. md_pc d = MStarting i rest \<and> g_tasks ?s ! i = TStart c)"
    using assms(3) by (simp_all add: restore_inv_def gopmd_inv_def)
  have inv': "gopmd_inv ?d" using sys_step_inv [OF assms(1) inv] by (simp add: gopmd_inv_def)
  consider (same) "apps_of s' = apps_of ?s" "g_tasks s' = g_tasks ?s"
    | (moved) j t' ts where "j < length (g_tasks ?s)" "restore_task (g_tasks ?s ! j)" "restore_task t'" "list_all restore_task ts"
        "apps_of s' = apps_of ?s" "g_tasks s' = (g_tasks ?s)[j := t'] @ ts"
    | (started) j rest c a where "j < length (g_tasks ?s)" "md_pc d = MStarting j rest" "g_tasks ?s ! j = TStart c"
        "apps_of s' = apps_of ?s @ [(ac_Name c, c)]" "g_tasks s' = (g_tasks ?s)[j := TSetLog a c]"
  proof (cases lb)
    case (LCmd t)
    then show ?thesis using assms(2) by (simp add: own_label_def)
  next
    case (LOp j e)
    then obtain s1 t' ts where j: "j < length (g_tasks ?s)" and st: "op_step e (g_tasks ?s ! j) ?s = Some (s1, t', ts)"
      and s': "s' = put_task j t' ts s1"
      using assms(1) by (auto simp: sys_step_def commit_put split: if_splits)
    note tr = op_step_tr [OF st]
    have same: "g_tasks s1 = g_tasks ?s" using op_tr_tasks [OF tr] .
    show ?thesis
    proof (cases "restore_task (g_tasks ?s ! j)")
      case True
      then show ?thesis using restore_task_step [OF tr] j moved [of j t' ts] same by (simp add: s' apps_of_def)
    next
      case False
      then obtain rest c where c: "md_pc d = MStarting j rest" "g_tasks ?s ! j = TStart c" using tasks j by blast
      then have pend: "pending d = c # rest" by (simp add: pending_def first_start_def)
      have "ac_Name c \<notin> fst ` set (apps_of ?s)"
      proof
        assume "ac_Name c \<in> fst ` set (apps_of ?s)"
        moreover have "map fst (apps_of ?s) @ map ac_Name (c # rest) = map ac_Name cs"
          using arg_cong [OF apps, of "map fst"] by (simp add: pend named_def comp_def)
        then have "distinct (map fst (apps_of ?s) @ map ac_Name (c # rest))" using assms(4) by simp
        ultimately show False by simp
      qed
      then have "lookup ?s (ac_Name c) = None"
        by (auto simp: lookup_def map_of_eq_None_iff apps_of_def image_iff split_beta)
      then obtain os where "s1 = register c (emit os ?s)" "t' = TSetLog (g_nextID ?s) c" "ts = []"
        using tr c(2) by (auto elim: op_tr.cases)
      then show ?thesis using started [OF j c, of "g_nextID ?s"] apps_of_register [OF inv] same by (simp add: s')
    qed
  next
    case (LSup j e)
    then obtain s1 t' ts where j: "j < length (g_tasks ?s)" and st: "sup_task_step pd e (g_tasks ?s ! j) ?s = Some (s1, t', ts)"
      and s': "s' = put_task j t' ts s1"
      using assms(1) by (auto simp: sys_step_def commit_put split: if_splits)
    have "restore_task (g_tasks ?s ! j)" using st by (cases "g_tasks ?s ! j") auto
    then show ?thesis using apps_of_sup_task [OF st inv j] moved [OF j, of t' ts] by (simp add: s')
  next
    case (LExit c)
    then show ?thesis using assms(1) same by (auto simp: sys_step_def apps_of_def split: if_splits)
  next
    case (LRebuild a)
    then have "s' = set_mp a ((g_mps ?s a)\<lparr>mp_rebuildCh := True\<rparr>) ?s" using assms(1) by (auto simp: sys_step_def split: if_splits)
    then show ?thesis by (intro same) (auto simp: apps_of_def)
  qed
  then show ?thesis
  proof cases
    case same
    have "restoring ?d" "pending ?d = pending d"
      using pc same by (auto simp: restoring_def pending_def first_start_def split: main_pc.splits)
    then show ?thesis using inv' srv apps tasks same by (simp add: restore_inv_def)
  next
    case (moved j t' ts)
    have start: "first_start i s' = first_start i ?s" if "i < length (g_tasks ?s)" for i
      using that moved by (cases "i = j"; cases t'; cases "g_tasks ?s ! j") (auto simp: first_start_def nth_append)
    have "restoring ?d" "pending ?d = pending d"
      using pc start moved(6) by (auto simp: restoring_def pending_def split: main_pc.splits)
    moreover have "restore_task (g_tasks s' ! i) \<or> (\<exists>rest c. md_pc d = MStarting i rest \<and> g_tasks s' ! i = TStart c)"
      if "i < length (g_tasks s')" for i
      using that tasks moved by (auto simp: nth_append nth_list_update list_all_length)
    ultimately show ?thesis using inv' srv apps moved(5) by (simp add: restore_inv_def)
  next
    case (started j rest c a)
    have "restoring ?d" "pending ?d = rest" "pending d = c # rest"
      using pc started(1,2,3,5) by (simp_all add: restoring_def pending_def first_start_def)
    moreover have "restore_task (g_tasks s' ! i)" if "i < length (g_tasks s')" for i
      using that tasks started(1,2,5) by (cases "i = j") auto
    ultimately show ?thesis using inv' srv apps started(4) by (simp add: restore_inv_def named_def)
  qed
qed

lemma restore_inv_same:
  assumes "md_pc d' = md_pc d" and "md_sup d' = md_sup d" and "sv_serve (md_srv d') = sv_serve (md_srv d)"
    and "sv_inflight (md_srv d') = sv_inflight (md_srv d)"
  shows "restore_inv cs d' = restore_inv cs d"
  unfolding restore_inv_def gopmd_inv_def restoring_def pending_def assms by (rule refl)

lemma restore_step:
  assumes "main_step pd e d = Some d'" and "restore_inv cs d" and "distinct (map ac_Name cs)"
  shows "restore_inv cs d' \<or> past_restore d'"
proof (cases e)
  case DStart
  then obtain c rest where pc: "md_pc d = MNext (c # rest)" and d': "d' = start_op (TStart c) (\<lambda>i. MStarting i rest) d"
    using assms(1) by (auto split: main_pc.splits list.splits)
  have "gopmd_inv d'" using whole.step_inv [OF assms(1)] assms(2) by (simp add: restore_inv_def)
  then show ?thesis using assms(2) pc
    by (auto simp: restore_inv_def d' start_op_def restoring_def pending_def first_start_def nth_append less_Suc_eq apps_of_def)
next
  case DStarted
  then obtain i rest where pc: "md_pc d = MStarting i rest" "op_done d i" and d': "d' = d\<lparr>md_pc := MNext rest\<rparr>"
    using assms(1) by (auto split: main_pc.splits if_splits)
  have "gopmd_inv d'" using whole.step_inv [OF assms(1)] assms(2) by (simp add: restore_inv_def)
  moreover have "first_start i (md_sup d) = []" "\<not> (\<exists>c. g_tasks (md_sup d) ! i = TStart c)"
    using pc(2) by (auto simp: op_done_def first_start_def split: task.splits)
  ultimately show ?thesis using assms(2) pc by (auto simp: restore_inv_def d' restoring_def pending_def)
next
  case DServe
  then have d': "md_pc d = MNext []" "d' = d\<lparr>md_pc := MServing\<rparr>" using assms(1) by (auto split: if_splits)
  have "gopmd_inv d'" using whole.step_inv [OF assms(1)] assms(2) by (simp add: restore_inv_def)
  then show ?thesis using assms(2) d' by (auto simp: restore_inv_def restoring_def pending_def)
next
  case (DSup lb)
  then obtain s' where "own_label d lb" "sys_step pd lb (md_sup d) = Some s'" "d' = d\<lparr>md_sup := s'\<rparr>"
    using assms(1) by (auto split: if_splits)
  then show ?thesis using restore_sup_step assms(2,3) by blast
next
  case DSignal
  show ?thesis
  proof (cases "serving d")
    case True
    then have "md_pc d' = md_pc d" "md_sup d' = md_sup d" "sv_serve (md_srv d') = sv_serve (md_srv d)" "sv_inflight (md_srv d') = sv_inflight (md_srv d)"
      using assms(1) DSignal by (auto simp: serve_with_Some split: if_splits)
    then show ?thesis using restore_inv_same assms(2) by blast
  next
    case False
    then show ?thesis using assms(1) DSignal by (auto simp: past_restore_def split: if_splits)
  qed
next
  case DCancel
  then have "md_pc d' = md_pc d" "md_sup d' = md_sup d" "sv_serve (md_srv d') = sv_serve (md_srv d)" "sv_inflight (md_srv d') = sv_inflight (md_srv d)"
    using assms(1) by (auto simp: serve_with_Some split: if_splits)
  then show ?thesis using restore_inv_same assms(2) by blast
next
  case (DServer v)
  then obtain s where s: "server_step v (md_srv d) = Some s" "d' = d\<lparr>md_srv := s\<rparr>"
    "v \<in> {VServe, VCloser, VConn, VAdd, VAcceptError, VDrained}"
    using assms(1) by (auto simp: serve_with_Some split: if_splits)
  show ?thesis
  proof (cases "v = VServe")
    case True
    then have "sv_serve s \<noteq> SNotCalled" using s(1) by (auto split: if_splits)
    then show ?thesis by (simp add: past_restore_def s(2))
  next
    case False
    then have "sv_serve s = SNotCalled \<and> sv_inflight s = 0"
      using server_before [OF s(1)] s(3) assms(2) by (auto simp: restore_inv_def)
    moreover have "sv_serve (md_srv d) = SNotCalled" "sv_inflight (md_srv d) = 0" using assms(2) by (simp_all add: restore_inv_def)
    ultimately show ?thesis using restore_inv_same [of d' d] assms(2) by (simp add: s(2))
  qed
next
  case (DReturn i)
  then have "d' = d\<lparr>md_calls := remove1 i (md_calls d)\<rparr>" using assms(1) by (auto split: if_splits)
  then show ?thesis using restore_inv_same [of d' d] assms(2) by simp
qed (use assms in \<open>auto simp: restore_inv_def restoring_def past_restore_def start_op_def split: if_splits main_pc.splits\<close>)

lemma restore_run:
  "run_gopmd pd es d = Some d' \<Longrightarrow> distinct (map ac_Name cs) \<Longrightarrow> restore_inv cs d \<or> past_restore d \<Longrightarrow> restore_inv cs d' \<or> past_restore d'"
proof (induction es arbitrary: d)
  case (Cons e es)
  then obtain d1 where d1: "main_step pd e d = Some d1" "run_gopmd pd es d1 = Some d'" by (auto split: option.splits)
  then show ?case using Cons restore_step past_restore_step by metis
qed simp

section \<open>The exit\<close>

text \<open>Only the main goroutine asks for a shutdown, and it does so once.\<close>

definition stopping :: "gopmd \<Rightarrow> bool" where
  "stopping d \<longleftrightarrow> (case md_pc d of MShut i \<Rightarrow> True | MClosing \<Rightarrow> True | MExit c \<Rightarrow> True | _ \<Rightarrow> False)"

definition not_stopped :: "gopm \<Rightarrow> bool" where
  "not_stopped s \<longleftrightarrow> \<not> g_stopped s \<and> TShutdown \<notin> set (g_tasks s)"

fun idle_task :: "task \<Rightarrow> bool" where
  "idle_task (TDone r) = True" | "idle_task (TGo a) = True" | "idle_task (TSup a dn l) = True" | "idle_task t = False"

lemma op_tr_stopped:
  "op_tr e t s s' t' ts \<Longrightarrow> t \<noteq> TShutdown \<Longrightarrow> g_stopped s' = g_stopped s \<and> t' \<noteq> TShutdown \<and> TShutdown \<notin> set ts"
  by (induction rule: op_tr.induct)
    (auto simp: op_defs unlock_def split: option.splits stop_kont.splits)

lemma sup_task_stopped:
  assumes "sup_task_step pd e t s = Some (s1, t', ts)"
  shows "g_stopped s1 = g_stopped s \<and> idle_task t' \<and> ts = []"
  using assms
proof (cases rule: sup_task_cases)
  case (moves a dn l mp' l' as s2)
  have "g_stopped s2 = g_stopped s" using moves(5) by (auto simp: child_started_def split: ev.splits if_splits)
  then show ?thesis by (simp add: moves close_done_def emit_def set_mp_def)
qed simp

lemma not_in_put: "x \<notin> set us \<Longrightarrow> x \<noteq> t' \<Longrightarrow> x \<notin> set (us[j := t'])"
  by (auto dest: set_update_subset_insert [THEN subsetD])

lemma sys_step_stopped:
  assumes "sys_step pd lb s = Some s'" and "lb \<noteq> LCmd TShutdown" and "sys_inv s" and "not_stopped s"
  shows "not_stopped s'"
proof (cases lb)
  case (LOp j e)
  then obtain s1 t' ts where j: "j < length (g_tasks s)" and st: "op_step e (g_tasks s ! j) s = Some (s1, t', ts)"
    and s': "s' = put_task j t' ts s1"
    using assms(1) by (auto simp: sys_step_def commit_put split: if_splits)
  have "g_tasks s ! j \<noteq> TShutdown" using assms(4) nth_mem [OF j] by (auto simp: not_stopped_def)
  then show ?thesis using op_tr_stopped [OF op_step_tr [OF st]] op_tr_tasks [OF op_step_tr [OF st]] assms(4)
    by (auto simp: not_stopped_def s' put_task_def not_in_put)
next
  case (LSup j e)
  then obtain s1 t' ts where j: "j < length (g_tasks s)" and st: "sup_task_step pd e (g_tasks s ! j) s = Some (s1, t', ts)"
    and s': "s' = put_task j t' ts s1"
    using assms(1) by (auto simp: sys_step_def commit_put split: if_splits)
  have "t' \<noteq> TShutdown" using sup_task_stopped [OF st] by auto
  then show ?thesis using sup_task_stopped [OF st] sup_task_heap [OF st assms(3) j refl] assms(4)
    by (auto simp: not_stopped_def s' put_task_def not_in_put)
qed (use assms in \<open>auto simp: sys_step_def not_stopped_def set_mp_def split: if_splits\<close>)

lemma not_stopped_step:
  assumes "main_step pd e d = Some d'" and "gopmd_inv d" and "stopping d \<or> not_stopped (md_sup d)"
  shows "stopping d' \<or> not_stopped (md_sup d')"
proof (cases e)
  case (DSup lb)
  then obtain s' where "own_label d lb" "sys_step pd lb (md_sup d) = Some s'" "d' = d\<lparr>md_sup := s'\<rparr>"
    using assms(1) by (auto split: if_splits)
  moreover from this have "lb \<noteq> LCmd TShutdown" by (auto simp: own_label_def)
  moreover have "stopping (d\<lparr>md_sup := s'\<rparr>) = stopping d" by (simp add: stopping_def)
  ultimately show ?thesis using sys_step_stopped assms(2,3) by (auto simp: gopmd_inv_def)
qed (use assms(1,3) in \<open>auto simp: stopping_def not_stopped_def serve_with_Some start_op_def serving_def gone_def is_request_def
      split: if_splits main_pc.splits list.splits\<close>)

lemma reach_not_stopped:
  "run_gopmd pd es d = Some d' \<Longrightarrow> gopmd_inv d \<Longrightarrow> stopping d \<or> not_stopped (md_sup d) \<Longrightarrow> stopping d' \<or> not_stopped (md_sup d')"
proof (induction es arbitrary: d)
  case (Cons e es)
  then obtain d1 where d1: "main_step pd e d = Some d1" "run_gopmd pd es d1 = Some d'" by (auto split: option.splits)
  then show ?case using Cons not_stopped_step whole.step_inv by metis
qed simp

text \<open>From the moment the main goroutine calls \<open>Shutdown\<close>: no handler calls the supervisor, no stop times out.\<close>

definition undisturbed :: "md_ev \<Rightarrow> bool" where
  "undisturbed e \<longleftrightarrow> (case e of DCall t \<Rightarrow> False | DSup lb \<Rightarrow> (case lb of LOp j v \<Rightarrow> v \<noteq> OTimeout | _ \<Rightarrow> True) | _ \<Rightarrow> True)"

definition others_idle :: "nat \<Rightarrow> gopm \<Rightarrow> bool" where
  "others_idle i s \<longleftrightarrow> i < length (g_tasks s) \<and> (\<forall>j < length (g_tasks s). j \<noteq> i \<longrightarrow> idle_task (g_tasks s ! j))"

definition shut_state :: "nat \<Rightarrow> gopm \<Rightarrow> bool" where
  "shut_state i s \<longleftrightarrow> sys_inv s \<and> others_idle i s
     \<and> (g_tasks s ! i = TShutdown \<and> \<not> g_stopped s \<or> shut_ok (snd ` set (g_procs s)) s (g_tasks s ! i))"

lemma others_idle_put:
  assumes "others_idle i s" and "j = i \<or> idle_task t'" and "ts = []" and "g_tasks s1 = g_tasks s"
  shows "others_idle i (put_task j t' ts s1)"
  using assms by (cases "j < length (g_tasks s)") (auto simp: others_idle_def nth_list_update)

lemma shut_tasks_none: "shut_ok A s t \<Longrightarrow> op_tr e t s s1 t' ts \<Longrightarrow> ts = []"
  by (auto elim: op_tr.cases)

lemma range_covers:
  assumes "inv_reg s" and "range_order s ns"
  shows "snd ` set (g_procs s) \<subseteq> set (map (addr_of s) ns)"
proof
  fix a assume "a \<in> snd ` set (g_procs s)"
  then obtain n where n: "(n, a) \<in> set (g_procs s)" by auto
  then have "addr_of s n = a" using assms(1) by (simp add: addr_of_def lookup_def inv_reg_def)
  moreover have "n \<in> set ns" using n assms(2) by (force simp: range_order_def)
  ultimately show "a \<in> set (map (addr_of s) ns)" by force
qed

lemma waiting_task_kept:
  assumes "sys_step pd lb s = Some s'" and "sys_inv s" and "i < length (g_tasks s)" and "\<not> idle_task (g_tasks s ! i)"
    and "\<And>t. lb \<noteq> LCmd t" and "\<And>j e. lb = LOp j e \<Longrightarrow> False"
  shows "g_tasks s' ! i = g_tasks s ! i \<and> g_stopped s' = g_stopped s"
proof (cases lb)
  case (LSup j e)
  then obtain s1 t' ts where j: "j < length (g_tasks s)" and step: "sup_task_step pd e (g_tasks s ! j) s = Some (s1, t', ts)"
    and s': "s' = put_task j t' ts s1"
    using assms(1) by (auto simp: sys_step_def commit_put split: if_splits)
  have "j \<noteq> i" using step assms(4) by (cases "g_tasks s ! i") auto
  then show ?thesis using sup_task_stopped [OF step] sup_task_heap [OF step assms(2) j refl] assms(3)
    by (simp add: s' put_task_def nth_append)
qed (use assms in \<open>auto simp: sys_step_def set_mp_def split: if_splits\<close>)

lemma shut_state_step:
  assumes "sys_step pd lb s = Some s'" and "shut_state i s" and "\<And>t. lb \<noteq> LCmd t" and "\<And>j. lb \<noteq> LOp j OTimeout"
  shows "shut_state i s'"
proof -
  have inv: "sys_inv s" and idle: "others_idle i s" and i: "i < length (g_tasks s)"
    and st: "g_tasks s ! i = TShutdown \<and> \<not> g_stopped s \<or> shut_ok (snd ` set (g_procs s)) s (g_tasks s ! i)"
    using assms(2) by (auto simp: shut_state_def others_idle_def)
  have inv': "sys_inv s'" using sys_step_inv [OF assms(1) inv] .
  have only: "only_shutdown i lb \<and> others_idle i s'"
  proof (cases lb)
    case (LOp j e)
    then obtain s1 t' ts where j: "j < length (g_tasks s)" and step: "op_step e (g_tasks s ! j) s = Some (s1, t', ts)"
      and s': "s' = put_task j t' ts s1"
      using assms(1) by (auto simp: sys_step_def commit_put split: if_splits)
    have "j = i"
    proof (rule ccontr)
      assume "j \<noteq> i"
      then have "idle_task (g_tasks s ! j)" using idle j by (simp add: others_idle_def)
      then show False using step by (cases "g_tasks s ! j") auto
    qed
    moreover have "ts = []"
      using st shut_tasks_none op_step_tr [OF step] \<open>j = i\<close> by (auto elim: op_tr.cases)
    ultimately show ?thesis using LOp assms(4) others_idle_put [OF idle _ _ op_tr_tasks [OF op_step_tr [OF step]], of j t' ts]
      by (simp add: s' only_shutdown_def)
  next
    case (LSup j e)
    then obtain s1 t' ts where j: "j < length (g_tasks s)" and step: "sup_task_step pd e (g_tasks s ! j) s = Some (s1, t', ts)"
      and s': "s' = put_task j t' ts s1"
      using assms(1) by (auto simp: sys_step_def commit_put split: if_splits)
    then show ?thesis using LSup sup_task_stopped [OF step] sup_task_heap [OF step inv j refl] others_idle_put [OF idle, of j t' ts s1]
      by (simp add: only_shutdown_def)
  qed (use assms idle in \<open>auto simp: sys_step_def only_shutdown_def others_idle_def set_mp_def split: if_splits\<close>)
  have "g_tasks s' ! i = TShutdown \<and> \<not> g_stopped s' \<or> shut_ok (snd ` set (g_procs s')) s' (g_tasks s' ! i)"
  proof (cases "g_tasks s ! i = TShutdown")
    case False
    then show ?thesis using st shut_step [OF assms(1) conjunct1 [OF only] inv i, of "snd ` set (g_procs s)"] by simp
  next
    case True
    then have "\<not> g_stopped s" using st by auto
    show ?thesis
    proof (cases "\<exists>j e. lb = LOp j e")
      case op: True
      then obtain e where "lb = LOp i e" using only by (auto simp: only_shutdown_def)
      then obtain s1 t' ts where step: "op_step e TShutdown s = Some (s1, t', ts)" and s': "s' = put_task i t' ts s1"
        using assms(1) True by (auto simp: sys_step_def commit_put split: if_splits)
      then obtain ns where "range_order s ns" "s1 = s\<lparr>g_stopped := True\<rparr>" "t' = TShut (map (addr_of s) ns)" "ts = []"
        using \<open>\<not> g_stopped s\<close> by (auto split: opev.splits if_splits)
      then show ?thesis using range_covers [of s ns] inv i by (auto simp: s' left_to_def sys_inv_def)
    next
      case no: False
      then have "g_tasks s' ! i = g_tasks s ! i \<and> g_stopped s' = g_stopped s"
        using waiting_task_kept [OF assms(1) inv i] assms(3) True by simp
      then show ?thesis using True \<open>\<not> g_stopped s\<close> by simp
    qed
  qed
  then show ?thesis using inv' only by (simp add: shut_state_def)
qed

lemma done_kept:
  assumes "sys_step pd lb s = Some s'" and "sys_inv s" and "i < length (g_tasks s)" and "g_tasks s ! i = TDone r" and "\<And>t. lb \<noteq> LCmd t"
  shows "g_tasks s' ! i = TDone r"
proof (cases lb)
  case (LOp j e)
  then obtain s1 t' ts where step: "op_step e (g_tasks s ! j) s = Some (s1, t', ts)" and s': "s' = put_task j t' ts s1"
    using assms(1) by (auto simp: sys_step_def commit_put split: if_splits)
  have "j \<noteq> i" using step assms(4) by auto
  then show ?thesis using op_tr_tasks [OF op_step_tr [OF step]] assms(3,4) by (simp add: s' put_task_def nth_append)
next
  case (LSup j e)
  then obtain s1 t' ts where j: "j < length (g_tasks s)" and step: "sup_task_step pd e (g_tasks s ! j) s = Some (s1, t', ts)"
    and s': "s' = put_task j t' ts s1"
    using assms(1) by (auto simp: sys_step_def commit_put split: if_splits)
  have "j \<noteq> i" using step assms(4) by auto
  then show ?thesis using sup_task_heap [OF step assms(2) j refl] assms(3,4) by (simp add: s' put_task_def nth_append)
qed (use assms in \<open>auto simp: sys_step_def set_mp_def split: if_splits\<close>)

lemma op_done_iff: "op_done d i \<longleftrightarrow> i < length (g_tasks (md_sup d)) \<and> (\<exists>r. g_tasks (md_sup d) ! i = TDone r)"
  by (cases "g_tasks (md_sup d) ! i") (auto simp: op_done_def)

definition exit_inv :: "nat \<Rightarrow> gopmd \<Rightarrow> bool" where
  "exit_inv i d \<longleftrightarrow> shut_state i (md_sup d)
     \<and> (md_pc d = MShut i \<or> (md_pc d = MClosing \<or> md_pc d = MExit 0) \<and> op_done d i)"

lemma exit_step:
  assumes "main_step pd e d = Some d'" and "exit_inv i d" and "undisturbed e"
  shows "exit_inv i d'"
proof (cases e)
  case (DSup lb)
  then obtain s' where lb: "own_label d lb" and st: "sys_step pd lb (md_sup d) = Some s'" and d': "d' = d\<lparr>md_sup := s'\<rparr>"
    using assms(1) by (auto split: if_splits)
  have lbs: "lb \<noteq> LCmd t" "lb \<noteq> LOp j OTimeout" for t j
    using lb assms(3) DSup by (auto simp: own_label_def undisturbed_def)
  have old: "shut_state i (md_sup d)" using assms(2) by (simp add: exit_inv_def)
  then have new: "shut_state i s'" using shut_state_step [OF st] lbs by blast
  have "op_done d' i" if fin: "op_done d i"
  proof -
    obtain r where "i < length (g_tasks (md_sup d))" "g_tasks (md_sup d) ! i = TDone r"
      using fin by (auto simp: op_done_iff)
    then have "g_tasks s' ! i = TDone r" using done_kept [OF st] old lbs by (simp add: shut_state_def)
    then show ?thesis using new by (simp add: op_done_iff d' shut_state_def others_idle_def)
  qed
  then show ?thesis using assms(2) new by (auto simp: exit_inv_def d')
qed (use assms in \<open>auto simp: exit_inv_def undisturbed_def op_done_def serve_with_Some serving_def gone_def split: if_splits main_pc.splits\<close>)

lemma exit_run:
  "run_gopmd pd es d = Some d' \<Longrightarrow> exit_inv i d \<Longrightarrow> list_all undisturbed es \<Longrightarrow> exit_inv i d'"
proof (induction es arbitrary: d)
  case (Cons e es)
  then obtain d1 where d1: "main_step pd e d = Some d1" "run_gopmd pd es d1 = Some d'" by (auto split: option.splits)
  then show ?case using Cons exit_step [OF d1(1)] by simp
qed simp

lemma all_stopped_no_child:
  assumes "sys_inv s" and "left_to (snd ` set (g_procs s)) s {}" and "(n, a) \<in> set (g_procs s)"
  shows "\<not> supervises s j a \<and> \<not> has_child s a k"
proof -
  have "done_closed s a" using assms(2,3) by (force simp: left_to_def)
  then have none: "\<not> supervises s j a" for j
    using done_closed_no_owner [OF assms(1)] supervises_owner by (metis less_irrefl)
  have "\<not> has_child s a k"
  proof
    assume "has_child s a k"
    then obtain j dn l where "j < length (g_tasks s)" "g_tasks s ! j = TSup a dn l" "child_of (l_pc l) = Some k"
      by (auto simp: has_child_iff)
    then have "supervises s j a" by (auto simp: supervises_def)
    with none show False by blast
  qed
  with none show ?thesis by blast
qed

section \<open>Properties\<close>

text \<open>C16. A daemon serves its clients only after it has restored all of its apps: when it has loaded a state
  with distinct names, then in any interleaving of the restore with the goroutines it has started, their
  children and signals, the registry holds all apps of the state under their names and with their
  configurations, in order, by the time the accept loop can start.\<close>

theorem restored_before_serving:
  assumes "run_gopmd pd (DListen True # DLoad (Inr st) # es) NewGopmd = Some d" and "distinct (map (\<lambda>a. ac_Name (pa_Config a)) (st_Apps st))"
    and "md_pc d = MServing" and "sv_serve (md_srv d) = SNotCalled"
  shows "map (\<lambda>(n, a). (n, mp_Config (g_mps (md_sup d) a))) (g_procs (md_sup d))
    = map (\<lambda>a. (ac_Name (pa_Config a), pa_Config a)) (st_Apps st)"
proof -
  let ?cs = "map pa_Config (st_Apps st)"
  obtain d0 where d0: "run_gopmd pd [DListen True, DLoad (Inr st)] NewGopmd = Some d0" "run_gopmd pd es d0 = Some d"
    using assms(1) by (auto split: option.splits)
  have "gopmd_inv d0" using whole.reach_inv [OF refl d0(1)] .
  moreover have "md_sup d0 = New \<and> md_pc d0 = MNext ?cs \<and> sv_serve (md_srv d0) = SNotCalled \<and> sv_inflight (md_srv d0) = 0"
    using d0(1) by (auto simp: NewGopmd_def NewServer_def serve_with_def)
  ultimately have "restore_inv ?cs d0"
    by (simp add: restore_inv_def restoring_def pending_def apps_of_def New_def)
  then have "restore_inv ?cs d \<or> past_restore d" using restore_run [OF d0(2), of ?cs] assms(2) by (simp add: comp_def)
  then show ?thesis using assms(3,4) by (auto simp: restore_inv_def past_restore_def pending_def apps_of_def named_def comp_def)
qed

definition restore_one :: "nat \<Rightarrow> string list \<Rightarrow> md_ev list" where
  "restore_one i ns = DStart # map (\<lambda>e. DSup (LOp i e)) [OPort False, OGo, OGo, OOrder ns, OSaved True] @ [DStarted]"

lemmas boot_defs = restore_one_def NewGopmd_def NewServer_def serve_with_def start_op_def op_done_def own_label_def
  gone_def serving_def to_state_def

theorem restored_before_serving_witness:
  "\<exists>d. run_gopmd no_dur (DListen True # DLoad (Inr (to_state [(job, 0), (job_b, 3)]))
       # restore_one 0 [''a''] @ map DSup (up_run 1 0) @ restore_one 2 [''b'', ''a''] @ [DServe]) NewGopmd = Some d
     \<and> map (\<lambda>(n, a). (n, mp_Config (g_mps (md_sup d) a))) (g_procs (md_sup d)) = [(''a'', job), (''b'', job_b)]"
proof -
  let ?st = "to_state [(job, 0), (job_b, 3)]"
    and ?es = "restore_one 0 [''a''] @ map DSup (up_run 1 0) @ restore_one 2 [''b'', ''a''] @ [DServe]"
  obtain d where d: "run_gopmd no_dur (DListen True # DLoad (Inr ?st) # ?es) NewGopmd = Some d"
    "md_pc d = MServing" "sv_serve (md_srv d) = SNotCalled"
    by (simp add: boot_defs run_defs job_b_def insert_commute)
  have "distinct (map (\<lambda>a. ac_Name (pa_Config a)) (st_Apps ?st))" by (simp add: to_state_def job_def job_b_def)
  from restored_before_serving [OF d(1) this d(2,3)] d(1) show ?thesis
    by (simp add: to_state_def job_def job_b_def)
qed

text \<open>C17. An orderly exit leaves nothing behind: when no command is at work as the context is done, no
  handler calls the supervisor after that and no stop times out, then the daemon exits with code 0
  and no process of its registry has a supervise goroutine or a child, whatever requests were served before,
  and however the accept loop, the goroutines and the children move until the exit.\<close>

theorem orderly_exit_leaves_no_child:
  assumes "run_gopmd pd es0 NewGopmd = Some d0" and "list_all idle_task (g_tasks (md_sup d0))"
    and "run_gopmd pd (DGone # es) d0 = Some d" and "list_all undisturbed es" and "md_pc d = MExit c"
    and "(n, a) \<in> set (g_procs (md_sup d))"
  shows "c = 0 \<and> g_ctx (md_sup d) \<and> (\<forall>j. \<not> supervises (md_sup d) j a) \<and> (\<forall>k. \<not> has_child (md_sup d) a k)"
proof -
  have inv0: "gopmd_inv d0" using whole.reach_inv [OF refl assms(1)] .
  have "not_stopped (md_sup NewGopmd)" by (simp add: not_stopped_def NewGopmd_def New_def)
  then have "stopping d0 \<or> not_stopped (md_sup d0)"
    using reach_not_stopped [OF assms(1)] whole.init_inv by blast
  moreover obtain d1 where d1: "main_step pd DGone d0 = Some d1" "run_gopmd pd es d1 = Some d"
    using assms(3) by (auto split: option.splits)
  then have pc: "md_pc d0 = MServing" and d1': "d1 = start_op TShutdown MShut d0" by (auto split: if_splits)
  ultimately have "not_stopped (md_sup d0)" by (simp add: stopping_def)
  let ?i = "length (g_tasks (md_sup d0))"
  have "sys_inv (md_sup d1)" using whole.step_inv [OF d1(1) inv0] by (simp add: gopmd_inv_def)
  moreover have "others_idle ?i (md_sup d1)" using assms(2)
    by (auto simp: d1' start_op_def others_idle_def list_all_length nth_append)
  moreover have "g_tasks (md_sup d1) ! ?i = TShutdown" "\<not> g_stopped (md_sup d1)" "md_pc d1 = MShut ?i"
    using \<open>not_stopped (md_sup d0)\<close> by (simp_all add: d1' start_op_def not_stopped_def)
  ultimately have "exit_inv ?i d1" by (simp add: exit_inv_def shut_state_def)
  then have d: "exit_inv ?i d" using exit_run [OF d1(2)] assms(4) by blast
  then have "c = 0" "op_done d ?i" using assms(5) by (auto simp: exit_inv_def)
  then obtain r where "g_tasks (md_sup d) ! ?i = TDone r" by (auto simp: op_done_iff)
  then have "sys_inv (md_sup d)" "g_ctx (md_sup d)" "left_to (snd ` set (g_procs (md_sup d))) (md_sup d) {}"
    using d by (auto simp: exit_inv_def shut_state_def)
  then show ?thesis using all_stopped_no_child [OF _ _ assms(6)] \<open>c = 0\<close> by blast
qed

definition served_run :: "md_ev list" where
  "served_run = DListen True # DLoad (Inr (to_state [(job, 0)])) # restore_one 0 [''a''] @ map DSup (up_run 1 0)
     @ [DServe, DServer VServe, DServer VConn, DServer VAdd, DShutdownReq, DHandled, DCancel]"

definition exit_run_events :: "md_ev list" where
  "exit_run_events = map DSup (LOp 2 (OOrder [''a'']) # shut_run_labels)
     @ [DServer VCloser, DServer VAcceptError, DServer VDrained, DShutDone, DClosed]"

theorem orderly_exit_leaves_no_child_witness:
  "\<exists>d0 d. run_gopmd no_dur served_run NewGopmd = Some d0 \<and> g_alive (md_sup d0) = {0}
     \<and> run_gopmd no_dur (DGone # exit_run_events) d0 = Some d \<and> md_pc d = MExit 0 \<and> g_procs (md_sup d) = [(''a'', 0)]
     \<and> (\<forall>k. \<not> has_child (md_sup d) 0 k)"
proof -
  obtain d0 d where d0: "run_gopmd no_dur served_run NewGopmd = Some d0" "list_all idle_task (g_tasks (md_sup d0))" "g_alive (md_sup d0) = {0}"
    and d: "run_gopmd no_dur (DGone # exit_run_events) d0 = Some d" "md_pc d = MExit 0" "g_procs (md_sup d) = [(''a'', 0)]"
    by (simp add: boot_defs run_defs served_run_def exit_run_events_def shut_run_labels_def)
  have "list_all undisturbed exit_run_events"
    by (simp add: exit_run_events_def undisturbed_def shut_run_labels_def down_run_def)
  then show ?thesis using orderly_exit_leaves_no_child [OF d0(1,2) d(1) _ d(2), of "''a''" 0] d0 d by auto
qed

text \<open>The restore saves after each start what it has started so far, and \<open>main\<close> handles signals only
  afterwards: a daemon that is interrupted while it restores dies at once and leaves the children it
  has started, and the state file has lost the apps that were still to come.\<close>

theorem restore_interrupted_loses_apps:
  "\<exists>d. run_gopmd no_dur (DListen True # DLoad (Inr (to_state [(job, 0), (job_b, 3)]))
       # restore_one 0 [''a''] @ map DSup (up_run 1 0) @ [DSignal]) NewGopmd = Some d
     \<and> md_pc d = MKilled \<and> has_child (md_sup d) 0 0 \<and> g_saved (md_sup d) = Some [(job, 0)]"
  by (simp add: boot_defs run_defs has_child_def)

end
