(* ===== verification/Handover.thy ===== *)
theory Handover
  imports Gopmd
begin

text \<open>
  Two daemons on one machine (the client starts a new one whenever the old one does not answer,
  \<open>ensureDaemonRunning\<close> of \<open>cmd/gopm/main.go\<close>): they share the port of \<open>ipc.DefaultAddr\<close> and the
  state file. The port keeps them from serving at the same time, but a daemon frees it when it
  begins to shut down and not when it has stopped its children.
\<close>

section \<open>The shared port\<close>

text \<open>A daemon holds the port from the bind until its socket is closed or its process ends.\<close>

definition bound :: "gopmd \<Rightarrow> bool" where
  "bound d \<longleftrightarrow> sv_open (md_srv d) \<and> \<not> gone d"

definition bind_agrees :: "md_ev \<Rightarrow> gopmd \<Rightarrow> bool" where
  "bind_agrees e other \<longleftrightarrow> (case e of DListen ok \<Rightarrow> ok = (\<not> bound other) | _ \<Rightarrow> True)"

text \<open>\<open>True\<close> is an event of the first daemon.\<close>

fun duo_step :: "(string \<Rightarrow> int option) \<Rightarrow> bool \<times> md_ev \<Rightarrow> gopmd \<times> gopmd \<Rightarrow> (gopmd \<times> gopmd) option" where
  "duo_step pd (True, e) (x, y) = (if bind_agrees e y then map_option (\<lambda>x'. (x', y)) (main_step pd e x) else None)"
| "duo_step pd (False, e) (x, y) = (if bind_agrees e x then map_option (\<lambda>y'. (x, y')) (main_step pd e y) else None)"

section \<open>At most one daemon holds the port\<close>

text \<open>Only the bind gives a daemon the port.\<close>

lemma server_opens: "server_step e s = Some s' \<Longrightarrow> e \<noteq> VListen \<Longrightarrow> sv_open s' \<Longrightarrow> sv_open s"
  by (cases e) (auto split: if_splits)

lemma bound_step:
  assumes "main_step pd e d = Some d'" and "bound d'"
  shows "bound d \<or> e = DListen True"
proof (cases e)
  case (DListen ok)
  then show ?thesis using assms by (cases ok) (auto simp: bound_def gone_def split: if_splits)
qed (use assms in \<open>auto simp: bound_def gone_def serving_def serve_with_Some start_op_def dest: server_opens
      split: if_splits main_pc.splits list.splits\<close>)

definition one_bound :: "gopmd \<times> gopmd \<Rightarrow> bool" where
  "one_bound xy \<longleftrightarrow> \<not> (bound (fst xy) \<and> bound (snd xy)) \<and> gopmd_inv (fst xy) \<and> gopmd_inv (snd xy)"

lemma one_bound_step: "duo_step pd l xy = Some xy' \<Longrightarrow> one_bound xy \<Longrightarrow> one_bound xy'"
  by (cases l; cases xy; cases "fst l")
    (auto simp: one_bound_def bind_agrees_def split: if_splits dest: bound_step whole.step_inv)

interpretation duo: transition_system "\<lambda>xy. xy = (NewGopmd, NewGopmd)" "duo_step pd" one_bound
  by unfold_locales (auto simp: one_bound_step, simp add: one_bound_def whole.init_inv bound_def NewGopmd_def NewServer_def)

text \<open>A daemon that does not get the port changes nothing: it is gone before it has read the state
  file, and it never starts or saves an app.\<close>

lemma port_taken_no_effect:
  assumes "run_gopmd pd (DListen False # es) NewGopmd = Some d"
  shows "d = NewGopmd\<lparr>md_pc := MExit 1\<rparr>"
proof -
  let ?d = "NewGopmd\<lparr>md_pc := MExit 1\<rparr>"
  have stuck: "main_step pd e ?d = None" for e
    by (cases e) (auto simp: NewGopmd_def gone_def serving_def own_label_def sys_step_def New_def split: label.splits)
  have "run_gopmd pd es ?d = Some d" using assms by (simp add: NewGopmd_def)
  then show ?thesis using stuck by (cases es) auto
qed

lemma one_daemon_listens:
  "run_steps (duo_step pd) ls (NewGopmd, NewGopmd) = Some (x, y) \<Longrightarrow> \<not> (bound x \<and> bound y)"
  using duo.reach_inv [of "(NewGopmd, NewGopmd)" pd ls "(x, y)"] by (simp add: one_bound_def)

section \<open>Properties\<close>

definition handover_run :: "(bool \<times> md_ev) list" where
  "handover_run = map (Pair True) (served_run @ [DGone, DServer VCloser])
     @ map (Pair False) (DListen True # DLoad (Inr (to_state [(job, 0)])) # restore_one 0 [''a''] @ map DSup (up_run 1 0))"


end
