(* ===== verification/Dependencies.thy ===== *)
theory Dependencies
  imports System_Props
begin

text \<open>
  What \<open>depends_on\<close> promises (\<open>waitForDeps\<close> of \<open>internal/supervisor/supervisor.go\<close>) in the concurrent
  supervisor: a child is started only after its goroutine has seen every dependency up, and apps
  that wait for each other, or for an app nobody starts, wait for ever. \<open>Validate\<close> accepts both.
\<close>

section \<open>Past the wait\<close>

fun waiting :: "pc \<Rightarrow> bool" where
  "waiting PInit = True"
| "waiting (PDeps ds) = True"
| "waiting PDepsWait = True"
| "waiting p = False"

definition past :: "pc \<Rightarrow> bool" where
  "past p \<longleftrightarrow> \<not> waiting p \<and> p \<noteq> PDefer \<and> p \<noteq> PHalt"

definition up :: "Status \<Rightarrow> bool" where
  "up st \<longleftrightarrow> st = StatusOnline \<or> st = StatusReady"

lemma child_past: "child_of p = Some c \<Longrightarrow> past p"
  by (cases p) (auto simp: past_def)

lemma dep_ready_iff: "dep_ready f d \<longleftrightarrow> (\<exists>st. f d = Some st \<and> up st)"
  by (auto simp: dep_ready_def up_def split: option.splits)

section \<open>Dependencies that never come up\<close>

definition needs :: "string set \<Rightarrow> AppConfig \<Rightarrow> bool" where
  "needs D cfg \<longleftrightarrow> (ac_Name cfg \<in> D \<longrightarrow> (\<exists>d \<in> set (ac_DependsOn cfg). d \<in> D))"

text \<open>The names of \<open>D\<close> wait for each other: every app started under one of them depends on one.\<close>

definition waits_in :: "string set \<Rightarrow> label \<Rightarrow> bool" where
  "waits_in D lb = (case lb of LCmd (TStart cfg) \<Rightarrow> needs D cfg | _ \<Rightarrow> True)"

definition held :: "string set \<Rightarrow> pc \<Rightarrow> bool" where
  "held D p \<longleftrightarrow> \<not> past p \<and> (\<forall>ds. p = PDeps ds \<longrightarrow> (\<exists>d \<in> set ds. d \<in> D))"

lemma held_simps [simp]:
  "held D PInit" "held D PDepsWait" "held D PDefer" "held D PHalt"
  "held D (PDeps ds) \<longleftrightarrow> (\<exists>d \<in> set ds. d \<in> D)"
  by (simp_all add: held_def past_def)

fun task_held :: "string set \<Rightarrow> gopm \<Rightarrow> task \<Rightarrow> bool" where
  "task_held D s (TStart cfg) = needs D cfg"
| "task_held D s (TSetConfig a cfg) = needs D cfg"
| "task_held D s (TSup a dn l) = (app_name s a \<in> D \<longrightarrow> held D (l_pc l))"
| "task_held D s t = True"

definition mp_held :: "string set \<Rightarrow> ManagedProcess \<Rightarrow> bool" where
  "mp_held D mp \<longleftrightarrow> needs D (mp_Config mp) \<and> (ac_Name (mp_Config mp) \<in> D \<longrightarrow> \<not> up (mp_status mp))"

definition held_inv :: "string set \<Rightarrow> gopm \<Rightarrow> bool" where
  "held_inv D s \<longleftrightarrow> (\<forall>a < g_nextID s. mp_held D (g_mps s a)) \<and> (\<forall>t \<in> set (g_tasks s). task_held D s t)"

lemma not_ready:
  assumes "inv_reg s" and "held_inv D s" and "d \<in> D"
  shows "\<not> dep_ready (status_of s) d"
proof
  assume "dep_ready (status_of s) d"
  then obtain a where a: "lookup s d = Some a" "up (mp_status (g_mps s a))"
    by (auto simp: dep_ready_iff status_of_def)
  then have "a < g_nextID s" "app_name s a = d" using lookup_reg [OF assms(1)] by simp_all
  then show False using assms(2,3) a(2) by (auto simp: held_inv_def mp_held_def app_name_def)
qed

text \<open>A step of the goroutine of such an app keeps it waiting.\<close>

lemma sup_tr_held:
  "sup_tr v e mp l mp' l' as \<Longrightarrow> needs D (mp_Config mp) \<Longrightarrow> ac_Name (mp_Config mp) \<in> D \<Longrightarrow> held D (l_pc l)
     \<Longrightarrow> \<not> up (mp_status mp) \<Longrightarrow> (\<And>d. d \<in> D \<Longrightarrow> \<not> dep_ready (v_deps v) d) \<Longrightarrow> held D (l_pc l') \<and> \<not> up (mp_status mp')"
proof (induction rule: sup_tr.induct)
  case (deps_next l d ds v mp)
  then show ?case by (auto simp: held_def past_def)
next
  case (has_deps l mp v)
  then show ?case by (auto simp: needs_def)
next
  case (deps_poll l v mp)
  then show ?case by (auto simp: needs_def)
qed (auto simp: held_def past_def needs_def up_def)

text \<open>What a command does to the configurations and statuses.\<close>

lemma op_tr_held:
  assumes "op_tr e t s s' t' ts" and "task_ok s t" and "held_inv D s" and "task_held D s t"
  shows "(\<forall>a < g_nextID s'. mp_held D (g_mps s' a)) \<and> (\<forall>u \<in> set (t' # ts). task_held D s' u)"
  using assms
  by (induction rule: op_tr.induct)
    (auto simp: held_inv_def mp_held_def register_def renew_def unlock_def newManagedProcess_def less_Suc_eq up_def
      found_def stopped_to_def timed_out_to_def app_name_def split: option.splits stop_kont.splits)

lemma put_held:
  assumes "\<forall>a < g_nextID s'. mp_held D (g_mps s' a)" and "\<forall>u \<in> set (t' # ts). task_held D s' u"
    and "\<forall>u \<in> set (g_tasks s). task_held D s u" and "g_tasks s' = g_tasks s"
    and "\<forall>u \<in> set (g_tasks s). addrs u \<subseteq> {..< g_nextID s}" and "\<forall>a < g_nextID s. app_name s' a = app_name s a"
  shows "held_inv D (put_task i t' ts s')"
proof -
  have other: "task_held D s' u" if "u \<in> set (g_tasks s)" for u
    using assms(3,5,6) that by (cases u) force+
  have same: "task_held D (put_task i t' ts s') u = task_held D s' u" for u
    by (cases u) (simp_all add: app_name_def)
  have "u \<in> set (g_tasks s) \<or> u \<in> set (t' # ts)" if "u \<in> set (g_tasks (put_task i t' ts s'))" for u
    using that assms(4) set_update_subset_insert [of "g_tasks s" i t'] by (auto simp: put_task_def)
  then have "\<forall>u \<in> set (g_tasks (put_task i t' ts s')). task_held D (put_task i t' ts s') u"
    using other same assms(2) by blast
  then show ?thesis using assms(1) by (simp add: held_inv_def)
qed

lemma sup_task_held:
  assumes "sup_task_step pd e (g_tasks s ! i) s = Some (s1, t', ts)" and "sys_inv s" and "i < length (g_tasks s)" and "held_inv D s"
  shows "held_inv D (put_task i t' ts s1)"
  using assms(1)
proof (cases rule: sup_task_cases)
  case (starts a)
  have "\<forall>u \<in> set (g_tasks s). addrs u \<subseteq> {..< g_nextID s}" using assms(2) by (simp add: sys_inv_def inv_tasks_def)
  with assms(4) show ?thesis
    by (intro put_held [of s1 D t' ts s]) (simp_all add: starts init_loc_def held_inv_def)
next
  case (moves a dn l mp' l' as s2)
  note f = sup_moves [OF assms(2,3) moves(1,4)]
  have reg: "inv_reg s" and addr: "\<forall>u \<in> set (g_tasks s). addrs u \<subseteq> {..< g_nextID s}"
    using assms(2) by (simp_all add: sys_inv_def inv_tasks_def)
  have mine: "task_held D s (TSup a dn l)" using assms(3,4) moves(1) nth_mem [OF assms(3)] by (auto simp: held_inv_def)
  have mp: "mp_held D (g_mps s a)" using assms(4) f(1) by (simp add: held_inv_def)
  have new: "mp_held D mp' \<and> (app_name s a \<in> D \<longrightarrow> held D (l_pc l'))"
  proof (cases "app_name s a \<in> D")
    case True
    have "held D (l_pc l') \<and> \<not> up (mp_status mp')"
    proof (rule sup_tr_held [OF moves(4)])
      show "\<And>d. d \<in> D \<Longrightarrow> \<not> dep_ready (v_deps (view_of pd s a)) d"
        using not_ready [OF reg assms(4)] by (simp add: view_of_def)
    qed (use True mine mp in \<open>simp_all add: mp_held_def app_name_def\<close>)
    then show ?thesis using mp f(6) by (simp add: mp_held_def)
  next
    case False
    then show ?thesis using mp f(6) by (simp add: mp_held_def app_name_def)
  qed
  have s1: "g_mps s1 = (g_mps s)(a := mp')" "g_nextID s1 = g_nextID s" "g_tasks s1 = g_tasks s"
    by (simp_all add: moves(6) child_started_simps [OF moves(5)])
  have name: "app_name s1 b = app_name s b" for b by (simp add: app_name_def s1 f(6))
  show ?thesis
    by (rule put_held [of s1 D t' ts s]) (use assms(4) new addr in \<open>auto simp: s1 name moves(2,3) held_inv_def\<close>)
qed

lemma held_step:
  assumes "sys_step pd lb s = Some s'" and "waits_in D lb" and "sys_inv s" and "held_inv D s"
  shows "held_inv D s'"
proof (cases lb)
  case (LCmd t)
  then have t: "is_request t" and s': "s' = s\<lparr>g_tasks := g_tasks s @ [t]\<rparr>"
    using assms(1) by (auto simp: sys_step_def split: if_splits)
  have "task_held D s' u = task_held D s u" for u by (cases u) (simp_all add: s' app_name_def)
  moreover have "task_held D s t" using t assms(2) LCmd by (auto simp: is_request_def waits_in_def split: task.splits)
  ultimately show ?thesis using assms(4) by (auto simp: held_inv_def s')
next
  case (LOp i e)
  then obtain s1 t' ts where i: "i < length (g_tasks s)" and st: "op_step e (g_tasks s ! i) s = Some (s1, t', ts)"
    and s': "s' = put_task i t' ts s1"
    using assms(1) by (auto simp: sys_step_def commit_put split: if_splits)
  note tr = op_step_tr [OF st]
  have ok: "task_ok s (g_tasks s ! i)" "\<forall>u \<in> set (g_tasks s). addrs u \<subseteq> {..< g_nextID s}"
    using task_inv [OF assms(3) i] assms(3) by (simp_all add: sys_inv_def inv_tasks_def)
  have mine: "task_held D s (g_tasks s ! i)" using assms(4) nth_mem [OF i] by (simp add: held_inv_def)
  have "keeps s s1 (TDone None)" using op_tr_keeps [OF tr ok(1), of "TDone None"] by simp
  then have "\<forall>a < g_nextID s. app_name s1 a = app_name s a" by (simp add: keeps_def)
  then show ?thesis unfolding s'
    using op_tr_held [OF tr ok(1) assms(4) mine] op_tr_tasks [OF tr] ok(2) assms(4)
    by (intro put_held [of s1 D t' ts s]) (simp_all add: held_inv_def)
next
  case (LSup i e)
  then show ?thesis using assms sup_task_held [of pd e s i _ _ _ D]
    by (auto simp: sys_step_def commit_put split: if_splits)
next
  case (LExit c)
  have "task_held D (s\<lparr>g_alive := g_alive s - {c}\<rparr>) u = task_held D s u" for u by (cases u) (simp_all add: app_name_def)
  then show ?thesis using LExit assms by (auto simp: sys_step_def held_inv_def split: if_splits)
next
  case (LRebuild a)
  then have s': "s' = set_mp a ((g_mps s a)\<lparr>mp_rebuildCh := True\<rparr>) s" using assms(1) by (auto simp: sys_step_def split: if_splits)
  have "task_held D s' u = task_held D s u" for u by (cases u) (simp_all add: s' app_name_def)
  then show ?thesis using assms(4) by (auto simp: held_inv_def mp_held_def s')
qed

lemma held_run:
  "run_steps (sys_step pd) ls s = Some s' \<Longrightarrow> list_all (waits_in D) ls \<Longrightarrow> sys_inv s \<Longrightarrow> held_inv D s \<Longrightarrow> held_inv D s'"
proof (induction ls arbitrary: s)
  case (Cons lb ls)
  then show ?case by (auto split: option.splits dest: held_step sys_step_inv)
qed simp

section \<open>What a goroutine has seen before its child starts\<close>

text \<open>Goroutine \<open>i\<close> of process \<open>a\<close> is in \<open>waitForDeps\<close>; between two points of a run it was there while
  \<open>d\<close> was online or ready.\<close>

definition in_wait :: "gopm \<Rightarrow> nat \<Rightarrow> nat \<Rightarrow> bool" where
  "in_wait s i a \<longleftrightarrow> i < length (g_tasks s) \<and> (\<exists>dn l. g_tasks s ! i = TSup a dn l \<and> waiting (l_pc l))"

definition seen_up :: "(string \<Rightarrow> int option) \<Rightarrow> label list \<Rightarrow> label list \<Rightarrow> nat \<Rightarrow> nat \<Rightarrow> string \<Rightarrow> bool" where
  "seen_up pd ls0 ls i a d \<longleftrightarrow>
     (\<exists>ls1 s1 b. prefix ls0 ls1 \<and> prefix ls1 ls \<and> run_sys pd ls1 = Some s1 \<and> in_wait s1 i a
        \<and> lookup s1 d = Some b \<and> up (mp_status (g_mps s1 b)))"

text \<open>A scan over the dependencies the process had when it began has \<open>ds\<close> left.\<close>

definition scanned :: "(string \<Rightarrow> int option) \<Rightarrow> label list \<Rightarrow> nat \<Rightarrow> nat \<Rightarrow> string list \<Rightarrow> bool" where
  "scanned pd ls i a ds \<longleftrightarrow>
     (\<exists>ls0 s0 seen. prefix ls0 ls \<and> run_sys pd ls0 = Some s0 \<and> in_wait s0 i a
        \<and> ac_DependsOn (mp_Config (g_mps s0 a)) = seen @ ds \<and> (\<forall>d \<in> set seen. seen_up pd ls0 ls i a d))"

lemma seen_up_later: "seen_up pd ls0 ls i a d \<Longrightarrow> prefix ls ls' \<Longrightarrow> seen_up pd ls0 ls' i a d"
  unfolding seen_up_def by (meson prefix_order.trans)

lemma scanned_later: "scanned pd ls i a ds \<Longrightarrow> prefix ls ls' \<Longrightarrow> scanned pd ls' i a ds"
  unfolding scanned_def by (meson prefix_order.trans seen_up_later)

lemma scanned_start:
  "run_sys pd ls = Some s \<Longrightarrow> in_wait s i a \<Longrightarrow> ac_DependsOn (mp_Config (g_mps s a)) = ds \<Longrightarrow> scanned pd ls i a ds"
  unfolding scanned_def by (intro exI [of _ ls] exI [of _ s] exI [of _ "[]"]) simp

lemma scanned_next:
  assumes "scanned pd ls i a (d # ds)" and "run_sys pd ls = Some s" and "in_wait s i a" and "dep_ready (status_of s) d"
  shows "scanned pd ls i a ds"
proof -
  obtain ls0 s0 seen where sc: "prefix ls0 ls" "run_sys pd ls0 = Some s0" "in_wait s0 i a"
    "ac_DependsOn (mp_Config (g_mps s0 a)) = seen @ d # ds" "\<forall>d \<in> set seen. seen_up pd ls0 ls i a d"
    using assms(1) by (auto simp: scanned_def)
  obtain b where "lookup s d = Some b" "up (mp_status (g_mps s b))"
    using assms(4) by (auto simp: dep_ready_iff status_of_def)
  then have "seen_up pd ls0 ls i a d" unfolding seen_up_def using sc(1) assms(2,3) by blast
  then show ?thesis unfolding scanned_def using sc
    by (intro exI [of _ ls0] exI [of _ s0] exI [of _ "seen @ [d]"]) auto
qed

lemma sup_tr_scan:
  "sup_tr v e mp l mp' l' as \<Longrightarrow>
     (\<forall>ds. l_pc l' = PDeps ds \<longrightarrow> (waiting (l_pc l) \<and> ds = ac_DependsOn (mp_Config mp))
        \<or> (\<exists>d. l_pc l = PDeps (d # ds) \<and> dep_ready (v_deps v) d))
   \<and> (past (l_pc l') \<longrightarrow> past (l_pc l) \<or> l_pc l = PDeps [] \<or> (l_pc l = PInit \<and> ac_DependsOn (mp_Config mp) = []))"
proof (induction rule: sup_tr.induct)
  case (start_fail l m mp mp' l' as v)
  then show ?case by (auto simp: past_def branches split: branch_splits)
next
  case (run_exit l c v mp mp' l' bs)
  then show ?case by (auto simp: past_def branches split: branch_splits)
next
  case (killed l r c v mp mp' l')
  then show ?case by (auto simp: past_def branches split: branch_splits)
next
  case (forced l r c v mp mp' l')
  then show ?case by (auto simp: past_def branches split: branch_splits)
qed (auto simp: past_def build_done_def)

lemma op_tr_no_sup: "op_tr e t s s' t' ts \<Longrightarrow> TSup a dn l \<notin> set (t' # ts)"
  by (induction rule: op_tr.induct)
    (auto simp: found_def stopped_to_def timed_out_to_def split: option.splits stop_kont.splits)

text \<open>Where a goroutine was one step ago.\<close>

lemma sup_origin:
  assumes "sys_step pd lb s = Some s'" and "j < length (g_tasks s')" and "g_tasks s' ! j = TSup a dn l'"
  shows "l_pc l' = PInit \<or> (j < length (g_tasks s) \<and> (\<exists>l. g_tasks s ! j = TSup a dn l
     \<and> (l = l' \<or> (\<exists>e mp' as. sup_tr (view_of pd s a) e (g_mps s a) l mp' l' as))))"
proof (cases lb)
  case (LCmd t)
  then show ?thesis using assms by (auto simp: sys_step_def nth_append is_request_def split: if_splits task.splits)
next
  case (LOp i e)
  then obtain s1 t' ts where i: "i < length (g_tasks s)" and st: "op_step e (g_tasks s ! i) s = Some (s1, t', ts)"
    and s': "s' = put_task i t' ts s1"
    using assms(1) by (auto simp: sys_step_def commit_put split: if_splits)
  note tr = op_step_tr [OF st]
  have no: "TSup a dn l' \<noteq> t'" "TSup a dn l' \<notin> set ts" using op_tr_no_sup [OF tr, of a dn l'] by auto
  have j: "j < length (g_tasks s)"
  proof (rule ccontr)
    assume "\<not> j < length (g_tasks s)"
    then have "TSup a dn l' = ts ! (j - length (g_tasks s))" "j - length (g_tasks s) < length ts"
      using assms(2,3) op_tr_tasks [OF tr] by (auto simp: s' nth_append)
    then show False using no(2) by (metis nth_mem)
  qed
  then have "g_tasks s ! j = TSup a dn l'"
    using assms(3) op_tr_tasks [OF tr] no(1) i by (cases "j = i") (auto simp: s' nth_append)
  with j show ?thesis by blast
next
  case (LSup i e)
  then obtain s1 t' ts where i: "i < length (g_tasks s)" and st: "sup_task_step pd e (g_tasks s ! i) s = Some (s1, t', ts)"
    and s': "s' = put_task i t' ts s1"
    using assms(1) by (auto simp: sys_step_def commit_put split: if_splits)
  from st show ?thesis
  proof (cases rule: sup_task_cases)
    case (starts b)
    then show ?thesis using assms(2,3) by (cases "j = i") (auto simp: s' init_loc_def)
  next
    case (moves b dm m mp' m' as s2)
    have "g_tasks s1 = g_tasks s" by (simp add: moves(6) child_started_simps [OF moves(5)])
    then show ?thesis using assms(2,3) i moves(1-4) by (auto simp: s' nth_list_update split: if_splits)
  qed
qed (use assms in \<open>auto simp: sys_step_def split: if_splits\<close>)

lemma scanned_run:
  "run_sys pd ls = Some s \<Longrightarrow> i < length (g_tasks s) \<Longrightarrow> g_tasks s ! i = TSup a dn l \<Longrightarrow>
     (\<forall>ds. l_pc l = PDeps ds \<longrightarrow> scanned pd ls i a ds) \<and> (past (l_pc l) \<longrightarrow> scanned pd ls i a [])"
proof (induction ls arbitrary: s l rule: rev_induct)
  case Nil
  then show ?case by (auto simp: New_def)
next
  case (snoc lb ls)
  then obtain s1 where run: "run_sys pd ls = Some s1" and st: "sys_step pd lb s1 = Some s"
    by (auto simp: run_steps_append split: option.splits)
  have later: "prefix ls (ls @ [lb])" by simp
  from sup_origin [OF st snoc.prems(2,3)] show ?case
  proof
    assume "l_pc l = PInit"
    then show ?thesis by (simp add: past_def)
  next
    assume "i < length (g_tasks s1) \<and> (\<exists>l1. g_tasks s1 ! i = TSup a dn l1
      \<and> (l1 = l \<or> (\<exists>e mp' as. sup_tr (view_of pd s1 a) e (g_mps s1 a) l1 mp' l as)))"
    then obtain l1 where i: "i < length (g_tasks s1)" and l1: "g_tasks s1 ! i = TSup a dn l1"
      and how: "l1 = l \<or> (\<exists>e mp' as. sup_tr (view_of pd s1 a) e (g_mps s1 a) l1 mp' l as)" by blast
    note IH = snoc.IH [OF run i l1]
    have wait: "in_wait s1 i a" if "waiting (l_pc l1)" using i l1 that by (auto simp: in_wait_def)
    from how show ?thesis
    proof
      assume "l1 = l"
      then show ?thesis using IH scanned_later [OF _ later] by blast
    next
      assume "\<exists>e mp' as. sup_tr (view_of pd s1 a) e (g_mps s1 a) l1 mp' l as"
      then obtain e mp' as where "sup_tr (view_of pd s1 a) e (g_mps s1 a) l1 mp' l as" by blast
      note scan = sup_tr_scan [OF this]
      have "scanned pd ls i a ds" if "l_pc l = PDeps ds" for ds
        using scan that IH wait scanned_start [OF run] scanned_next [OF _ run] by (force simp: view_of_def)
      moreover have "scanned pd ls i a []" if "past (l_pc l)"
        using scan that IH wait scanned_start [OF run, of i a "[]"] by force
      ultimately show ?thesis using scanned_later [OF _ later] by blast
    qed
  qed
qed

section \<open>Properties\<close>

text \<open>C6. \<open>depends_on\<close> orders the starts: a child runs only if its goroutine has waited until it saw,
  one after the other, each dependency of the app online or ready (those its configuration named
  when the scan began). Restarts wait again.\<close>

theorem child_waits_for_dependencies:
  assumes "run_sys pd ls = Some s" and "has_child s a c"
  shows "\<exists>i ls0 s0. prefix ls0 ls \<and> run_sys pd ls0 = Some s0 \<and> in_wait s0 i a
     \<and> (\<exists>dn l. i < length (g_tasks s) \<and> g_tasks s ! i = TSup a dn l \<and> child_of (l_pc l) = Some c)
     \<and> (\<forall>d \<in> set (ac_DependsOn (mp_Config (g_mps s0 a))). seen_up pd ls0 ls i a d)"
proof -
  obtain i dn l where i: "i < length (g_tasks s)" "g_tasks s ! i = TSup a dn l" "child_of (l_pc l) = Some c"
    using assms(2) by (auto simp: has_child_iff)
  have "scanned pd ls i a []" using scanned_run [OF assms(1) i(1,2)] child_past [OF i(3)] by blast
  then show ?thesis using i unfolding scanned_def by (metis append_Nil2)
qed

text \<open>C7. Apps that depend on each other never start: when every app started under a name of \<open>D\<close>
  depends on a name of \<open>D\<close> (a cycle, or a name nobody starts), no such app ever has a child or is
  shown online, whatever else happens; its goroutine polls for ever. \<open>Validate\<close> does not look at
  \<open>depends_on\<close>.\<close>

theorem dependency_cycle_never_starts:
  assumes "run_sys pd ls = Some s" and "list_all (waits_in D) ls" and "a < g_nextID s" and "app_name s a \<in> D"
  shows "mp_status (g_mps s a) \<noteq> StatusOnline \<and> mp_status (g_mps s a) \<noteq> StatusReady \<and> \<not> has_child s a c"
proof -
  have inv: "held_inv D s" using held_run [OF assms(1,2) New_inv] by (simp add: held_inv_def New_def)
  have "\<not> has_child s a c"
  proof
    assume "has_child s a c"
    then obtain i dn l where i: "i < length (g_tasks s)" "g_tasks s ! i = TSup a dn l" "child_of (l_pc l) = Some c"
      by (auto simp: has_child_iff)
    then have "held D (l_pc l)" using inv assms(4) nth_mem [OF i(1)] by (auto simp: held_inv_def)
    then show False using child_past [OF i(3)] by (simp add: held_def)
  qed
  moreover have "\<not> up (mp_status (g_mps s a))" using inv assms(3,4) by (simp add: held_inv_def mp_held_def app_name_def)
  ultimately show ?thesis by (simp add: up_def)
qed

definition app_b :: AppConfig where
  "app_b = zero_app\<lparr>ac_Name := ''b'', ac_Command := ''y''\<rparr>"

definition app_a :: AppConfig where
  "app_a = job\<lparr>ac_DependsOn := [''b'']\<rparr>"

definition start_cmd :: "nat \<Rightarrow> AppConfig \<Rightarrow> string list \<Rightarrow> label list" where
  "start_cmd i cfg ns = [LCmd (TStart cfg), LOp i (OPort False), LOp i OGo, LOp i OGo, LOp i (OOrder ns), LOp i (OSaved True)]"

text \<open>The app is started first and waits; its dependency comes up; then it goes on.\<close>

definition ordered_run :: "label list" where
  "ordered_run = start_cmd 0 app_a [''a''] @ map (LSup 1) [ETau, ETau, ETau]
     @ start_cmd 2 app_b [''a'', ''b''] @ up_run 3 0
     @ map (LSup 1) [ETimer, ETau, ETau, ETau, ETau, EPipes None None, EStarted 1 101, EPublish 6, ETau]"

theorem child_waits_for_dependencies_witness:
  "\<exists>s i ls0 s0. run_sys no_dur ordered_run = Some s \<and> prefix ls0 ordered_run \<and> run_sys no_dur ls0 = Some s0
     \<and> in_wait s0 i 0 \<and> (\<forall>d \<in> set (ac_DependsOn (mp_Config (g_mps s0 0))). seen_up no_dur ls0 ordered_run i 0 d)"
proof -
  obtain s where s: "run_sys no_dur ordered_run = Some s" "has_child s 0 1"
    by (simp add: ordered_run_def start_cmd_def app_b_def app_a_def run_defs scan_dep_def dep_ready_def status_of_def has_child_def fmt_list_def log_msg_def insert_commute)
  then show ?thesis using child_waits_for_dependencies [OF s] by blast
qed

definition cycle_run :: "label list" where
  "cycle_run = start_cmd 0 app_a [''a''] @ start_cmd 2 (app_b\<lparr>ac_DependsOn := [''a'']\<rparr>) [''a'', ''b''] @ map (LSup 1) [ETau, ETau, ETau]"

theorem dependency_cycle_never_starts_witness:
  "Validate \<lparr>gc_Apps = [app_a, app_b\<lparr>ac_DependsOn := [''a'']\<rparr>]\<rparr> = None
     \<and> (\<exists>s. run_sys no_dur cycle_run = Some s \<and> lookup s ''a'' = Some 0
          \<and> mp_status (g_mps s 0) \<noteq> StatusOnline \<and> (\<forall>c. \<not> has_child s 0 c))"
proof
  show "Validate \<lparr>gc_Apps = [app_a, app_b\<lparr>ac_DependsOn := [''a'']\<rparr>]\<rparr> = None"
    by (simp add: Validate_def app_a_def app_b_def job_def zero_app_def)
  obtain s where s: "run_sys no_dur cycle_run = Some s" "lookup s ''a'' = Some 0" "0 < g_nextID s" "app_name s 0 = ''a''"
    by (simp add: cycle_run_def start_cmd_def app_b_def app_a_def run_defs scan_dep_def dep_ready_def status_of_def app_name_def
        fmt_list_def log_msg_def insert_commute)
  have "list_all (waits_in {''a'', ''b''}) cycle_run"
    by (simp add: cycle_run_def start_cmd_def waits_in_def needs_def app_a_def app_b_def job_def zero_app_def)
  from dependency_cycle_never_starts [OF s(1) this s(3)] s
  show "\<exists>s. run_sys no_dur cycle_run = Some s \<and> lookup s ''a'' = Some 0
      \<and> mp_status (g_mps s 0) \<noteq> StatusOnline \<and> (\<forall>c. \<not> has_child s 0 c)"
    by auto
qed

end
