(* ===== verification/Webhook.thy ===== *)
theory Webhook
  imports Supervise Utf8
begin

text \<open>
  The crash webhook (\<open>sendCrashWebhook\<close> of \<open>internal/supervisor/supervisor.go\<close>), which the act \<open>AWebhook\<close>
  of the supervise goroutine starts: the body it posts, and what a JSON reader makes of it. The
  name of the app goes into the body as it is.
\<close>

definition webhook_payload :: "string \<Rightarrow> string \<Rightarrow> string" where
  "webhook_payload name time = ''{\"event\":\"crash\",\"app\":\"'' @ name @ ''\",\"time\":\"'' @ time @ ''\"}''"

text \<open>\<open>post\<close> is \<open>http.Post\<close> (content type, body), which gives its error or nothing; the result is the line the
  daemon logs.\<close>

definition sendCrashWebhook :: "(string \<Rightarrow> string \<Rightarrow> string \<Rightarrow> string option) \<Rightarrow> string \<Rightarrow> string \<Rightarrow> string \<Rightarrow> string option" where
  "sendCrashWebhook post now name url =
     (case post url ''application/json'' (webhook_payload name now) of
        Some e \<Rightarrow> Some (''supervisor: crash webhook '' @ name @ '': '' @ e)
      | None \<Rightarrow> None)"

section \<open>A reader of flat JSON objects\<close>

text \<open>A string after its opening quote, with the two escapes that matter here.\<close>

fun json_string :: "string \<Rightarrow> (string \<times> string) option" where
  "json_string [] = None"
| "json_string (c # s) =
     (if c = CHR 0x22 then Some ([], s)
      else if c = CHR 0x5C then
        (case s of d # t \<Rightarrow> if d = CHR 0x22 \<or> d = CHR 0x5C then map_option (apfst (Cons d)) (json_string t) else None | [] \<Rightarrow> None)
      else if byte_of c < 0x20 then None
      else map_option (apfst (Cons c)) (json_string s))"

lemma json_string_shorter: "json_string s = Some (v, r) \<Longrightarrow> length r < length s"
  by (induction s arbitrary: v r rule: json_string.induct) (fastforce split: if_splits list.splits)+

definition json_member :: "string \<Rightarrow> ((string \<times> string) \<times> string) option" where
  "json_member s =
     (case s of [] \<Rightarrow> None
      | q # t \<Rightarrow>
        if q \<noteq> CHR 0x22 then None
        else (case json_string t of None \<Rightarrow> None
          | Some (k, u) \<Rightarrow>
            (if take 2 u \<noteq> '':\"'' then None
             else map_option (\<lambda>(v, r). ((k, v), r)) (json_string (drop 2 u)))))"

lemma json_member_shorter: "json_member s = Some (m, r) \<Longrightarrow> length r < length s"
  by (auto simp: json_member_def dest!: json_string_shorter split: list.splits if_splits option.splits)

function json_members :: "string \<Rightarrow> (string \<times> string) list option" where
  "json_members s =
     (case json_member s of None \<Rightarrow> None
      | Some (m, r) \<Rightarrow>
         (if r = ''}'' then Some [m]
          else if take 1 r = '','' then map_option (Cons m) (json_members (drop 1 r))
          else None))"
  by pat_completeness auto
termination
  by (relation "measure length") (auto dest: json_member_shorter)

declare json_members.simps [simp del]

definition read_object :: "string \<Rightarrow> (string \<times> string) list option" where
  "read_object s = (case s of [] \<Rightarrow> None | c # t \<Rightarrow> if c = CHR ''{'' then json_members t else None)"

section \<open>The body\<close>

definition plain :: "string \<Rightarrow> bool" where
  "plain s \<longleftrightarrow> (\<forall>c \<in> set s. c \<noteq> CHR 0x22 \<and> c \<noteq> CHR 0x5C \<and> 0x20 \<le> byte_of c)"

lemma json_string_plain: "plain s \<Longrightarrow> json_string (s @ CHR 0x22 # r) = Some (s, r)"
  by (induction s) (auto simp: plain_def)

text \<open>A member as the body writes it.\<close>

definition member_text :: "string \<Rightarrow> string \<Rightarrow> string" where
  "member_text k v = CHR 0x22 # k @ CHR 0x22 # CHR '':'' # CHR 0x22 # v @ [CHR 0x22]"

lemma json_member_text: "plain k \<Longrightarrow> plain v \<Longrightarrow> json_member (member_text k v @ r) = Some ((k, v), r)"
  by (simp add: member_text_def json_member_def json_string_plain)

lemma json_members_last: "plain k \<Longrightarrow> plain v \<Longrightarrow> json_members (member_text k v @ ''}'') = Some [(k, v)]"
  by (subst json_members.simps) (simp add: json_member_text)

lemma json_members_next:
  "plain k \<Longrightarrow> plain v \<Longrightarrow> json_members (member_text k v @ CHR '','' # r) = map_option (Cons (k, v)) (json_members r)"
  by (subst json_members.simps) (simp add: json_member_text)

lemma payload_members:
  "webhook_payload name time =
     CHR ''{'' # member_text ''event'' ''crash'' @ CHR '','' # member_text ''app'' name @ CHR '','' # member_text ''time'' time @ ''}''"
  by (simp add: webhook_payload_def member_text_def)

lemma plain_words: "plain ''event''" "plain ''crash''" "plain ''app''" "plain ''time''"
  by (simp_all add: plain_def)

text \<open>A name without quotes, backslashes and control characters arrives as it is.\<close>

lemma webhook_reads_back:
  assumes "plain name" and "plain time"
  shows "read_object (webhook_payload name time) = Some [(''event'', ''crash''), (''app'', name), (''time'', time)]"
  using assms by (simp add: payload_members read_object_def json_members_next json_members_last plain_words)

text \<open>A name with quotes is not escaped and can put members of its own into the body, here a second
  event, which readers that keep the last member of a name take for the event.\<close>

lemma webhook_forged:
  assumes "plain x" and "plain y" and "plain time"
  shows "read_object (webhook_payload (x @ ''\",\"event\":\"'' @ y) time)
     = Some [(''event'', ''crash''), (''app'', x), (''event'', y), (''time'', time)]"
proof -
  have "member_text ''app'' (x @ ''\",\"event\":\"'' @ y) = member_text ''app'' x @ CHR '','' # member_text ''event'' y"
    by (simp add: member_text_def)
  then show ?thesis
    using assms by (simp add: payload_members read_object_def json_members_next json_members_last plain_words)
qed

end
