(* ===== verification/Stats.thy ===== *)
theory Stats
  imports Utf8 "HOL-Library.Word"
begin

unbundle bit_operations_syntax

text \<open>
  Process statistics (\<open>internal/stats/stats.go\<close>, \<open>stats_linux.go\<close>): the parsers of the files under
  \<open>/proc\<close>, which are arguments (\<open>None\<close> when they cannot be read), and the CPU sampler with its
  three maps, as a step function: the sampler copies the set of tracked processes, then takes one
  process at a time, and other goroutines track and untrack in between. Times are 64-bit words
  that wrap; a percentage is the exact quotient, without the rounding of the \<open>float64\<close> division.
\<close>

section \<open>The files under /proc\<close>

definition vm_rss_prefix :: string where
  "vm_rss_prefix = ''VmRSS:''"

text \<open>The first line that starts with the prefix decides.\<close>

fun rss_lines :: "string list \<Rightarrow> 64 word" where
  "rss_lines [] = 0"
| "rss_lines (l # ls) =
     (if \<not> has_prefix l vm_rss_prefix then rss_lines ls
      else (case fields l of
              f0 # f1 # fs \<Rightarrow> (case parse_uint f1 of None \<Rightarrow> 0 | Some kb \<Rightarrow> kb * 1024)
            | _ \<Rightarrow> 0))"

definition memoryRSS :: "(string \<Rightarrow> string option) \<Rightarrow> int \<Rightarrow> 64 word" where
  "memoryRSS readFile pid =
     (if pid \<le> 0 then 0
      else (case readFile (''/proc/'' @ int_dec pid @ ''/status'') of None \<Rightarrow> 0
            | Some body \<Rightarrow> rss_lines (fst (scan_lines 65536 body))))"

definition ns_per_tick :: "64 word" where
  "ns_per_tick = 10000000"

text \<open>\<open>(kernelNs, userNs)\<close>; \<open>None\<close> is \<open>ok = false\<close>.\<close>

definition cpu_fields :: "string \<Rightarrow> (64 word \<times> 64 word) option" where
  "cpu_fields s =
     (case last_index s CHR '')'' of None \<Rightarrow> None
      | Some idx \<Rightarrow>
          (let fs = fields (trim_space (drop (idx + 1) s)) in
           if length fs < 13 then None
           else (case (parse_uint (fs ! 11), parse_uint (fs ! 12)) of
                   (Some utime, Some stime) \<Rightarrow> Some (stime * ns_per_tick, utime * ns_per_tick)
                 | _ \<Rightarrow> None)))"

definition cpuTimes :: "(string \<Rightarrow> string option) \<Rightarrow> int \<Rightarrow> (64 word \<times> 64 word) option" where
  "cpuTimes readFile pid =
     (if pid \<le> 0 then None
      else (case readFile (''/proc/'' @ int_dec pid @ ''/stat'') of None \<Rightarrow> None | Some s \<Rightarrow> cpu_fields s))"

text \<open>Other systems than Linux and Windows (\<open>stats_other.go\<close>).\<close>

definition memoryRSS_other :: "int \<Rightarrow> 64 word" where
  "memoryRSS_other pid = 0"

definition cpuTimes_other :: "int \<Rightarrow> (64 word \<times> 64 word) option" where
  "cpuTimes_other pid = None"

section \<open>The sampler\<close>

record cpuSample =
  cs_kernel :: "64 word"
  cs_user :: "64 word"
  cs_wall :: int

text \<open>\<open>st_pids\<close> holds the processes the running round of \<open>sampleAll\<close> has left, \<open>st_now\<close> its clock.\<close>

record stats =
  st_tracked :: "int set"
  st_samples :: "int \<Rightarrow> cpuSample option"
  st_percent :: "int \<Rightarrow> rat option"
  st_pids :: "int list"
  st_now :: int

definition stats_init :: stats where
  "stats_init = \<lparr>st_tracked = {}, st_samples = (\<lambda>_. None), st_percent = (\<lambda>_. None), st_pids = [], st_now = 0\<rparr>"

definition TrackPID :: "int \<Rightarrow> stats \<Rightarrow> stats" where
  "TrackPID pid s = s\<lparr>st_tracked := insert pid (st_tracked s)\<rparr>"

definition UntrackPID :: "int \<Rightarrow> stats \<Rightarrow> stats" where
  "UntrackPID pid s =
     s\<lparr>st_tracked := st_tracked s - {pid}, st_samples := (st_samples s)(pid := None), st_percent := (st_percent s)(pid := None)\<rparr>"

definition CPUPercent :: "int \<Rightarrow> stats \<Rightarrow> rat" where
  "CPUPercent pid s = (case st_percent s pid of None \<Rightarrow> 0 | Some p \<Rightarrow> p)"

text \<open>The percentage of a sample against the one before it: \<open>None\<close> leaves the map alone.\<close>

definition percent_of :: "cpuSample option \<Rightarrow> cpuSample \<Rightarrow> rat option" where
  "percent_of prev cur =
     (case prev of None \<Rightarrow> None
      | Some p \<Rightarrow>
          if cs_wall cur > cs_wall p then
            (if cs_kernel cur \<ge> cs_kernel p \<and> cs_user cur \<ge> cs_user p then
               Some (rat_of_nat (float_of_nat (unat ((cs_kernel cur - cs_kernel p) + (cs_user cur - cs_user p))))
                     / rat_of_nat (float_of_nat (nat (cs_wall cur - cs_wall p))) * 100)
             else Some 0)
          else None)"

definition record_sample :: "int \<Rightarrow> cpuSample \<Rightarrow> stats \<Rightarrow> stats" where
  "record_sample pid cur s =
     s\<lparr>st_samples := (st_samples s)(pid \<mapsto> cur),
       st_percent := (case percent_of (st_samples s pid) cur of None \<Rightarrow> st_percent s | Some x \<Rightarrow> (st_percent s)(pid \<mapsto> x))\<rparr>"

text \<open>
  One step: a process is tracked or untracked; a round begins (only when none runs, the order is
  the map's); the next process is sampled with what \<open>cpuTimes\<close> returns.
\<close>

datatype stats_ev = STrack int | SUntrack int | SBegin int "int list" | SSample "(64 word \<times> 64 word) option"

fun stats_step :: "stats_ev \<Rightarrow> stats \<Rightarrow> stats option" where
  "stats_step (STrack pid) s = Some (TrackPID pid s)"
| "stats_step (SUntrack pid) s = Some (UntrackPID pid s)"
| "stats_step (SBegin now order) s =
     (if st_pids s = [] \<and> distinct order \<and> set order = st_tracked s then Some (s\<lparr>st_pids := order, st_now := now\<rparr>) else None)"
| "stats_step (SSample ts) s =
     (case st_pids s of [] \<Rightarrow> None
      | pid # pids \<Rightarrow>
          Some ((case ts of None \<Rightarrow> s
                 | Some (k, u) \<Rightarrow> record_sample pid \<lparr>cs_kernel = k, cs_user = u, cs_wall = st_now s\<rparr> s)\<lparr>st_pids := pids\<rparr>))"

section \<open>Lemmas\<close>

lemma space_len_end_newline: "space_len_end (s @ [CHR 0x0A]) = 1"
proof -
  have "find (has_suffix (s @ [CHR 0x0A])) spaces = Some [CHR 0x0A]"
    by (simp add: spaces_def ascii_spaces_def has_suffix_def has_prefix_def)
  then show ?thesis by (simp add: space_len_end_def)
qed

lemma trim_space_line:
  assumes "s \<noteq> []" and "no_space_byte (hd s)" and "no_space_byte (last s)"
  shows "trim_space (CHR '' '' # s @ [CHR 0x0A]) = s"
proof -
  have "trim_left_space (CHR '' '' # s @ [CHR 0x0A]) = trim_left_space (s @ [CHR 0x0A])"
    by (subst trim_left_space.simps) (simp add: space_len_blank)
  also have "\<dots> = s @ [CHR 0x0A]"
    using space_len_no_space [OF assms(2), of "tl s @ [CHR 0x0A]"] assms(1) by (subst trim_left_space.simps) (cases s; simp)
  finally have left: "trim_left_space (CHR '' '' # s @ [CHR 0x0A]) = s @ [CHR 0x0A]" .
  have "trim_right_space (s @ [CHR 0x0A]) = trim_right_space s"
    by (subst trim_right_space.simps) (simp add: space_len_end_newline)
  moreover have "space_len_end s = 0" using space_len_end_no_space [OF assms(3), of "butlast s"] assms(1) by simp
  ultimately show ?thesis by (simp add: trim_space_def left trim_right_space.simps [of s])
qed

lemma join_words_ends:
  assumes "ws \<noteq> []" and "list_all word_bytes ws"
  shows "join_with '' '' ws \<noteq> [] \<and> no_space_byte (hd (join_with '' '' ws)) \<and> no_space_byte (last (join_with '' '' ws))"
  using assms
proof (induction "'' ''" ws rule: join_with.induct)
  case (2 w)
  then show ?case by (auto simp: word_bytes_def list_all_iff)
next
  case (3 w v ws)
  then show ?case by (auto simp: word_bytes_def list_all_iff)
qed simp

lemma set_join_with: "c \<in> set (join_with sep ws) \<Longrightarrow> c \<in> set sep \<or> (\<exists>w \<in> set ws. c \<in> set w)"
  by (induction sep ws rule: join_with.induct) auto

text \<open>What a percentage means while the counters stay below \<open>2 ^ 53\<close> nanoseconds (104 days of CPU
  time): the CPU time used between the two samples, in percent of the time between them.\<close>

lemma percent_of_exact:
  assumes "unat (cs_kernel p) \<le> unat (cs_kernel c)" and "unat (cs_user p) \<le> unat (cs_user c)"
    and "unat (cs_kernel c) + unat (cs_user c) < 2 ^ 53" and "cs_wall p < cs_wall c" and "cs_wall c - cs_wall p < 2 ^ 53"
  shows "percent_of (Some p) c = Some (100 *
    rat_of_int (int (unat (cs_kernel c)) - int (unat (cs_kernel p)) + (int (unat (cs_user c)) - int (unat (cs_user p))))
      / rat_of_int (cs_wall c - cs_wall p))"
proof -
  let ?dk = "unat (cs_kernel c) - unat (cs_kernel p)" and ?du = "unat (cs_user c) - unat (cs_user p)"
  have le: "cs_kernel p \<le> cs_kernel c" "cs_user p \<le> cs_user c" using assms by (simp_all add: word_le_nat_alt)
  then have d: "unat (cs_kernel c - cs_kernel p) = ?dk" "unat (cs_user c - cs_user p) = ?du"
    by (simp_all add: unat_sub)
  have b: "?dk + ?du < 2 ^ 53" using assms(1-3) by linarith
  then have "unat ((cs_kernel c - cs_kernel p) + (cs_user c - cs_user p)) = ?dk + ?du"
    by (simp add: unat_word_ariths d)
  moreover have "float_of_nat (?dk + ?du) = ?dk + ?du" using b by (rule float_of_nat_exact)
  moreover have "float_of_nat (nat (cs_wall c - cs_wall p)) = nat (cs_wall c - cs_wall p)"
    by (rule float_of_nat_exact) (use assms in \<open>simp add: nat_less_iff\<close>)
  ultimately show ?thesis using assms le by (simp add: percent_of_def of_nat_diff)
qed

text \<open>A percentage is never negative, and belongs to a process with a sample.\<close>

definition stats_ok :: "stats \<Rightarrow> bool" where
  "stats_ok s \<longleftrightarrow> (\<forall>pid x. st_percent s pid = Some x \<longrightarrow> 0 \<le> x \<and> st_samples s pid \<noteq> None)"

lemma percent_of_nonneg: "percent_of p c = Some x \<Longrightarrow> 0 \<le> x"
  by (auto simp: percent_of_def split: option.splits if_splits)

lemma record_sample_ok: "stats_ok s \<Longrightarrow> stats_ok (record_sample pid c s)"
  by (auto simp: stats_ok_def record_sample_def dest: percent_of_nonneg split: option.splits if_splits)

lemma stats_step_ok: "stats_step e s = Some s' \<Longrightarrow> stats_ok s \<Longrightarrow> stats_ok s'"
proof (cases e)
  case (SSample ts)
  assume s: "stats_step e s = Some s'" and ok: "stats_ok s"
  from s SSample obtain pid pids where p: "st_pids s = pid # pids" by (auto split: list.splits)
  have "stats_ok (case ts of None \<Rightarrow> s | Some (k, u) \<Rightarrow> record_sample pid \<lparr>cs_kernel = k, cs_user = u, cs_wall = st_now s\<rparr> s)"
    using ok record_sample_ok by (auto split: option.splits)
  then show ?thesis using s SSample p by (auto simp: stats_ok_def)
qed (auto simp: stats_ok_def TrackPID_def UntrackPID_def split: if_splits)

interpretation sampler: transition_system "\<lambda>s. s = stats_init" stats_step stats_ok
  by unfold_locales (auto simp: stats_init_def stats_ok_def dest: stats_step_ok)

text \<open>A process that is untracked while a round runs is sampled once more: its entry stays in the
  map, and a later process with the same number starts from it.\<close>

lemma untrack_during_round_leaves_sample:
  "\<exists>s. run_steps stats_step [STrack 7, SBegin 1 [7], SUntrack 7, SSample (Some (1, 1))] stats_init = Some s
     \<and> 7 \<notin> st_tracked s \<and> st_samples s 7 \<noteq> None"
  by (simp add: stats_init_def TrackPID_def UntrackPID_def record_sample_def)

section \<open>Properties\<close>

text \<open>C30. The CPU times of a process are read correctly whatever its command name is: blanks,
  parentheses and newlines in it do not shift the fields.\<close>

theorem cpu_times_any_comm:
  assumes "0 < pid" and "list_all (\<lambda>w. word_bytes w \<and> CHR '')'' \<notin> set w) fs" and "13 \<le> length fs"
    and "fs ! 11 = nat_dec ut" and "fs ! 12 = nat_dec st" and "ut < 2 ^ 64" and "st < 2 ^ 64"
    and "readFile (''/proc/'' @ int_dec pid @ ''/stat'') = Some (int_dec pid @ '' ('' @ comm @ '') '' @ join_with '' '' fs @ [CHR 0x0A])"
  shows "cpuTimes readFile pid = Some (of_nat st * 10000000, of_nat ut * 10000000)"
proof -
  let ?pre = "int_dec pid @ '' ('' @ comm" and ?post = "CHR '' '' # join_with '' '' fs @ [CHR 0x0A]"
  have fs: "list_all word_bytes fs" "fs \<noteq> []" using assms(2,3) by (auto simp: list_all_iff)
  have "CHR '')'' \<notin> set ?post"
    using assms(2) by (auto simp: list_all_iff dest!: set_join_with)
  then have idx: "last_index (?pre @ CHR '')'' # ?post) CHR '')'' = Some (length ?pre)" by (rule last_index_append)
  have "trim_space ?post = join_with '' '' fs" using join_words_ends [OF fs(2,1)] by (intro trim_space_line) simp_all
  then have "Go_Strings.fields (trim_space ?post) = fs" using fields_join [OF fs(1)] by simp
  moreover have "drop (length xs + 1) (xs @ x # ys) = ys" for xs ys :: string and x by simp
  then have "drop (length ?pre + 1) (?pre @ CHR '')'' # ?post) = ?post" by this
  ultimately have "cpu_fields (?pre @ CHR '')'' # ?post) = Some (of_nat st * 10000000, of_nat ut * 10000000)"
    unfolding cpu_fields_def idx using assms(3-7) by (simp add: Let_def parse_uint_nat_dec ns_per_tick_def)
  then show ?thesis using assms(1,8) by (simp add: cpuTimes_def)
qed

definition demo_stat :: "string list" where
  "demo_stat = [''S'', ''1'', ''7'', ''7'', ''0'', ''-1'', ''4'', ''9'', ''0'', ''0'', ''0'', ''15'', ''4'']"

lemma plain_no_space: "list_all (\<lambda>w. word_bytes w \<and> CHR '')'' \<notin> set w) demo_stat"
  by (simp add: demo_stat_def word_bytes_def no_space_byte_code spaces_def ascii_spaces_def wide_spaces_def)

theorem cpu_times_any_comm_witness:
  "cpuTimes (\<lambda>p. if p = ''/proc/7/stat'' then Some (''7 (a) b (c) '' @ join_with '' '' demo_stat @ [CHR 0x0A]) else None) 7
    = Some (40000000, 150000000)"
proof -
  have "int_dec 7 = ''7''" "nat_dec 15 = ''15''" "nat_dec 4 = ''4''"
    by (simp_all add: int_dec_def nat_dec.simps digit_char_def char_of_def bit_0)
  then show ?thesis
    using cpu_times_any_comm [of 7 demo_stat 15 4 "\<lambda>p. if p = ''/proc/7/stat'' then Some (''7 (a) b (c) '' @ join_with '' '' demo_stat @ [CHR 0x0A]) else None" "''a) b (c''"]
      plain_no_space
    by (simp add: demo_stat_def)
qed

end
