(* ===== verification/Stats_Sampler.thy ===== *)
theory Stats_Sampler
  imports Stats
begin

text \<open>
  The goroutine of \<open>StartCPUSampler\<close> (\<open>internal/stats/stats.go\<close>): it waits for its ticker or the end of its
  context, and a tick starts a round of \<open>sampleAll\<close>.
\<close>

section \<open>Model\<close>

text \<open>\<open>nl_tick\<close>: a tick waits in the channel of the ticker, which has room for one.\<close>

record sampler_loop =
  nl_stats :: stats
  nl_tick :: bool
  nl_ctx :: bool
  nl_ended :: bool

definition sampler_start :: sampler_loop where
  "sampler_start = \<lparr>nl_stats = stats_init, nl_tick = False, nl_ctx = False, nl_ended = False\<rparr>"

datatype sampler_ev = NTicker | NCancel | NStats stats_ev | NDone

definition StartCPUSampler :: "sampler_ev \<Rightarrow> sampler_loop \<Rightarrow> sampler_loop option" where
  "StartCPUSampler e n =
     (case e of
        NTicker \<Rightarrow> if nl_ended n then None else Some (n\<lparr>nl_tick := True\<rparr>)
      | NCancel \<Rightarrow> Some (n\<lparr>nl_ctx := True\<rparr>)
      | NStats (SBegin now order) \<Rightarrow>
          if nl_tick n \<and> \<not> nl_ended n
          then map_option (\<lambda>s. n\<lparr>nl_stats := s, nl_tick := False\<rparr>) (stats_step (SBegin now order) (nl_stats n)) else None
      | NStats ev \<Rightarrow> map_option (\<lambda>s. n\<lparr>nl_stats := s\<rparr>) (stats_step ev (nl_stats n))
      | NDone \<Rightarrow> if nl_ctx n \<and> \<not> nl_ended n \<and> st_pids (nl_stats n) = [] then Some (n\<lparr>nl_ended := True\<rparr>) else None)"

section \<open>Properties\<close>

text \<open>A goroutine that has ended is in no round, and the samples stay well-formed.\<close>

definition sampler_inv :: "sampler_loop \<Rightarrow> bool" where
  "sampler_inv n \<longleftrightarrow> stats_ok (nl_stats n) \<and> (nl_ended n \<longrightarrow> nl_ctx n \<and> st_pids (nl_stats n) = [])"

lemma sampler_step_stats: "StartCPUSampler (NStats ev) n = Some n' \<Longrightarrow> stats_step ev (nl_stats n) = Some (nl_stats n')"
  by (cases ev) (auto simp: StartCPUSampler_def split: if_splits)

lemma sampler_step_inv:
  assumes "StartCPUSampler e n = Some n'" and "sampler_inv n"
  shows "sampler_inv n'"
proof (cases e)
  case (NStats ev)
  have "stats_ok (nl_stats n')"
    using sampler_step_stats [of ev n n'] stats_step_ok assms NStats by (auto simp: sampler_inv_def)
  moreover have "nl_ended n' \<longrightarrow> nl_ctx n' \<and> st_pids (nl_stats n') = []"
    using assms NStats
    by (cases ev) (auto simp: StartCPUSampler_def sampler_inv_def TrackPID_def UntrackPID_def split: if_splits list.splits)
  ultimately show ?thesis by (simp add: sampler_inv_def)
qed (use assms in \<open>auto simp: StartCPUSampler_def sampler_inv_def split: if_splits\<close>)

interpretation sampling: transition_system "\<lambda>n. n = sampler_start" StartCPUSampler sampler_inv
  by unfold_locales (auto simp: sampler_start_def sampler_inv_def stats_init_def stats_ok_def dest: sampler_step_inv)

lemma samples_run:
  "st_pids (nl_stats n) = pids \<Longrightarrow>
    \<exists>n'. run_steps StartCPUSampler (replicate (length pids) (NStats (SSample None))) n = Some n'
      \<and> st_pids (nl_stats n') = [] \<and> nl_ctx n' = nl_ctx n \<and> nl_ended n' = nl_ended n"
proof (induction pids arbitrary: n)
  case (Cons p pids)
  let ?n = "n\<lparr>nl_stats := (nl_stats n)\<lparr>st_pids := pids\<rparr>\<rparr>"
  have "StartCPUSampler (NStats (SSample None)) n = Some ?n" using Cons.prems by (simp add: StartCPUSampler_def)
  then show ?case using Cons.IH [of ?n] by simp
qed simp

text \<open>Once the context is done the goroutine can end after what is left of its round, and when it has
  ended no percentage changes any more but for the processes that are untracked.\<close>

lemma sampler_can_end:
  assumes "nl_ctx n" and "\<not> nl_ended n"
  shows "\<exists>es n'. length es = length (st_pids (nl_stats n)) + 1 \<and> run_steps StartCPUSampler es n = Some n' \<and> nl_ended n'"
proof -
  obtain n1 where n1: "run_steps StartCPUSampler (replicate (length (st_pids (nl_stats n))) (NStats (SSample None))) n = Some n1"
      "st_pids (nl_stats n1) = []" "nl_ctx n1" "\<not> nl_ended n1"
    using samples_run [of n, OF refl] assms by auto
  have "StartCPUSampler NDone n1 = Some (n1\<lparr>nl_ended := True\<rparr>)" using n1(2-4) by (simp add: StartCPUSampler_def)
  then show ?thesis using n1(1)
    by (intro exI [of _ "replicate (length (st_pids (nl_stats n))) (NStats (SSample None)) @ [NDone]"] exI conjI) (auto simp: run_steps_append)
qed

lemma ended_step:
  assumes "StartCPUSampler e n = Some n'" and "sampler_inv n" and "nl_ended n"
  shows "nl_ended n' \<and> CPUPercent pid (nl_stats n') = (if e = NStats (SUntrack pid) then 0 else CPUPercent pid (nl_stats n))"
proof (cases e)
  case (NStats ev)
  then show ?thesis using assms
    by (cases ev) (auto simp: StartCPUSampler_def sampler_inv_def TrackPID_def UntrackPID_def CPUPercent_def)
qed (use assms in \<open>auto simp: StartCPUSampler_def split: if_splits\<close>)

lemma no_samples_after_end:
  "run_steps StartCPUSampler es n = Some n' \<Longrightarrow> sampler_inv n \<Longrightarrow> nl_ended n
    \<Longrightarrow> CPUPercent pid (nl_stats n') = (if NStats (SUntrack pid) \<in> set es then 0 else CPUPercent pid (nl_stats n))"
proof (induction es arbitrary: n)
  case (Cons e es)
  obtain n1 where n1: "StartCPUSampler e n = Some n1" "run_steps StartCPUSampler es n1 = Some n'"
    using Cons.prems(1) by (auto split: option.splits)
  then show ?case
    using Cons.IH [OF n1(2) sampler_step_inv [OF n1(1)]] ended_step [OF n1(1), of pid] Cons.prems by auto
qed simp

end
