(* ===== verification/Stats_Windows.thy ===== *)
theory Stats_Windows
  imports Prelude
begin

unbundle bit_operations_syntax

text \<open>
  Process statistics on Windows (\<open>internal/stats/stats_windows.go\<close>): the structures that are handed to the
  system DLLs and the two queries. The DLL calls are arguments; a handle is not 0, \<open>None\<close> is a call
  that returned 0. A query also returns the handles it has closed.
\<close>

section \<open>Structures\<close>

text \<open>On a 64-bit system, where a \<open>uintptr\<close> has 64 bits.\<close>

record processMemoryCounters =
  pmc_cb :: "32 word"
  pmc_pageFaultCount :: "32 word"
  pmc_peakWorkingSetSize :: "64 word"
  pmc_workingSetSize :: "64 word"
  pmc_quotaPeakPagedPoolUsage :: "64 word"
  pmc_quotaPagedPoolUsage :: "64 word"
  pmc_quotaPeakNonPagedPoolUsage :: "64 word"
  pmc_quotaNonPagedPoolUsage :: "64 word"
  pmc_pagefileUsage :: "64 word"
  pmc_peakPagefileUsage :: "64 word"

text \<open>Go's layout of a structure: each field at the next multiple of its size, the whole a multiple of
  the largest.\<close>

fun field_offsets :: "nat \<Rightarrow> nat list \<Rightarrow> nat list" where
  "field_offsets off [] = [off]"
| "field_offsets off (n # ns) = (let a = (off + n - 1) div n * n in a # field_offsets (a + n) ns)"

definition struct_size :: "nat list \<Rightarrow> nat" where
  "struct_size ns = (let m = fold max ns 1 in (last (field_offsets 0 ns) + m - 1) div m * m)"

definition pmc_fields :: "nat list" where
  "pmc_fields = [4, 4, 8, 8, 8, 8, 8, 8, 8, 8]"

text \<open>The size \<open>GetProcessMemoryInfo\<close> checks, and where it writes the working set size: those of the
  Windows structure.\<close>

lemma pmc_layout: "struct_size pmc_fields = 72" "field_offsets 0 pmc_fields ! 3 = 16"
  by (simp_all add: struct_size_def pmc_fields_def Let_def)

record fileTime =
  LowDateTime :: "32 word"
  HighDateTime :: "32 word"

definition toNs :: "fileTime \<Rightarrow> 64 word" where
  "toNs ft = (push_bit 32 (ucast (HighDateTime ft)) OR ucast (LowDateTime ft)) * 100"

section \<open>The queries\<close>

record win_calls =
  wn_open :: "nat \<Rightarrow> int \<Rightarrow> nat"
  wn_k32_memory :: "nat \<Rightarrow> processMemoryCounters \<Rightarrow> 32 word \<Rightarrow> processMemoryCounters option"
  wn_memory :: "nat \<Rightarrow> processMemoryCounters \<Rightarrow> 32 word \<Rightarrow> processMemoryCounters option"
  wn_times :: "nat \<Rightarrow> (fileTime \<times> fileTime \<times> fileTime \<times> fileTime) option"

definition processVmRead :: nat where "processVmRead = 0x0010"
definition processQueryInfo :: nat where "processQueryInfo = 0x0400"
definition processQueryLimitedInfo :: nat where "processQueryLimitedInfo = 0x1000"

definition zero_pmc :: processMemoryCounters where
  "zero_pmc = \<lparr>pmc_cb = 0, pmc_pageFaultCount = 0, pmc_peakWorkingSetSize = 0, pmc_workingSetSize = 0, pmc_quotaPeakPagedPoolUsage = 0,
     pmc_quotaPagedPoolUsage = 0, pmc_quotaPeakNonPagedPoolUsage = 0, pmc_quotaNonPagedPoolUsage = 0, pmc_pagefileUsage = 0,
     pmc_peakPagefileUsage = 0\<rparr>"

definition memoryRSS_windows :: "win_calls \<Rightarrow> int \<Rightarrow> 64 word \<times> nat list" where
  "memoryRSS_windows wn pid =
     (if pid \<le> 0 then (0, [])
      else
        (let h1 = wn_open wn processQueryLimitedInfo pid;
             h = (if h1 = 0 then wn_open wn (processQueryInfo OR processVmRead) pid else h1);
             pmc = zero_pmc\<lparr>pmc_cb := of_nat (struct_size pmc_fields)\<rparr>
         in if h = 0 then (0, [])
            else (case wn_k32_memory wn h pmc (pmc_cb pmc) of Some m \<Rightarrow> (pmc_workingSetSize m, [h])
                  | None \<Rightarrow> (case wn_memory wn h pmc (pmc_cb pmc) of Some m \<Rightarrow> (pmc_workingSetSize m, [h]) | None \<Rightarrow> (0, [h])))))"

definition cpuTimes_windows :: "win_calls \<Rightarrow> int \<Rightarrow> (64 word \<times> 64 word) option \<times> nat list" where
  "cpuTimes_windows wn pid =
     (if pid \<le> 0 then (None, [])
      else
        (let h1 = wn_open wn processQueryLimitedInfo pid;
             h = (if h1 = 0 then wn_open wn processQueryInfo pid else h1)
         in if h = 0 then (None, [])
            else (case wn_times wn h of None \<Rightarrow> (None, [h])
                  | Some (creationTime, exitTime, kernelTime, userTime) \<Rightarrow> (Some (toNs kernelTime, toNs userTime), [h]))))"

text \<open>Every handle that was opened is closed, on every path.\<close>

lemma windows_handles_closed:
  assumes "0 < pid"
  shows "set (snd (memoryRSS_windows wn pid))
      = {if wn_open wn processQueryLimitedInfo pid = 0 then wn_open wn (processQueryInfo OR processVmRead) pid else wn_open wn processQueryLimitedInfo pid} - {0}"
    and "set (snd (cpuTimes_windows wn pid))
      = {if wn_open wn processQueryLimitedInfo pid = 0 then wn_open wn processQueryInfo pid else wn_open wn processQueryLimitedInfo pid} - {0}"
  using assms by (auto simp: memoryRSS_windows_def cpuTimes_windows_def Let_def split: option.splits)

text \<open>The nanoseconds of a file time, exact as long as they fit (584 years).\<close>

lemma unat_toNs:
  assumes "(unat high * 2 ^ 32 + unat low) * 100 < 2 ^ 64"
  shows "unat (toNs \<lparr>LowDateTime = low, HighDateTime = high\<rparr>) = (unat high * 2 ^ 32 + unat low) * 100"
proof -
  have d: "push_bit 32 (ucast high :: 64 word) AND ucast low = 0"
    by (rule bit_word_eqI) (auto simp: bit_simps dest: bit_imp_le_length)
  have "unat high < 2 ^ 32" using unsigned_less [of high, where ?'a = nat] by simp
  then have h: "unat (push_bit 32 (ucast high :: 64 word)) = unat high * 2 ^ 32"
    by (simp add: push_bit_eq_mult unat_word_ariths unsigned_ucast_eq take_bit_nat_eq_self)
  have l: "unat (ucast low :: 64 word) = unat low"
    using unsigned_less [of low, where ?'a = nat] by (simp add: unsigned_ucast_eq take_bit_nat_eq_self)
  have "push_bit 32 (ucast high :: 64 word) OR ucast low = push_bit 32 (ucast high) + ucast low"
    using d by (simp add: disjunctive_add_eq_or)
  moreover have "unat (push_bit 32 (ucast high :: 64 word) + ucast low) = unat high * 2 ^ 32 + unat low"
    using assms by (simp add: unat_word_ariths h l)
  ultimately have u: "unat (push_bit 32 (ucast high :: 64 word) OR ucast low) = unat high * 2 ^ 32 + unat low" by simp
  have "unat (w * 100) = unat w * 100" if "unat w * 100 < 2 ^ 64" for w :: "64 word"
    using that by (simp add: unat_word_ariths)
  then show ?thesis using assms by (simp add: toNs_def u)
qed

end
