(* ===== verification/Watcher.thy ===== *)
theory Watcher
  imports Config
begin

text \<open>
  The file watcher (\<open>internal/watcher/watcher.go\<close>): extension and ignore filtering, the recursive
  registration of directories, and the debounce loop of \<open>Start\<close>. The current directory
  (\<open>os.Getwd\<close>, \<open>None\<close> for its error), the directory tree and fsnotify's \<open>Add\<close> are arguments; what
  fsnotify, the timer and the stop channel deliver are the events of the loop.
\<close>

unbundle bit_operations_syntax

section \<open>Construction\<close>

record Watcher =
  w_cfg :: WatchConfig
  w_root :: string
  w_extSet :: "string list"
  w_ignoreAbs :: "string list"

definition dotted :: "string \<Rightarrow> string" where
  "dotted e = to_lower (if has_prefix e ''.'' then e else CHR ''.'' # e)"

definition ext_set :: "string list \<Rightarrow> string list" where
  "ext_set exts = map dotted (filter (\<lambda>e. e \<noteq> []) exts)"

definition absUnder :: "string option \<Rightarrow> string \<Rightarrow> string \<Rightarrow> string" where
  "absUnder cwd root p =
     (let p' = (if is_abs p then p
                else path_join [if root = [] then (case cwd of None \<Rightarrow> root | Some d \<Rightarrow> d) else root, p])
      in (case path_abs cwd p' of None \<Rightarrow> path_clean p' | Some a \<Rightarrow> a))"

datatype watcher_error = NotEnabled | FsNotify string

text \<open>\<open>newFsw\<close> is \<open>fsnotify.NewWatcher\<close>.\<close>

definition watcher_New :: "string option \<Rightarrow> string option \<Rightarrow> WatchConfig \<Rightarrow> string \<Rightarrow> watcher_error + Watcher" where
  "watcher_New newFsw cwd cfg root =
     (if \<not> wc_Enabled cfg then Inl NotEnabled
      else (case newFsw of Some e \<Rightarrow> Inl (FsNotify e)
            | None \<Rightarrow> Inr \<lparr>w_cfg = cfg, w_root = root, w_extSet = ext_set (wc_Extensions cfg),
                w_ignoreAbs = map (absUnder cwd root) (wc_Ignore cfg)\<rparr>))"

section \<open>Filtering\<close>

fun ignored_by :: "string \<Rightarrow> string list \<Rightarrow> bool" where
  "ignored_by p [] = False"
| "ignored_by p (ig # igs) =
     (if p = ig then True else if has_prefix p (ig @ [slash]) then True else ignored_by p igs)"

definition isIgnored :: "string option \<Rightarrow> Watcher \<Rightarrow> string \<Rightarrow> bool" where
  "isIgnored cwd w path =
     ignored_by (path_clean (case path_abs cwd path of None \<Rightarrow> path | Some a \<Rightarrow> a)) (w_ignoreAbs w)"

text \<open>fsnotify's \<open>Op\<close> is a bit set.\<close>

type_synonym fs_op = "32 word"

definition op_create :: fs_op where "op_create = 1"
definition op_write :: fs_op where "op_write = 2"
definition op_remove :: fs_op where "op_remove = 4"
definition op_rename :: fs_op where "op_rename = 8"

definition shouldFire :: "string option \<Rightarrow> Watcher \<Rightarrow> fs_op \<Rightarrow> string \<Rightarrow> bool" where
  "shouldFire cwd w op name =
     (if op AND (op_write OR op_create OR op_remove OR op_rename) = 0 then False
      else if isIgnored cwd w name then False
      else if w_extSet w = [] then True
      else to_lower (path_ext name) \<in> set (w_extSet w))"

section \<open>The number printer\<close>

text \<open>The loop fills a buffer of 20 bytes from its end; a write before its start would panic.\<close>

function itoa_loop :: "string \<Rightarrow> int \<Rightarrow> int \<Rightarrow> (string \<times> int) option" where
  "itoa_loop buf i n =
     (if n > 0 then
        (case go_update buf (i - 1) (digit_char (nat (n mod 10))) of
           None \<Rightarrow> None | Some buf' \<Rightarrow> itoa_loop buf' (i - 1) (n div 10))
      else Some (buf, i))"
  by pat_completeness auto
termination
  by (relation "measure (\<lambda>(buf, i, n). nat n)") auto

declare itoa_loop.simps [simp del]

definition watcher_itoa :: "int \<Rightarrow> string option" where
  "watcher_itoa n =
     (if n = 0 then Some ''0''
      else
        (let neg = n < 0; m = (if neg then int64 (- n) else n) in
         case itoa_loop (replicate 20 (CHR 0x00)) 20 m of
           None \<Rightarrow> None
         | Some (buf, i) \<Rightarrow>
             if neg then (case go_update buf (i - 1) CHR ''-'' of
                 None \<Rightarrow> None | Some buf' \<Rightarrow> Some (drop (nat (i - 1)) buf'))
             else Some (drop (nat i) buf)))"

section \<open>Registering directories\<close>

text \<open>
  The tree \<open>filepath.WalkDir\<close> walks: a directory with the error of reading its entries, if any,
  and its entries in lexical order. A root that does not exist is \<open>FMissing\<close>. \<open>WalkDir\<close> turns
  \<open>SkipDir\<close> into success, so the walk of \<open>addRecursive\<close> itself never fails.
\<close>

datatype fsnode = FMissing | FFile | FDir "string option" "(string \<times> fsnode) list"

definition merge2 :: "('a list \<times> 'b list) list \<Rightarrow> 'a list \<times> 'b list" where
  "merge2 rs = (concat (map fst rs), concat (map snd rs))"

text \<open>The directories added and the log lines.\<close>

fun walk_add :: "(string \<Rightarrow> bool) \<Rightarrow> (string \<Rightarrow> string option) \<Rightarrow> string \<Rightarrow> fsnode \<Rightarrow> string list \<times> string list" where
  "walk_add ign add p FMissing = ([], [])"
| "walk_add ign add p FFile = ([], [])"
| "walk_add ign add p (FDir err cs) =
     (if ign p then ([], [])
      else merge2
        [(case add p of None \<Rightarrow> ([p], []) | Some e \<Rightarrow> ([], [''add watch '' @ p @ '': '' @ e])),
         (case err of Some e \<Rightarrow> ([], [''walk '' @ p @ '': '' @ e])
          | None \<Rightarrow> merge2 (map (\<lambda>(n, c). walk_add ign add (path_join [p, n]) c) cs))])"

definition addRecursive ::
  "string option \<Rightarrow> (string \<Rightarrow> string option) \<Rightarrow> (string \<Rightarrow> fsnode) \<Rightarrow> Watcher \<Rightarrow> string \<Rightarrow> string list \<times> string list"
where
  "addRecursive cwd add tree w root = walk_add (isIgnored cwd w) add root (tree root)"

section \<open>The debounce loop\<close>

datatype wevent =
    WStopped | WFs fs_op string | WFsClosed | WTimer | WErr string | WErrClosed | WTaken

text \<open>
  The state of \<open>Start\<close>'s loop: whether the debounce timer runs, whether a signal is in the
  one-place notify channel (\<open>WTaken\<close>: the supervise loop receives it), the directories watched, the log, and whether \<open>Start\<close> has returned.
\<close>

record wloop =
  wl_timer :: bool
  wl_signal :: bool
  wl_dirs :: "string list"
  wl_log :: "string list"
  wl_done :: bool

definition auto_add ::
  "string option \<Rightarrow> (string \<Rightarrow> string option) \<Rightarrow> (string \<Rightarrow> fsnode) \<Rightarrow> Watcher \<Rightarrow> fs_op \<Rightarrow> string \<Rightarrow> wloop \<Rightarrow> wloop"
where
  "auto_add cwd add tree w op name s =
     (if op AND op_create \<noteq> 0 \<and> (case tree name of FDir _ _ \<Rightarrow> True | _ \<Rightarrow> False) \<and> \<not> isIgnored cwd w name
      then (let (ds, ls) = addRecursive cwd add tree w name in s\<lparr>wl_dirs := wl_dirs s @ ds, wl_log := wl_log s @ ls\<rparr>)
      else s)"

definition wloop_step ::
  "string option \<Rightarrow> (string \<Rightarrow> string option) \<Rightarrow> (string \<Rightarrow> fsnode) \<Rightarrow> Watcher \<Rightarrow> wevent \<Rightarrow> wloop \<Rightarrow> wloop option"
where
  "wloop_step cwd add tree w e s =
     (if e = WTaken then (if wl_signal s then Some (s\<lparr>wl_signal := False\<rparr>) else None)
      else if wl_done s then None
      else (case e of
        WStopped \<Rightarrow> Some (s\<lparr>wl_done := True\<rparr>)
      | WFsClosed \<Rightarrow> Some (s\<lparr>wl_done := True\<rparr>)
      | WErrClosed \<Rightarrow> Some (s\<lparr>wl_done := True\<rparr>)
      | WErr m \<Rightarrow> Some (s\<lparr>wl_log := wl_log s @ [''fsnotify: '' @ m]\<rparr>)
      | WFs op name \<Rightarrow>
          (let s1 = auto_add cwd add tree w op name s in
           Some (if shouldFire cwd w op name then s1\<lparr>wl_timer := True\<rparr> else s1))
      | WTimer \<Rightarrow> if wl_timer s then Some (s\<lparr>wl_timer := False, wl_signal := True\<rparr>) else None
      | WTaken \<Rightarrow> None))"

text \<open>The head of \<open>Start\<close>: every configured directory, and a warning if nothing is watched.\<close>

fun start_dirs ::
  "string option \<Rightarrow> (string \<Rightarrow> string option) \<Rightarrow> (string \<Rightarrow> fsnode) \<Rightarrow> Watcher \<Rightarrow> string list \<Rightarrow> string list \<times> string list"
where
  "start_dirs cwd add tree w [] = ([], [])"
| "start_dirs cwd add tree w (d # ds) =
     (let root = absUnder cwd (w_root w) d;
          (added, ls) = addRecursive cwd add tree w root;
          (more, ls') = start_dirs cwd add tree w ds
      in (added @ more,
          ls @ [''watching '' @ root @ '' ('' @ the (watcher_itoa (int (length added))) @ '' dirs)''] @ ls'))"

definition no_dirs_msg :: string where
  "no_dirs_msg = ''WARNING: no directories are being watched '' @ [CHR 0xE2, CHR 0x80, CHR 0x94] @ '' check watch.dirs paths''"

definition watcher_Start ::
  "string option \<Rightarrow> (string \<Rightarrow> string option) \<Rightarrow> (string \<Rightarrow> fsnode) \<Rightarrow> Watcher \<Rightarrow> bool \<Rightarrow> wloop"
where
  "watcher_Start cwd add tree w pending =
     (let (ds, ls) = start_dirs cwd add tree w (wc_Dirs (w_cfg w)) in
      \<lparr>wl_timer = False, wl_signal = pending, wl_dirs = ds,
       wl_log = ls @ (if ds = [] then [no_dirs_msg] else []), wl_done = False\<rparr>)"

definition debounce_ns :: "Watcher \<Rightarrow> int" where
  "debounce_ns w =
     (let ms = (if wc_DebounceMs (w_cfg w) \<le> 0 then 300 else wc_DebounceMs (w_cfg w)) in
      int64 (ms * 1000000))"

section \<open>The printer is correct\<close>

lemma length_nat_dec: "n < 10 ^ Suc k \<Longrightarrow> length (nat_dec n) \<le> Suc k"
proof (induction k arbitrary: n)
  case 0
  then show ?case by (simp add: nat_dec.simps)
next
  case (Suc k)
  then have "length (nat_dec (n div 10)) \<le> Suc k" by (intro Suc.IH) (simp add: less_mult_imp_div_less)
  then show ?case by (subst nat_dec.simps) simp
qed

definition digits :: "int \<Rightarrow> string" where
  "digits n = (if n \<le> 0 then [] else nat_dec (nat n))"

lemma digits_step:
  assumes "0 < n"
  shows "digits n = digits (n div 10) @ [digit_char (nat (n mod 10))]"
proof (cases "n < 10")
  case True
  then show ?thesis using assms by (simp add: digits_def nat_dec.simps)
next
  case False
  then have "nat_dec (nat n) = nat_dec (nat n div 10) @ [digit_char (nat n mod 10)]"
    by (subst nat_dec.simps) simp
  moreover have "nat n div 10 = nat (n div 10)" "nat n mod 10 = nat (n mod 10)"
    using assms by (simp_all add: nat_div_distrib nat_mod_distrib)
  ultimately show ?thesis using False assms by (simp add: digits_def)
qed

lemma itoa_loop_digits:
  "int (length (digits n)) \<le> i \<Longrightarrow> i \<le> int (length buf) \<Longrightarrow>
   \<exists>buf'. itoa_loop buf i n = Some (buf', i - int (length (digits n))) \<and> length buf' = length buf
     \<and> drop (nat (i - int (length (digits n)))) buf' = digits n @ drop (nat i) buf"
proof (induction buf i n rule: itoa_loop.induct)
  case (1 buf i n)
  show ?case
  proof (cases "n > 0")
    case False
    then show ?thesis by (simp add: itoa_loop.simps [of buf i n] digits_def)
  next
    case True
    define m where "m = n div 10"
    define d where "d = digit_char (nat (n mod 10))"
    define b1 where "b1 = buf[nat (i - 1) := d]"
    have dig: "digits n = digits m @ [d]" using digits_step [OF True] by (simp add: m_def d_def)
    have upd: "go_update buf (i - 1) d = Some b1"
      using "1.prems" dig by (intro go_update_Some [of "i - 1" buf d, folded b1_def]) simp_all
    have "\<exists>buf'. itoa_loop b1 (i - 1) m = Some (buf', i - 1 - int (length (digits m))) \<and> length buf' = length b1
        \<and> drop (nat (i - 1 - int (length (digits m)))) buf' = digits m @ drop (nat (i - 1)) b1"
      using "1.IH" [OF True] upd "1.prems" dig by (simp add: m_def d_def b1_def)
    then obtain buf' where IH: "itoa_loop b1 (i - 1) m = Some (buf', i - 1 - int (length (digits m)))" "length buf' = length b1"
        "drop (nat (i - 1 - int (length (digits m)))) buf' = digits m @ drop (nat (i - 1)) b1" by blast
    have "drop (nat (i - 1)) b1 = d # drop (nat i) buf"
    proof -
      have lt: "nat (i - 1) < length buf" and suc: "nat i = Suc (nat (i - 1))" using "1.prems" dig by simp_all
      have "drop (nat (i - 1)) b1 = b1 ! nat (i - 1) # drop (Suc (nat (i - 1))) b1"
        using lt by (intro Cons_nth_drop_Suc [symmetric]) (simp add: b1_def)
      then show ?thesis using lt suc by (simp add: b1_def)
    qed
    moreover have "itoa_loop buf i n = itoa_loop b1 (i - 1) m"
      using True upd by (simp add: itoa_loop.simps [of buf i n] m_def d_def)
    ultimately show ?thesis using IH dig by (simp add: b1_def algebra_simps)
  qed
qed

lemma length_digits: "n < 10 ^ 19 \<Longrightarrow> length (digits n) \<le> 19"
  using length_nat_dec [of "nat n" 18] by (simp add: digits_def)

section \<open>Ignored paths\<close>

lemma ignored_by_iff: "ignored_by p igs \<longleftrightarrow> (\<exists>ig \<in> set igs. p = ig \<or> has_prefix p (ig @ [slash]))"
  by (induction igs) auto

text \<open>A path as its components, when the current directory is known or the path is absolute.\<close>

definition comps :: "string option \<Rightarrow> string \<Rightarrow> string list" where
  "comps cwd p = clean_comps (case path_abs cwd p of None \<Rightarrow> p | Some a \<Rightarrow> a)"

definition cwd_ok :: "string option \<Rightarrow> bool" where
  "cwd_ok cwd \<longleftrightarrow> (case cwd of None \<Rightarrow> False | Some d \<Rightarrow> is_abs d)"

lemma path_abs_comps:
  assumes "cwd_ok cwd"
  shows "\<exists>q. path_abs cwd p = Some q \<and> q = render (comps cwd p) \<and> list_all norm_comp (comps cwd p)"
proof -
  obtain d where d: "cwd = Some d" "is_abs d" using assms by (auto simp: cwd_ok_def split: option.splits)
  obtain q where q: "path_abs cwd p = Some q" using d by (cases "is_abs p") (auto simp: path_abs_def)
  obtain cs where "list_all norm_comp cs" "q = render cs" using path_abs_cleaned [OF q] d by auto
  then show ?thesis using q by (simp add: comps_def clean_comps_render)
qed

lemma absUnder_render:
  assumes "cwd_ok cwd"
  shows "\<exists>cs. absUnder cwd root p = render cs \<and> list_all norm_comp cs"
proof -
  define p' where "p' = (if is_abs p then p
     else path_join [if root = [] then (case cwd of None \<Rightarrow> root | Some d \<Rightarrow> d) else root, p])"
  obtain q where "path_abs cwd p' = Some q" "q = render (comps cwd p')" "list_all norm_comp (comps cwd p')"
    using path_abs_comps [OF assms, of p'] by blast
  then show ?thesis by (auto simp: absUnder_def p'_def [symmetric] Let_def)
qed

section \<open>Runs of the loop\<close>

definition fires :: "string option \<Rightarrow> Watcher \<Rightarrow> wevent \<Rightarrow> bool" where
  "fires cwd w e = (case e of WFs op name \<Rightarrow> shouldFire cwd w op name | _ \<Rightarrow> False)"

lemma auto_add_simps [simp]:
  "wl_timer (auto_add cwd add tree w op name s) = wl_timer s"
  "wl_signal (auto_add cwd add tree w op name s) = wl_signal s"
  "wl_done (auto_add cwd add tree w op name s) = wl_done s"
  by (auto simp: auto_add_def Let_def split: prod.splits)

lemma wloop_step_timer:
  "wloop_step cwd add tree w e s = Some s' \<Longrightarrow>
     wl_timer s' = (fires cwd w e \<or> (e \<noteq> WTimer \<and> wl_timer s))
     \<and> wl_signal s' = (e = WTimer \<or> (e \<noteq> WTaken \<and> wl_signal s))
     \<and> (e = WTimer \<longrightarrow> wl_timer s) \<and> (e = WTaken \<longrightarrow> wl_signal s)"
  by (cases e) (auto simp: wloop_step_def fires_def Let_def split: if_splits)

abbreviation run_loop where
  "run_loop cwd add tree w \<equiv> run_steps (wloop_step cwd add tree w)"

text \<open>Every signal taken was sent by a timer, every timer was armed by a relevant change.\<close>

lemma signals_bound:
  "run_loop cwd add tree w es s = Some s' \<Longrightarrow>
     length (filter (\<lambda>e. e = WTaken) es) + of_bool (wl_signal s') + of_bool (wl_timer s')
       \<le> length (filter (fires cwd w) es) + of_bool (wl_signal s) + of_bool (wl_timer s)"
proof (induction es arbitrary: s)
  case Nil
  then show ?case by simp
next
  case (Cons e es)
  then obtain s1 where s1: "wloop_step cwd add tree w e s = Some s1" "run_loop cwd add tree w es s1 = Some s'"
    by (auto split: option.splits)
  have "(if e = WTaken then 1 else 0) + of_bool (wl_signal s1) + of_bool (wl_timer s1)
      \<le> (if fires cwd w e then 1 else 0) + of_bool (wl_signal s) + (of_bool (wl_timer s) :: nat)"
    using wloop_step_timer [OF s1(1)] by (cases e) (auto simp: fires_def)
  then show ?case using Cons.IH [OF s1(2)] by (auto split: if_splits)
qed

lemma timer_or_fired:
  "run_loop cwd add tree w es s = Some s' \<Longrightarrow> wl_timer s \<Longrightarrow> wl_timer s' \<or> WTimer \<in> set es"
proof (induction es arbitrary: s)
  case (Cons e es)
  then obtain s1 where s1: "wloop_step cwd add tree w e s = Some s1" "run_loop cwd add tree w es s1 = Some s'"
    by (auto split: option.splits)
  show ?case
  proof (cases "e = WTimer")
    case False
    then have "wl_timer s1" using wloop_step_timer [OF s1(1)] Cons.prems(2) by simp
    then show ?thesis using Cons.IH [OF s1(2)] by auto
  qed simp
qed simp

lemma signal_or_taken:
  "run_loop cwd add tree w es s = Some s' \<Longrightarrow> wl_signal s \<Longrightarrow> wl_signal s' \<or> WTaken \<in> set es"
proof (induction es arbitrary: s)
  case (Cons e es)
  then obtain s1 where s1: "wloop_step cwd add tree w e s = Some s1" "run_loop cwd add tree w es s1 = Some s'"
    by (auto split: option.splits)
  show ?case
  proof (cases "e = WTaken")
    case False
    then have "wl_signal s1" using wloop_step_timer [OF s1(1)] Cons.prems(2) by simp
    then show ?thesis using Cons.IH [OF s1(2)] by auto
  qed simp
qed simp

lemma run_split:
  "run_loop cwd add tree w (es @ e # fs) s = Some s' \<Longrightarrow>
     \<exists>s1 s2. run_loop cwd add tree w es s = Some s1 \<and> wloop_step cwd add tree w e s1 = Some s2
       \<and> run_loop cwd add tree w fs s2 = Some s'"
  by (auto simp: run_steps_append split: option.splits)

text \<open>The directories of a tree that can be reached without passing an ignored one.\<close>

inductive reached :: "(string \<Rightarrow> bool) \<Rightarrow> string \<Rightarrow> fsnode \<Rightarrow> string \<Rightarrow> bool" where
  here: "\<not> ign p \<Longrightarrow> reached ign p (FDir err cs) p"
| below: "\<not> ign p \<Longrightarrow> (n, c) \<in> set cs \<Longrightarrow> reached ign (path_join [p, n]) c q \<Longrightarrow> reached ign p (FDir None cs) q"

inductive_cases reached_missing: "reached ign p FMissing q"
inductive_cases reached_file: "reached ign p FFile q"
inductive_cases reached_dir: "reached ign p (FDir err cs) q"

lemma walk_add_reached: "q \<in> set (fst (walk_add ign add p t)) \<longleftrightarrow> reached ign p t q \<and> add q = None"
proof (induction ign add p t rule: walk_add.induct)
  case (1 ign add p)
  then show ?case by (auto elim: reached_missing)
next
  case (2 ign add p)
  then show ?case by (auto elim: reached_file)
next
  case (3 ign add p err cs)
  show ?case
  proof (cases "ign p")
    case True
    then show ?thesis by (auto elim: reached_dir)
  next
    case False
    have IH: "q \<in> set (fst (walk_add ign add (path_join [p, n]) c)) \<longleftrightarrow> reached ign (path_join [p, n]) c q \<and> add q = None"
      if "(n, c) \<in> set cs" "err = None" for n c using "3.IH" [OF False that(2) that(1) refl] .
    have "q \<in> set (fst (walk_add ign add p (FDir err cs)))
      \<longleftrightarrow> (add p = None \<and> q = p) \<or> (err = None \<and> (\<exists>(n, c) \<in> set cs. q \<in> set (fst (walk_add ign add (path_join [p, n]) c))))"
      using False by (cases "add p"; cases err) (simp_all add: merge2_def case_prod_beta)
    also have "\<dots> \<longleftrightarrow> (add p = None \<and> q = p) \<or> (err = None \<and> (\<exists>(n, c) \<in> set cs. reached ign (path_join [p, n]) c q \<and> add q = None))"
      using IH by blast
    also have "\<dots> \<longleftrightarrow> reached ign p (FDir err cs) q \<and> add q = None"
      using False by (auto intro: reached.intros elim!: reached_dir)
    finally show ?thesis .
  qed
qed

lemma reached_not_ignored: "reached ign p t q \<Longrightarrow> \<not> ign q"
  by (induction rule: reached.induct) auto

section \<open>Properties\<close>

text \<open>The printer never writes outside its 20-byte buffer and prints the decimal numeral of
  every \<open>int\<close> but the least one.\<close>

theorem itoa_correct:
  assumes "- (2 ^ 63) < n" and "n < 2 ^ 63"
  shows "watcher_itoa n = Some (int_dec n)"
proof (cases "n = 0")
  case True
  then show ?thesis by (simp add: watcher_itoa_def int_dec_def nat_dec.simps digit_char_def char_of_def bit_0)
next
  case False
  define m where "m = (if n < 0 then int64 (- n) else n)"
  have m: "0 < m" "m < 2 ^ 63" "m = \<bar>n\<bar>" using False assms by (simp_all add: m_def)
  let ?k = "int (length (digits m))" and ?buf = "replicate 20 (CHR 0x00)"
  have k: "?k \<le> 19" using m length_digits [of m] by simp
  then obtain buf where buf: "itoa_loop ?buf 20 m = Some (buf, 20 - ?k)" "length buf = 20" "drop (nat (20 - ?k)) buf = digits m"
    using itoa_loop_digits [of m 20 ?buf] by auto
  have dec: "digits m = nat_dec (nat m)" using m by (simp add: digits_def)
  show ?thesis
  proof (cases "n < 0")
    case True
    let ?j = "nat (20 - ?k - 1)"
    have j: "?j < length buf" "nat (20 - ?k) = Suc ?j" using k buf(2) by simp_all
    have "drop ?j (buf[?j := CHR ''-'']) = CHR ''-'' # drop (Suc ?j) buf"
      using j(1) by (simp add: Cons_nth_drop_Suc [symmetric])
    then show ?thesis using True False buf k j dec m(3) assms
      by (simp add: watcher_itoa_def m_def [symmetric] Let_def go_update_def int_dec_def)
  next
    case False
    then show ?thesis using \<open>n \<noteq> 0\<close> buf dec m(3) k
      by (simp add: watcher_itoa_def m_def [symmetric] Let_def int_dec_def)
  qed
qed

theorem itoa_correct_witness: "watcher_itoa (- 42) = Some (int_dec (- 42)) \<and> int_dec (- 42) = ''-42''"
  using itoa_correct [of "- 42"] by (simp add: int_dec_def nat_dec.simps digit_char_def char_of_def bit_0)

text \<open>C33. A path is ignored exactly when one of the ignore entries, read relative to the root, is a
  leading part of it, component by component: ignoring \<open>vendor\<close> never ignores \<open>vendor2\<close>. The root
  directory as an entry ignores only itself.\<close>

theorem isIgnored_iff_component_prefix:
  assumes "cwd_ok cwd" and "watcher_New newFsw cwd cfg root = Inr w"
  shows "isIgnored cwd w p \<longleftrightarrow>
    (\<exists>ig \<in> set (wc_Ignore cfg). \<exists>ds. absUnder cwd root ig = render ds \<and> list_all norm_comp ds
       \<and> (comps cwd p = ds \<or> (ds \<noteq> [] \<and> strict_prefix ds (comps cwd p))))"
proof -
  obtain q where q: "path_abs cwd p = Some q" "q = render (comps cwd p)" "list_all norm_comp (comps cwd p)"
    using path_abs_comps [OF assms(1), of p] by blast
  have w: "w_ignoreAbs w = map (absUnder cwd root) (wc_Ignore cfg)"
    using assms(2) by (auto simp: watcher_New_def split: if_splits option.splits)
  have clean: "path_clean q = render (comps cwd p)" using q(2,3) by (simp add: path_clean_render)
  have match: "render (comps cwd p) = a \<or> has_prefix (render (comps cwd p)) (a @ [slash]) \<longleftrightarrow>
      (\<exists>ds. a = render ds \<and> list_all norm_comp ds \<and> (comps cwd p = ds \<or> (ds \<noteq> [] \<and> strict_prefix ds (comps cwd p))))"
    if a: "a = absUnder cwd root ig" for a ig
  proof -
    obtain cs where cs: "a = render cs" "list_all norm_comp cs"
      using absUnder_render [OF assms(1), of root ig] unfolding a by blast
    have ds: "ds = cs" if "a = render ds" "list_all norm_comp ds" for ds
      using that cs render_inject by blast
    show ?thesis
    proof (cases "cs = []")
      case True
      have "\<not> has_prefix (render (comps cwd p)) (render [] @ [slash])"
      proof
        assume "has_prefix (render (comps cwd p)) (render [] @ [slash])"
        then obtain t where "join_with [slash] (comps cwd p) = slash # t"
          by (auto simp: has_prefix_iff render_def)
        then show False using q(3)
          by (cases "comps cwd p" rule: list.exhaust; cases "tl (comps cwd p)"; cases "hd (comps cwd p)")
            (auto simp: norm_comp_def Cons_eq_append_conv)
      qed
      then show ?thesis using True cs ds render_inject [OF q(3) cs(2)] by blast
    next
      case False
      then show ?thesis
        using cs ds has_prefix_render [OF q(3) cs(2) False] render_inject [OF q(3) cs(2)] by blast
    qed
  qed
  have "isIgnored cwd w p \<longleftrightarrow> (\<exists>ig \<in> set (wc_Ignore cfg).
      render (comps cwd p) = absUnder cwd root ig \<or> has_prefix (render (comps cwd p)) (absUnder cwd root ig @ [slash]))"
    by (simp add: isIgnored_def q(1) clean ignored_by_iff w)
  then show ?thesis using match [OF refl] by simp
qed

definition demo_watch :: WatchConfig where
  "demo_watch = \<lparr>wc_Enabled = True, wc_Dirs = [''.''], wc_Extensions = [''go''], wc_Ignore = [''./vendor''],
     wc_BuildCmd = [], wc_DebounceMs = 0\<rparr>"

definition demo_w :: Watcher where
  "demo_w = \<lparr>w_cfg = demo_watch, w_root = ''/p'', w_extSet = [''.go''], w_ignoreAbs = [''/p/vendor'']\<rparr>"

lemma demo_w_New: "watcher_New None (Some ''/'') demo_watch ''/p'' = Inr demo_w"
  by (simp add: watcher_New_def demo_watch_def demo_w_def ext_set_def dotted_def has_prefix_def to_lower_def
      lower_char_def absUnder_def path_join_def path_clean_def clean_comps_def clean_step.simps is_abs_def path_abs_def)

theorem isIgnored_iff_component_prefix_witness:
  "isIgnored (Some ''/'') demo_w ''/p/vendor/x.go'' \<and> \<not> isIgnored (Some ''/'') demo_w ''/p/vendor2/x.go''"
proof -
  have cwd: "cwd_ok (Some ''/'')" by (simp add: cwd_ok_def)
  have ig: "absUnder (Some ''/'') ''/p'' ''./vendor'' = render [''p'', ''vendor'']"
    by (simp add: absUnder_def path_join_def path_clean_def clean_comps_def clean_step.simps is_abs_def
        path_abs_def has_prefix_def render_def)
  have n: "list_all norm_comp [''p'', ''vendor'']" by (simp add: norm_comp_def)
  have c: "comps (Some ''/'') ''/p/vendor/x.go'' = [''p'', ''vendor'', ''x.go'']"
    "comps (Some ''/'') ''/p/vendor2/x.go'' = [''p'', ''vendor2'', ''x.go'']"
    by (simp_all add: comps_def path_abs_def path_clean_def clean_comps_def clean_step.simps is_abs_def has_prefix_def)
  have uniq: "ds = [''p'', ''vendor'']" if "render [''p'', ''vendor''] = render ds" "list_all norm_comp ds" for ds
    using that n render_inject by metis
  show ?thesis
    unfolding isIgnored_iff_component_prefix [OF cwd demo_w_New] c
    using ig n by (auto simp: demo_watch_def strict_prefix_def dest: uniq)
qed

text \<open>C32. \<open>addRecursive\<close> watches exactly the directories of the tree that are reached without
  passing an ignored directory or one that cannot be read, and whose \<open>Add\<close> succeeds: a failing
  directory never hides its siblings.\<close>

theorem addRecursive_complete:
  "q \<in> set (fst (addRecursive cwd add tree w root)) \<longleftrightarrow>
     reached (isIgnored cwd w) root (tree root) q \<and> add q = None"
  unfolding addRecursive_def by (rule walk_add_reached)

text \<open>C24. No relevant change is lost by the debouncing: after it, the timer runs, or it has fired
  and the signal is pending or was taken since.\<close>

theorem change_leads_to_rebuild:
  assumes "run_steps (wloop_step cwd add tree w) (es @ WFs op name # fs) (watcher_Start cwd add tree w pending) = Some s"
    and "shouldFire cwd w op name"
  shows "wl_timer s \<or> (\<exists>xs ys. fs = xs @ WTimer # ys \<and> (wl_signal s \<or> WTaken \<in> set ys))"
proof -
  obtain s1 s2 where st: "wloop_step cwd add tree w (WFs op name) s1 = Some s2" "run_loop cwd add tree w fs s2 = Some s"
    using run_split [OF assms(1)] by blast
  have "wl_timer s2" using wloop_step_timer [OF st(1)] assms(2) by (simp add: fires_def)
  show ?thesis
  proof (cases "wl_timer s")
    case False
    then have "WTimer \<in> set fs" using timer_or_fired [OF st(2) \<open>wl_timer s2\<close>] by simp
    then obtain xs ys where fs: "fs = xs @ WTimer # ys" using split_list by metis
    obtain s3 s4 where s4: "wloop_step cwd add tree w WTimer s3 = Some s4" "run_loop cwd add tree w ys s4 = Some s"
      using run_split [of cwd add tree w xs WTimer ys s2 s] st(2) fs by blast
    have "wl_signal s4" using wloop_step_timer [OF s4(1)] by simp
    then show ?thesis using signal_or_taken [OF s4(2)] fs by blast
  qed simp
qed

theorem change_leads_to_rebuild_witness:
  "\<exists>s. run_steps (wloop_step (Some ''/'') (\<lambda>_. None) (\<lambda>_. FMissing) demo_w)
       [WFs op_write ''/p/a.go'', WFs op_write ''/p/a.go'', WTimer] (watcher_Start (Some ''/'') (\<lambda>_. None) (\<lambda>_. FMissing) demo_w False) = Some s
     \<and> \<not> wl_timer s \<and> wl_signal s"
proof -
  have fire: "shouldFire (Some ''/'') demo_w op_write ''/p/a.go''"
    by (simp add: shouldFire_def isIgnored_def demo_w_def path_abs_def path_clean_def clean_comps_def clean_step.simps
        is_abs_def has_prefix_def op_write_def op_create_def op_remove_def op_rename_def path_ext_def to_lower_def lower_char_def)
  obtain s where s: "run_steps (wloop_step (Some ''/'') (\<lambda>_. None) (\<lambda>_. FMissing) demo_w)
       [WFs op_write ''/p/a.go'', WFs op_write ''/p/a.go'', WTimer] (watcher_Start (Some ''/'') (\<lambda>_. None) (\<lambda>_. FMissing) demo_w False) = Some s"
      "\<not> wl_timer s"
    using fire by (simp add: wloop_step_def watcher_Start_def Let_def case_prod_beta auto_add_def op_write_def op_create_def)
  have "wl_timer s \<or> (\<exists>xs ys. [WTimer] = xs @ WTimer # ys \<and> (wl_signal s \<or> WTaken \<in> set ys))"
    by (rule change_leads_to_rebuild [of _ _ _ _ "[WFs op_write ''/p/a.go'']" _ _ "[WTimer]" False]) (use s fire in simp_all)
  then show ?thesis using s by (auto simp: Cons_eq_append_conv)
qed

text \<open>The supervise loop is never signalled without a cause: it takes at most one signal per
  relevant change, and a signal that was pending before.\<close>

theorem rebuilds_bounded_by_changes:
  assumes "run_steps (wloop_step cwd add tree w) es (watcher_Start cwd add tree w pending) = Some s"
  shows "length (filter (\<lambda>e. e = WTaken) es) \<le> length (filter (fires cwd w) es) + of_bool pending"
  using signals_bound [OF assms] by (simp add: watcher_Start_def case_prod_beta)

theorem rebuilds_bounded_by_changes_witness:
  "\<exists>s. run_steps (wloop_step (Some ''/'') (\<lambda>_. None) (\<lambda>_. FMissing) demo_w) [WTaken] (watcher_Start (Some ''/'') (\<lambda>_. None) (\<lambda>_. FMissing) demo_w True) = Some s
     \<and> length (filter (\<lambda>e. e = WTaken) [WTaken]) \<le> length (filter (fires (Some ''/'') demo_w) [WTaken]) + (1 :: nat)"
proof -
  obtain s where s: "run_steps (wloop_step (Some ''/'') (\<lambda>_. None) (\<lambda>_. FMissing) demo_w) [WTaken]
      (watcher_Start (Some ''/'') (\<lambda>_. None) (\<lambda>_. FMissing) demo_w True) = Some s"
    by (simp add: wloop_step_def watcher_Start_def case_prod_beta)
  from rebuilds_bounded_by_changes [OF s] s show ?thesis by simp
qed

end
