(* ===== verification/Watcher_Close.thy ===== *)
theory Watcher_Close
  imports Watcher
begin

text \<open>
  The life of a file watcher (\<open>New\<close>, \<open>Start\<close> in its goroutine and \<open>Close\<close> in the deferred call of
  \<open>supervise\<close>, \<open>internal/watcher/watcher.go\<close>): a step relation of the two goroutines over the channels
  \<open>stopCh\<close> and \<open>doneCh\<close> and the \<open>fsnotify\<close> watcher, whose channels end once it is closed.
\<close>

section \<open>Model\<close>

datatype loop_pc = GNew | GLoop wloop | GEnded wloop

datatype close_pc = CIdle | CFsw | CWait | CReturned

record wlife =
  wf_loop :: loop_pc
  wf_stop :: bool
  wf_fsw :: bool
  wf_close :: close_pc

definition wlife_New :: wlife where
  "wlife_New = \<lparr>wf_loop = GNew, wf_stop = False, wf_fsw = False, wf_close = CIdle\<rparr>"

text \<open>\<open>FClose\<close> closes \<open>stopCh\<close> unless it is closed, \<open>FFswClose\<close> the \<open>fsnotify\<close> watcher, \<open>FDone\<close> receives from \<open>doneCh\<close>.\<close>

datatype life_ev = FStart bool | FLoop wevent | FClose | FFswClose | FDone

definition ready_ev :: "wlife \<Rightarrow> wevent \<Rightarrow> bool" where
  "ready_ev f e = (case e of WStopped \<Rightarrow> wf_stop f | WFsClosed \<Rightarrow> wf_fsw f | WErrClosed \<Rightarrow> wf_fsw f | _ \<Rightarrow> True)"

definition after_step :: "wloop \<Rightarrow> loop_pc" where
  "after_step s = (if wl_done s then GEnded s else GLoop s)"

definition wlife_step ::
  "string option \<Rightarrow> (string \<Rightarrow> string option) \<Rightarrow> (string \<Rightarrow> fsnode) \<Rightarrow> Watcher \<Rightarrow> life_ev \<Rightarrow> wlife \<Rightarrow> wlife option"
where
  "wlife_step cwd add tree w e f =
     (case e of
        FStart pending \<Rightarrow> if wf_loop f = GNew then Some (f\<lparr>wf_loop := GLoop (watcher_Start cwd add tree w pending)\<rparr>) else None
      | FLoop ev \<Rightarrow>
          (case wf_loop f of GNew \<Rightarrow> None
           | GLoop s \<Rightarrow> if ready_ev f ev then map_option (\<lambda>s'. f\<lparr>wf_loop := after_step s'\<rparr>) (wloop_step cwd add tree w ev s) else None
           | GEnded s \<Rightarrow> map_option (\<lambda>s'. f\<lparr>wf_loop := GEnded s'\<rparr>) (wloop_step cwd add tree w ev s))
      | FClose \<Rightarrow> if wf_close f = CIdle then Some (f\<lparr>wf_stop := True, wf_close := CFsw\<rparr>) else None
      | FFswClose \<Rightarrow> if wf_close f = CFsw then Some (f\<lparr>wf_fsw := True, wf_close := CWait\<rparr>) else None
      | FDone \<Rightarrow> (case wf_loop f of GEnded s \<Rightarrow> if wf_close f = CWait then Some (f\<lparr>wf_close := CReturned\<rparr>) else None | _ \<Rightarrow> None))"

section \<open>Invariant\<close>

definition wlife_inv :: "wlife \<Rightarrow> bool" where
  "wlife_inv f \<longleftrightarrow> (wf_close f \<noteq> CIdle \<longrightarrow> wf_stop f) \<and> (wf_close f \<in> {CWait, CReturned} \<longrightarrow> wf_fsw f)
     \<and> (case wf_loop f of GNew \<Rightarrow> wf_close f \<noteq> CReturned | GLoop s \<Rightarrow> \<not> wl_done s \<and> wf_close f \<noteq> CReturned | GEnded s \<Rightarrow> wl_done s)"

lemma Start_running: "\<not> wl_done (watcher_Start cwd add tree w pending)"
  by (simp add: watcher_Start_def case_prod_beta)

lemma wloop_step_done: "wloop_step cwd add tree w e s = Some s' \<Longrightarrow> wl_done s \<Longrightarrow> e = WTaken \<and> wl_done s' \<and> \<not> wl_signal s'"
  by (auto simp: wloop_step_def split: if_splits)

text \<open>A step of the loop goroutine changes its own part of the state only.\<close>

lemma loop_cases:
  assumes "wlife_step cwd add tree w (FLoop ev) f = Some f'"
  obtains (running) s s' where "wf_loop f = GLoop s" "ready_ev f ev" "wloop_step cwd add tree w ev s = Some s'"
      "f' = f\<lparr>wf_loop := after_step s'\<rparr>"
    | (ended) s s' where "wf_loop f = GEnded s" "wloop_step cwd add tree w ev s = Some s'" "f' = f\<lparr>wf_loop := GEnded s'\<rparr>"
  using assms by (auto simp: wlife_step_def split: loop_pc.splits if_splits)

lemma wlife_step_inv: "wlife_step cwd add tree w e f = Some f' \<Longrightarrow> wlife_inv f \<Longrightarrow> wlife_inv f'"
proof (cases e)
  case (FLoop ev)
  assume step: "wlife_step cwd add tree w e f = Some f'" and inv: "wlife_inv f"
  show ?thesis
    using step unfolding FLoop
  proof (cases rule: loop_cases)
    case (running s s')
    then show ?thesis using inv by (cases "wl_done s'") (auto simp: wlife_inv_def after_step_def)
  next
    case (ended s s')
    then have "wl_done s" using inv by (simp add: wlife_inv_def)
    then show ?thesis using ended inv wloop_step_done [OF ended(2)] by (simp add: wlife_inv_def)
  qed
qed (auto simp: wlife_step_def wlife_inv_def Start_running split: if_splits loop_pc.splits)

interpretation watching: transition_system "\<lambda>f. f = wlife_New" "wlife_step cwd add tree w" wlife_inv
  by unfold_locales (simp_all add: wlife_step_inv, simp add: wlife_inv_def wlife_New_def)

section \<open>Close returns\<close>

text \<open>The steps that bring a \<open>Close\<close> nearer to its return, and how many there can be.\<close>

definition closing :: "life_ev \<Rightarrow> bool" where
  "closing e = (case e of FLoop ev \<Rightarrow> ev \<in> {WStopped, WFsClosed, WErrClosed} | _ \<Rightarrow> True)"

definition close_rank :: "wlife \<Rightarrow> nat" where
  "close_rank f = (case wf_close f of CIdle \<Rightarrow> 3 | CFsw \<Rightarrow> 2 | CWait \<Rightarrow> 1 | CReturned \<Rightarrow> 0)
     + (case wf_loop f of GNew \<Rightarrow> 2 | GLoop s \<Rightarrow> 1 | GEnded s \<Rightarrow> 0)"

lemma stop_event_ends: "ev \<in> {WStopped, WFsClosed, WErrClosed} \<Longrightarrow> wloop_step cwd add tree w ev s = Some s' \<Longrightarrow> wl_done s'"
  by (auto simp: wloop_step_def split: if_splits)

lemma other_event_goes_on:
  "ev \<notin> {WStopped, WFsClosed, WErrClosed} \<Longrightarrow> wloop_step cwd add tree w ev s = Some s' \<Longrightarrow> wl_done s' = wl_done s"
  by (cases ev) (auto simp: wloop_step_def auto_add_def Let_def split: if_splits prod.splits)

lemma rank_step:
  assumes "wlife_step cwd add tree w e f = Some f'" and "wlife_inv f"
  shows "close_rank f = close_rank f' + (if closing e then 1 else 0)"
proof (cases e)
  case (FLoop ev)
  have "wlife_step cwd add tree w (FLoop ev) f = Some f'" using assms(1) FLoop by simp
  then show ?thesis
  proof (cases rule: loop_cases)
    case (running s s')
    have "\<not> wl_done s" using running(1) assms(2) by (simp add: wlife_inv_def)
    then have "wl_done s' \<longleftrightarrow> closing (FLoop ev)"
      using stop_event_ends [OF _ running(3)] other_event_goes_on [OF _ running(3)] by (auto simp: closing_def)
    then show ?thesis using FLoop running(1,4) by (auto simp: close_rank_def after_step_def)
  next
    case (ended s s')
    then have "wl_done s" using assms(2) by (simp add: wlife_inv_def)
    then have "\<not> closing (FLoop ev)" using wloop_step_done [OF ended(2)] by (simp add: closing_def)
    then show ?thesis using FLoop ended(1,3) by (simp add: close_rank_def)
  qed
qed (use assms in \<open>auto simp: wlife_step_def close_rank_def closing_def split: if_splits loop_pc.splits\<close>)

lemma rank_run:
  "run_steps (wlife_step cwd add tree w) es f = Some f' \<Longrightarrow> wlife_inv f \<Longrightarrow> close_rank f = close_rank f' + length (filter closing es)"
proof (induction es arbitrary: f)
  case (Cons e es)
  then show ?case using rank_step wlife_step_inv by (fastforce split: option.splits)
qed simp

text \<open>
  A \<open>Close\<close> returns: from the moment it is called until it has returned, a step towards its return is
  always possible, whatever events the file system reports in between, and there are at most five such steps.
  Once it has returned the loop has ended, and no change of a file signals a rebuild any more.
\<close>

theorem close_returns:
  assumes "run_steps (wlife_step cwd add tree w) es wlife_New = Some f"
  shows "(wf_close f \<noteq> CReturned \<longrightarrow> (\<exists>e f'. closing e \<and> wlife_step cwd add tree w e f = Some f'))
    \<and> length (filter closing es) \<le> 5
    \<and> (wf_close f = CReturned \<longrightarrow> (\<exists>s. wf_loop f = GEnded s \<and> (\<forall>fs f'. run_steps (wlife_step cwd add tree w) fs f = Some f' \<longrightarrow>
         (\<exists>s'. wf_loop f' = GEnded s' \<and> (wl_signal s' \<longrightarrow> wl_signal s)))))"
proof (intro conjI impI)
  have inv: "wlife_inv f" using watching.reach_inv [OF refl assms] .
  have inv0: "wlife_inv wlife_New" by (simp add: wlife_inv_def wlife_New_def)
  show "length (filter closing es) \<le> 5" using rank_run [OF assms inv0] by (simp add: close_rank_def wlife_New_def)
  show "\<exists>e f'. closing e \<and> wlife_step cwd add tree w e f = Some f'" if "wf_close f \<noteq> CReturned"
  proof (cases "wf_close f")
    case CIdle
    then have "closing FClose \<and> wlife_step cwd add tree w FClose f = Some (f\<lparr>wf_stop := True, wf_close := CFsw\<rparr>)"
      by (simp add: closing_def wlife_step_def)
    then show ?thesis by blast
  next
    case CFsw
    then have "closing FFswClose \<and> wlife_step cwd add tree w FFswClose f = Some (f\<lparr>wf_fsw := True, wf_close := CWait\<rparr>)"
      by (simp add: closing_def wlife_step_def)
    then show ?thesis by blast
  next
    case CWait
    show ?thesis
    proof (cases "wf_loop f")
      case GNew
      then have "closing (FStart False) \<and> (\<exists>f'. wlife_step cwd add tree w (FStart False) f = Some f')"
        by (simp add: closing_def wlife_step_def)
      then show ?thesis by blast
    next
      case (GLoop s)
      then have "closing (FLoop WStopped) \<and> (\<exists>f'. wlife_step cwd add tree w (FLoop WStopped) f = Some f')"
        using inv CWait by (simp add: closing_def wlife_step_def wloop_step_def ready_ev_def wlife_inv_def)
      then show ?thesis by blast
    next
      case (GEnded s)
      then have "closing FDone \<and> (\<exists>f'. wlife_step cwd add tree w FDone f = Some f')"
        using CWait by (simp add: closing_def wlife_step_def)
      then show ?thesis by blast
    qed
  qed (use that in simp)
  show "\<exists>s. wf_loop f = GEnded s \<and> (\<forall>fs f'. run_steps (wlife_step cwd add tree w) fs f = Some f' \<longrightarrow>
         (\<exists>s'. wf_loop f' = GEnded s' \<and> (wl_signal s' \<longrightarrow> wl_signal s)))" if ret: "wf_close f = CReturned"
  proof -
    obtain s where s: "wf_loop f = GEnded s" "wl_done s" using inv ret by (cases "wf_loop f") (simp_all add: wlife_inv_def)
    have "\<exists>s'. wf_loop f' = GEnded s' \<and> (wl_signal s' \<longrightarrow> wl_signal s)"
      if "run_steps (wlife_step cwd add tree w) fs f1 = Some f'" "wf_loop f1 = GEnded s1" "wl_done s1" "wl_signal s1 \<longrightarrow> wl_signal s" for fs f1 s1 f'
      using that
    proof (induction fs arbitrary: f1 s1)
      case (Cons e fs)
      obtain f2 where f2: "wlife_step cwd add tree w e f1 = Some f2" "run_steps (wlife_step cwd add tree w) fs f2 = Some f'"
        using Cons.prems(1) by (auto split: option.splits)
      have "\<exists>s2. wf_loop f2 = GEnded s2 \<and> wl_done s2 \<and> (wl_signal s2 \<longrightarrow> wl_signal s)"
        using f2(1) Cons.prems(2-4)
        by (cases e) (auto simp: wlife_step_def split: if_splits dest: wloop_step_done)
      then show ?case using Cons.IH [OF f2(2)] by blast
    qed simp
    then show ?thesis using s by blast
  qed
qed

end
