(* ===== verification/Log_Pipeline.thy ===== *)
theory Log_Pipeline
  imports Cli
begin

text \<open>
  The way of a line of output, from the child to the terminal: the two reader goroutines of \<open>Attach\<close>
  (\<open>internal/logger/logger.go\<close>), the log of the app, the query over the wire and \<open>gopm logs\<close>.
\<close>

lemma append_shuffles: "xs @ ys \<in> shuffles xs ys"
  by (induction xs) (auto intro: Cons_in_shuffles_leftI)

lemma interleave_shuffles: "interleave bs xs ys \<in> shuffles xs ys"
proof (induction bs xs ys rule: interleave.induct)
  case (1 bs x xs ys)
  then show ?case by (auto intro: Cons_in_shuffles_leftI)
next
  case (2 bs xs y ys)
  then show ?case by (auto intro: Cons_in_shuffles_rightI)
qed (auto simp: append_shuffles)

lemma scan_into_lines:
  assumes "lg_ok lg" and "find_log lg name = Some a"
  shows "\<exists>lg'. scan_into os clk a ls lg = Some lg' \<and> lg_ok lg' \<and> lg_capacity lg' = lg_capacity lg
    \<and> (\<forall>m. lines_of lg' m = (if m = name then lastn (nat (lg_capacity lg)) (lines_of lg m @ ls) else lines_of lg m))"
  using assms
proof (induction ls arbitrary: lg clk)
  case Nil
  then show ?case using logs.lines_bounded [OF Nil(1), of name] by simp
next
  case (Cons l ls)
  obtain lg1 where lg1: "pl_append os (clk 0) a l lg = Some lg1" "lg_ok lg1" "lg_capacity lg1 = lg_capacity lg"
      "\<And>m. lines_of lg1 m = (if m = name then lastn (nat (lg_capacity lg)) (lines_of lg m @ [l]) else lines_of lg m)"
      "lg_procs lg1 = lg_procs lg"
    using pl_append_ok [OF Cons.prems, of os "clk 0" l] by blast
  have "find_log lg1 name = Some a" using Cons.prems(2) lg1(5) by (simp add: find_log_def)
  from Cons.IH [OF lg1(2) this, of "clk \<circ> Suc"] obtain lg2 where lg2:
      "scan_into os (clk \<circ> Suc) a ls lg1 = Some lg2" "lg_ok lg2" "lg_capacity lg2 = lg_capacity lg1"
      "\<And>m. lines_of lg2 m = (if m = name then lastn (nat (lg_capacity lg1)) (lines_of lg1 m @ ls) else lines_of lg1 m)"
    by blast
  have "lastn k (lastn k (xs @ [l]) @ ls) = lastn k (xs @ l # ls)" for k xs
    using lastn_absorb [of k "xs @ [l]" ls] by simp
  then show ?case using lg1 lg2 by simp
qed

lemma attach_lines:
  assumes "lg_ok lg"
  shows "\<exists>lg'. Attach os clk sched name stdout stderr lg = Some lg' \<and> lg_ok lg' \<and> lines_of lg' name
    = lastn (nat (lg_capacity lg)) (lines_of lg name @ interleave sched (capture [] stdout) (capture ''[stderr] '' stderr))"
proof -
  obtain lg1 a where e: "ensure name lg = Some (lg1, a)" "lg_ok lg1" "find_log lg1 name = Some a"
      "lg_capacity lg1 = lg_capacity lg" "lines_of lg1 = lines_of lg"
    using ensure_ok [OF assms, of name] by blast
  then show ?thesis
    using scan_into_lines [OF e(2,3), of os clk "interleave sched (capture [] stdout) (capture ''[stderr] '' stderr)"]
    by (auto simp: Attach_def)
qed

text \<open>Lines that fit the scanner, and the text that has them.\<close>

definition scannable :: "string \<Rightarrow> bool" where
  "scannable l \<longleftrightarrow> newline \<notin> set l \<and> length l < 1048576"

definition text_of :: "string list \<Rightarrow> string" where
  "text_of ls = concat (map (\<lambda>l. l @ [newline]) ls)"

lemma capture_text: "list_all scannable ls \<Longrightarrow> capture pre (text_of ls) = map (\<lambda>l. pre @ drop_cr l) ls"
  using scan_lines_text [of ls 1048576 "[]"]
  by (auto simp: capture_def text_of_def newline_def scannable_def list_all_iff comp_def)



end
