(* ===== verification/Deadlines.thy ===== *)
theory Deadlines
  imports Cli
begin

text \<open>
  The deadlines of the client (\<open>internal/ipc/client.go\<close>): \<open>Send\<close> gives up when the whole exchange takes
  longer than the timeout of its \<open>Client\<close>, and the daemon, which has no deadline, goes on with the request.
\<close>

section \<open>Model\<close>

text \<open>A duration is in seconds; \<open>took\<close> is how long the daemon needs for a request in a state.\<close>

record Client =
  cl_addr :: string
  cl_timeout :: int

definition NewClient :: "string \<Rightarrow> Client" where
  "NewClient addr = \<lparr>cl_addr = addr, cl_timeout = 30\<rparr>"

definition NewClientWithTimeout :: "string \<Rightarrow> int \<Rightarrow> Client" where
  "NewClientWithTimeout addr timeout = \<lparr>cl_addr = addr, cl_timeout = timeout\<rparr>"

text \<open>The error of a read past the deadline; the operating system names the addresses in it.\<close>

definition timeout_text :: "string \<Rightarrow> string" where
  "timeout_text conn = ''read response: read tcp '' @ conn @ '': i/o timeout''"

definition timed_send ::
  "codec \<Rightarrow> 's sup_api \<Rightarrow> clock \<Rightarrow> (Request \<Rightarrow> 's \<Rightarrow> int) \<Rightarrow> string \<Rightarrow> Client \<Rightarrow> Request \<Rightarrow> 's \<times> bool \<Rightarrow> ('s \<times> bool) \<times> (string + Response)"
where
  "timed_send cc api ck took conn cl req d =
     (case daemon_send cc api ck req d of (d', r) \<Rightarrow>
        (d', if took req (fst d) < cl_timeout cl then r else Inl (timeout_text conn)))"

definition timed_net ::
  "codec \<Rightarrow> 's sup_api \<Rightarrow> clock \<Rightarrow> (Request \<Rightarrow> 's \<Rightarrow> int) \<Rightarrow> string \<Rightarrow> string \<Rightarrow> ('s \<times> bool) net \<Rightarrow> ('s \<times> bool) net"
where
  "timed_net cc api ck took conn addr net =
     (daemon_net cc api ck net)\<lparr>nt_send := (\<lambda>timeout. timed_send cc api ck took conn (NewClientWithTimeout addr timeout))\<rparr>"

section \<open>Properties\<close>

lemma in_time: "took req (fst d) < timeout \<Longrightarrow>
    nt_send (timed_net cc api ck took conn addr net) timeout req d = nt_send (daemon_net cc api ck net) timeout req d"
  by (simp add: timed_net_def daemon_net_def timed_send_def NewClientWithTimeout_def)

text \<open>A stop that takes the daemon longer than fifteen seconds (it waits up to thirty for the child) does
  its work, and the client reports it as a failure.\<close>

lemma slow_stop_reported_as_failure:
  assumes "name \<noteq> []" and "api_Stop api (fix_utf8 name) s = (s', err)"
    and "15 \<le> took ((request ''stop'')\<lparr>rq_AppName := name\<rparr>) s"
  shows "run_command env (timed_net (json_codec fl why why') api ck took conn addr' net) customHost addr (CStop (name # rest)) (s, b)
    = ((s', b), die [] (timeout_text conn))"
proof -
  let ?req = "(request ''stop'')\<lparr>rq_AppName := name\<rparr>"
  have w: "wire_request ?req = (request ''stop'')\<lparr>rq_AppName := fix_utf8 name\<rparr>" by (rule wire_named) (simp add: ascii_def)
  have "Handler api ck (wire_request ?req) s
      = Some (s', case err of None \<Rightarrow> ok_resp (''stopped'' @ '' '' @ fix_utf8 name) | Some e \<Rightarrow> errResp e)"
    unfolding w handler_named using named_resp [of "fix_utf8 name" "''stop''" "''stopped''" "api_Stop api" s] assms(1,2) by simp
  then have "fst (daemon_send (json_codec fl why why') api ck ?req (s, b)) = (s', b)"
    using json_send_answer [of api ck ?req s s' _ fl why why' b, unfolded w] unfolding w
    by (cases err) (simp_all add: request_def is_stream_def request_ints_def go_int_def ok_resp_def errResp_def)
  then show ?thesis using assms(3)
    by (simp add: run_command_def cmdStop_def send_named_def timed_net_def timed_send_def NewClientWithTimeout_def checkResp_def split_beta)
qed

end
